(* ===== verification/Ship_Prelude.thy ===== *)
theory Ship_Prelude
  imports Main "HOL-Library.Word" "HOL-Library.Monad_Syntax"
begin

unbundle bit_operations_syntax

text \<open>
  Shared vocabulary of the development.

  Machine integers of the code (\<open>uint8_t\<close>, \<open>uint16_t\<close>, \<open>uint32_t\<close>, \<open>uint64_t\<close>)
  are words.  \<open>size_t\<close> counters and indices are natural numbers below \<open>2 ^ 64\<close> whose
  additions and subtractions are written with \<open>sz_add\<close> and \<open>sz_sub\<close>, which wrap as
  the C++ operators do.  An operation whose C++ execution may have undefined
  behaviour (an access out of bounds, a dangling page, \<open>front()\<close> of an empty container), may
  end in an uncaught exception, or may not return, has an \<open>option\<close> result, and
  \<open>None\<close> stands for all of these; theorems that the code returns are stated
  with \<open>Some\<close>.
\<close>

section \<open>Machine types\<close>

type_synonym u8 = "8 word"
type_synonym u16 = "16 word"
type_synonym u32 = "32 word"
type_synonym u64 = "64 word"

definition size_max :: nat where
  "size_max = 2 ^ 64"

definition sz_add :: "nat \<Rightarrow> nat \<Rightarrow> nat" where
  "sz_add a b = (a + b) mod size_max"

definition sz_sub :: "nat \<Rightarrow> nat \<Rightarrow> nat" where
  "sz_sub a b = (a + size_max - b) mod size_max"

named_theorems ship_simps \<open>characteristic equations of the model's operations\<close>
named_theorems word_facts \<open>facts about machine words shared by the components\<close>

lemma sz_add_exact [simp]: "a + b < size_max \<Longrightarrow> sz_add a b = a + b"
  by (simp add: sz_add_def)

lemma sz_sub_exact [simp]:
  assumes "b \<le> a" and "a < size_max"
  shows "sz_sub a b = a - b"
proof -
  have "a + size_max - b = a - b + size_max"
    using assms(1) by (rule Nat.add_diff_assoc2 [symmetric])
  moreover have "a - b < size_max" using assms(2) by (rule less_imp_diff_less)
  ultimately show ?thesis by (metis sz_sub_def mod_add_self2 mod_less)
qed

text \<open>No array is larger than \<open>PTRDIFF_MAX\<close>: \<open>new[]\<close> refuses the size.\<close>

definition alloc_max :: nat where
  "alloc_max = 2 ^ 63"

lemma alloc_max_less: "a < alloc_max \<Longrightarrow> a < size_max"
  by (simp add: alloc_max_def size_max_def)

lemma alloc_max_add: "a \<le> alloc_max \<Longrightarrow> b < alloc_max \<Longrightarrow> a + b < size_max"
  by (simp add: alloc_max_def size_max_def)

lemma size_max_pos [simp]: "0 < size_max"
  by (simp add: size_max_def)

lemma sz_add_less [simp]: "sz_add a b < size_max"
  by (simp add: sz_add_def)

lemma sz_sub_less [simp]: "sz_sub a b < size_max"
  by (simp add: sz_sub_def)

section \<open>Arrays\<close>

text \<open>\<open>slice_of off n xs\<close> reads \<open>n\<close> elements from \<open>off\<close>; out of bounds it has no result.\<close>

definition slice_of :: "nat \<Rightarrow> nat \<Rightarrow> 'a list \<Rightarrow> 'a list option" where
  "slice_of off n xs = (if off + n \<le> length xs then Some (take n (drop off xs)) else None)"

text \<open>\<open>overwrite off ys xs\<close> is \<open>std::copy(ys.begin(), ys.end(), xs + off)\<close>.\<close>

definition overwrite :: "nat \<Rightarrow> 'a list \<Rightarrow> 'a list \<Rightarrow> 'a list option" where
  "overwrite off ys xs =
     (if off + length ys \<le> length xs
      then Some (take off xs @ ys @ drop (off + length ys) xs) else None)"

lemma slice_of_Some: "slice_of off n xs = Some ys \<longleftrightarrow> off + n \<le> length xs \<and> ys = take n (drop off xs)"
  by (auto simp: slice_of_def)

lemma slice_of_ok [simp]: "off + n \<le> length xs \<Longrightarrow> slice_of off n xs = Some (take n (drop off xs))"
  by (simp add: slice_of_def)

lemma length_slice_of: "slice_of off n xs = Some ys \<Longrightarrow> length ys = n"
  by (auto simp: slice_of_Some)

lemma overwrite_ok [simp]:
  "off + length ys \<le> length xs \<Longrightarrow>
   overwrite off ys xs = Some (take off xs @ ys @ drop (off + length ys) xs)"
  by (simp add: overwrite_def)

lemma length_overwrite: "overwrite off ys xs = Some zs \<Longrightarrow> length zs = length xs"
  by (auto simp: overwrite_def split: if_splits)

lemma take_overwrite:
  "overwrite off ys xs = Some zs \<Longrightarrow> take (off + length ys) zs = take off xs @ ys"
  by (auto simp: overwrite_def split: if_splits)

text \<open>\<open>std::fill(xs + from, xs + till, v)\<close>; a reversed or overlong range is undefined.\<close>

definition fill_range :: "nat \<Rightarrow> nat \<Rightarrow> 'a \<Rightarrow> 'a list \<Rightarrow> 'a list option" where
  "fill_range from till v xs =
     (if from \<le> till \<and> till \<le> length xs
      then Some (take from xs @ replicate (till - from) v @ drop till xs) else None)"

lemma fill_range_nth:
  assumes "fill_range from till v xs = Some ys" and "i < length xs"
  shows "ys ! i = (if from \<le> i \<and> i < till then v else xs ! i)"
  using assms by (auto simp: fill_range_def nth_append split: if_splits)

lemma fill_range_length: "fill_range from till v xs = Some ys \<Longrightarrow> length ys = length xs"
  by (auto simp: fill_range_def split: if_splits)

text \<open>Writing through an index, as \<open>a[i] = v\<close> on a raw array.\<close>

definition store_at :: "nat \<Rightarrow> 'a \<Rightarrow> 'a list \<Rightarrow> 'a list option" where
  "store_at i v xs = (if i < length xs then Some (xs[i := v]) else None)"

definition load_at :: "nat \<Rightarrow> 'a list \<Rightarrow> 'a option" where
  "load_at i xs = (if i < length xs then Some (xs ! i) else None)"

lemma load_at_Some [simp]: "load_at i xs = Some v \<longleftrightarrow> i < length xs \<and> v = xs ! i"
  by (auto simp: load_at_def)

section \<open>Option results\<close>

lemma bind_SomeI:
  "m = Some a \<Longrightarrow> f a = Some b \<Longrightarrow> Option.bind m f = Some b"
  by simp

lemma bind_SomeE:
  assumes "Option.bind m f = Some b"
  obtains a where "m = Some a" and "f a = Some b"
  using assms by (cases m) auto

section \<open>Words\<close>

lemma unat_bound: "unat (w :: 'a::len word) < 2 ^ LENGTH('a)"
  by (rule unsigned_less)

lemma unat_bounds:
  "unat (b :: u8) < 256" "unat (h :: u16) < 65536" "unat (i :: u32) < 4294967296"
  "unat (l :: u64) < 18446744073709551616"
  using unat_bound [of b] unat_bound [of h] unat_bound [of i] unat_bound [of l] by simp_all

lemma unat_less_pow_iff_mask:
  fixes x :: "'a::len word"
  assumes "k \<le> LENGTH('a)"
  shows "x AND push_bit k (- 1) = 0 \<longleftrightarrow> unat x < 2 ^ k"
proof -
  have "x AND push_bit k (- 1) = 0 \<longleftrightarrow> take_bit k x = x"
    by (auto simp: bit_eq_iff bit_simps)
  also have "\<dots> \<longleftrightarrow> take_bit k (unat x) = unat x"
    by (metis unsigned_take_bit_eq word_unat_eq_iff)
  also have "\<dots> \<longleftrightarrow> unat x < 2 ^ k"
    by (simp add: take_bit_nat_eq_self_iff)
  finally show ?thesis .
qed

lemma unat_or_push_bit:
  fixes acc b :: "'a::len word"
  assumes "unat acc < 2 ^ k" and "unat b * 2 ^ k < 2 ^ LENGTH('a)"
  shows "unat (acc OR push_bit k b) = unat acc + unat b * 2 ^ k"
proof -
  have pb: "unat (push_bit k b) = push_bit k (unat b)"
    using assms(2)
    unfolding unsigned_push_bit_eq
    by (subst take_bit_nat_eq_self) (simp_all add: push_bit_eq_mult)
  have "unat (acc OR push_bit k b) = unat acc OR push_bit k (unat b)"
    by (simp add: unsigned_or_eq pb)
  also have "\<dots> = unat acc + push_bit k (unat b)"
  proof -
    have "take_bit k (unat acc) = unat acc"
      using assms(1) by (rule take_bit_nat_eq_self)
    moreover have "take_bit k (unat acc) AND push_bit k (unat b) = 0"
      by (rule bit_eqI) (auto simp: bit_simps)
    ultimately show ?thesis by (simp add: disjunctive_add_eq_or)
  qed
  finally show ?thesis by (simp add: push_bit_eq_mult)
qed

end
