(* ===== verification/Ship_Ordinals.thy ===== *)
theory Ship_Ordinals
  imports Ship_Prelude
begin

text \<open>
  Ordinals: \<open>OrdinalRegistry\<close> (\<open>utils/ordinal/OrdinalRegistry.cpp\<close>), the mutex-protected counter that
  numbers errorable types, packets, handlers and pipes, with the interleavings of threads that
  register at once; and \<open>OrdinalVector::ResizeVectorAndSet\<close> (\<open>utils/ordinal/OrdinalVector.hpp\<close>),
  the growing table every registry stores into.  The locale \<open>ordinal_table\<close> is what
  the registries rely on: a stored value is found again and the other entries stay.
\<close>

section \<open>OrdinalRegistry\<close>

record ordinal_registry =
  reg_counter :: u32

definition new_ordinal_registry :: ordinal_registry where
  "new_ordinal_registry = \<lparr>reg_counter = 0\<rparr>"

definition RegisterOrdinal :: "ordinal_registry \<Rightarrow> u32 \<times> ordinal_registry" where
  "RegisterOrdinal r =
     (let ordinal = reg_counter r in (ordinal, r\<lparr>reg_counter := reg_counter r + 1\<rparr>))"

definition GetLastOrdinal :: "ordinal_registry \<Rightarrow> u32" where
  "GetLastOrdinal r = reg_counter r"

text \<open>The static initialisers of \<open>TYPE_ORDINAL\<close> constants: one registration per class, in some order.\<close>

fun register_all :: "'c list \<Rightarrow> ordinal_registry \<Rightarrow> ('c \<times> u32) list \<times> ordinal_registry" where
  "register_all [] r = ([], r)"
| "register_all (c # cs) r =
     (let (o1, r1) = RegisterOrdinal r; (os, r2) = register_all cs r1 in ((c, o1) # os, r2))"

lemma register_all_spec:
  "register_all cs r =
     (map (\<lambda>i. (cs ! i, reg_counter r + of_nat i)) [0..<length cs],
      \<lparr>reg_counter = reg_counter r + of_nat (length cs), \<dots> = ordinal_registry.more r\<rparr>)"
proof (induction cs arbitrary: r)
  case Nil
  then show ?case by simp
next
  case (Cons c cs)
  show ?case
    by (simp add: RegisterOrdinal_def Let_def Cons.IH algebra_simps upt_conv_Cons
        map_Suc_upt [symmetric] del: upt_Suc)
qed

lemma map_snd_register_all:
  "map snd (fst (register_all cs r)) = map (\<lambda>i. reg_counter r + of_nat i) [0..<length cs]"
  by (simp add: register_all_spec)

lemma map_fst_register_all: "map fst (fst (register_all cs r)) = cs"
  by (simp add: register_all_spec comp_def map_nth)

lemma of_nat_u32_inject:
  "i < 2 ^ 32 \<Longrightarrow> j < 2 ^ 32 \<Longrightarrow> (of_nat i :: u32) = of_nat j \<longleftrightarrow> i = j"
  by (simp add: word_of_nat_eq_iff take_bit_nat_eq_self)

lemma distinct_offsets:
  assumes "n \<le> 2 ^ 32"
  shows "distinct (map (\<lambda>i. (a :: u32) + of_nat i) [0..<n])"
proof -
  have "inj_on (\<lambda>i. a + of_nat i) {0..<n}"
    using assms by (intro inj_onI) (metis add_left_cancel atLeastLessThan_iff
        of_nat_u32_inject order_less_le_trans)
  then show ?thesis by (simp add: distinct_map)
qed

lemma distinct_register_all:
  "length cs \<le> 2 ^ 32 \<Longrightarrow> distinct (map snd (fst (register_all cs r)))"
  by (simp only: map_snd_register_all distinct_offsets)

section \<open>Registration by several threads\<close>

text \<open>
  \<open>RegisterOrdinal\<close> runs under \<open>mtx\<close>.  Its instructions, one per step: lock, load
  \<open>counter\<close>, store the incremented value, unlock, return.  Any thread that can move may move.
\<close>

datatype reg_pc = Start | Locked | Loaded u32 | Stored u32 | Returned u32

record reg_system =
  pcs :: "nat \<Rightarrow> reg_pc"
  mtx :: "nat option"
  counter :: u32

definition reg_init :: reg_system where
  "reg_init = \<lparr>pcs = (\<lambda>_. Start), mtx = None, counter = 0\<rparr>"

inductive reg_step :: "nat \<Rightarrow> reg_system \<Rightarrow> reg_system \<Rightarrow> bool" for n where
  lock: "t < n \<Longrightarrow> pcs s t = Start \<Longrightarrow> mtx s = None \<Longrightarrow>
    reg_step n s (s\<lparr>pcs := (pcs s)(t := Locked), mtx := Some t\<rparr>)"
| load: "pcs s t = Locked \<Longrightarrow>
    reg_step n s (s\<lparr>pcs := (pcs s)(t := Loaded (counter s))\<rparr>)"
| store: "pcs s t = Loaded v \<Longrightarrow>
    reg_step n s (s\<lparr>pcs := (pcs s)(t := Stored v), counter := v + 1\<rparr>)"
| unlock: "pcs s t = Stored v \<Longrightarrow>
    reg_step n s (s\<lparr>pcs := (pcs s)(t := Returned v), mtx := None\<rparr>)"

inductive reg_reachable :: "nat \<Rightarrow> reg_system \<Rightarrow> bool" for n where
  init: "reg_reachable n reg_init"
| step: "reg_reachable n s \<Longrightarrow> reg_step n s s' \<Longrightarrow> reg_reachable n s'"

inductive_cases reg_stepE: "reg_step n s s'"

fun taken :: "reg_pc \<Rightarrow> u32 option" where
  "taken (Stored v) = Some v"
| "taken (Returned v) = Some v"
| "taken _ = None"

fun holds_lock :: "reg_pc \<Rightarrow> bool" where
  "holds_lock Locked = True"
| "holds_lock (Loaded _) = True"
| "holds_lock (Stored _) = True"
| "holds_lock _ = False"

definition takers :: "reg_system \<Rightarrow> nat set" where
  "takers s = {t. taken (pcs s t) \<noteq> None}"

definition reg_inv :: "nat \<Rightarrow> reg_system \<Rightarrow> bool" where
  "reg_inv n s \<longleftrightarrow>
     (\<forall>t. pcs s t \<noteq> Start \<longrightarrow> t < n) \<and>
     (\<forall>t. holds_lock (pcs s t) \<longleftrightarrow> mtx s = Some t) \<and>
     (\<forall>t v. pcs s t = Loaded v \<longrightarrow> v = counter s) \<and>
     counter s = of_nat (card (takers s)) \<and>
     (\<forall>t v. taken (pcs s t) = Some v \<longrightarrow> unat v < card (takers s)) \<and>
     (\<forall>t t' v. taken (pcs s t) = Some v \<longrightarrow> taken (pcs s t') = Some v \<longrightarrow> t = t')"

lemma takers_bound:
  assumes "\<forall>t. pcs s t \<noteq> Start \<longrightarrow> t < n"
  shows "takers s \<subseteq> {..<n}"
proof
  fix t assume "t \<in> takers s"
  then have "pcs s t \<noteq> Start" by (auto simp: takers_def)
  with assms show "t \<in> {..<n}" by simp
qed

lemma takers_same:
  "taken pc = taken (pcs s t) \<Longrightarrow> pcs s' = (pcs s)(t := pc) \<Longrightarrow> takers s' = takers s"
  by (auto simp: takers_def)

lemma takers_store:
  "pcs s t = Loaded v \<Longrightarrow> pcs s' = (pcs s)(t := Stored v) \<Longrightarrow> takers s' = insert t (takers s)"
  by (auto simp: takers_def)

lemma reg_inv_init: "reg_inv n reg_init"
  by (simp add: reg_inv_def reg_init_def takers_def)

lemma reg_inv_lock:
  assumes "reg_inv n s" and "t < n" and "pcs s t = Start" and "mtx s = None"
  shows "reg_inv n (s\<lparr>pcs := (pcs s)(t := Locked), mtx := Some t\<rparr>)"
proof -
  have "takers (s\<lparr>pcs := (pcs s)(t := Locked), mtx := Some t\<rparr>) = takers s"
    using assms(3) by (intro takers_same [of Locked]) auto
  then show ?thesis using assms by (auto simp: reg_inv_def)
qed

lemma reg_inv_load:
  assumes "reg_inv n s" and "pcs s t = Locked"
  shows "reg_inv n (s\<lparr>pcs := (pcs s)(t := Loaded (counter s))\<rparr>)"
proof -
  have "takers (s\<lparr>pcs := (pcs s)(t := Loaded (counter s))\<rparr>) = takers s"
    using assms(2) by (intro takers_same [of "Loaded (counter s)"]) auto
  moreover have "holds_lock (pcs s t)" and "pcs s t \<noteq> Start" using assms(2) by simp_all
  ultimately show ?thesis using assms by (auto simp: reg_inv_def)
qed

lemma reg_inv_unlock:
  assumes "reg_inv n s" and "pcs s t = Stored v"
  shows "reg_inv n (s\<lparr>pcs := (pcs s)(t := Returned v), mtx := None\<rparr>)"
proof -
  have "takers (s\<lparr>pcs := (pcs s)(t := Returned v), mtx := None\<rparr>) = takers s"
    using assms(2) by (intro takers_same [of "Returned v"]) auto
  moreover have "mtx s = Some t" and "t < n" and tv: "taken (pcs s t) = Some v"
    using assms by (auto simp: reg_inv_def)
  moreover have "unat v < card (takers s)"
    using assms(1) tv by (auto simp: reg_inv_def)
  ultimately show ?thesis using assms by (auto simp: reg_inv_def)
qed

lemma reg_inv_store:
  assumes inv: "reg_inv n s" and pc: "pcs s t = Loaded v" and n: "n \<le> 2 ^ 32"
  shows "reg_inv n (s\<lparr>pcs := (pcs s)(t := Stored v), counter := v + 1\<rparr>)" (is "reg_inv n ?s'")
proof -
  have tk: "takers ?s' = insert t (takers s)"
    using pc by (intro takers_store) auto
  have new: "t \<notin> takers s" using pc by (simp add: takers_def)
  have sub: "takers s \<subseteq> {..<n}"
    using inv by (intro takers_bound) (simp add: reg_inv_def)
  then have fin: "finite (takers s)" by (rule finite_subset) simp
  have tn: "t < n" using inv pc by (auto simp: reg_inv_def)
  have "card (insert t (takers s)) \<le> card {..<n}"
    using sub tn by (intro card_mono) auto
  then have lt: "card (takers s) < n" using fin new by simp
  have card': "card (takers ?s') = Suc (card (takers s))" using tk fin new by simp
  have v: "v = counter s" and c: "counter s = of_nat (card (takers s))"
    using inv pc by (auto simp: reg_inv_def)
  have uv: "unat v = card (takers s)"
    using lt n by (simp add: v c unat_of_nat take_bit_nat_eq_self)
  have held: "mtx s = Some t" and only: "\<And>t'. holds_lock (pcs s t') \<longleftrightarrow> mtx s = Some t'"
    using inv pc by (auto simp: reg_inv_def)
  have old: "\<And>t' w. taken (pcs s t') = Some w \<Longrightarrow> unat w < card (takers s)"
    using inv by (simp add: reg_inv_def)
  then have fresh: "\<And>t'. taken (pcs s t') \<noteq> Some v"
    using uv by (metis less_irrefl)
  have "\<And>t' w. pcs s t' = Loaded w \<Longrightarrow> t' = t"
    using only held by (metis holds_lock.simps(2) option.inject)
  moreover have "v + 1 = of_nat (card (takers ?s'))"
    using card' by (simp add: v c)
  ultimately show ?thesis
    using inv tn held uv old fresh
    unfolding reg_inv_def card'
    by (intro conjI) (auto simp: less_Suc_eq)
qed

lemma reg_step_inv:
  "reg_step n s s' \<Longrightarrow> reg_inv n s \<Longrightarrow> n \<le> 2 ^ 32 \<Longrightarrow> reg_inv n s'"
  by (erule reg_stepE) (auto intro: reg_inv_lock reg_inv_load reg_inv_store reg_inv_unlock)

lemma reg_reachable_inv: "reg_reachable n s \<Longrightarrow> n \<le> 2 ^ 32 \<Longrightarrow> reg_inv n s"
  by (induction rule: reg_reachable.induct) (auto intro: reg_inv_init reg_step_inv)

text \<open>One thread registering undisturbed.\<close>

lemma reg_run_one:
  assumes "reg_reachable n s" and "t < n" and "pcs s t = Start" and "mtx s = None"
  shows "reg_reachable n (s\<lparr>pcs := (pcs s)(t := Returned (counter s)), mtx := None, counter := counter s + 1\<rparr>)"
proof -
  let ?s1 = "s\<lparr>pcs := (pcs s)(t := Locked), mtx := Some t\<rparr>"
  let ?s2 = "?s1\<lparr>pcs := (pcs ?s1)(t := Loaded (counter ?s1))\<rparr>"
  let ?s3 = "?s2\<lparr>pcs := (pcs ?s2)(t := Stored (counter s)), counter := counter s + 1\<rparr>"
  let ?s4 = "?s3\<lparr>pcs := (pcs ?s3)(t := Returned (counter s)), mtx := None\<rparr>"
  have "reg_reachable n ?s1" using assms by (intro reg_reachable.step [OF assms(1)] lock)
  then have "reg_reachable n ?s2" by (rule reg_reachable.step) (rule load, simp)
  then have "reg_reachable n ?s3" by (rule reg_reachable.step) (rule store, simp)
  then have "reg_reachable n ?s4" by (rule reg_reachable.step) (rule unlock, simp)
  then show ?thesis by (cases s) simp
qed

text \<open>C21.  Ordinals handed out by one \<open>OrdinalRegistry\<close> are distinct, however the threads that register are
  interleaved, as long as there are at most \<open>2\<^sup>3\<^sup>2\<close> registrations.\<close>

theorem concurrent_ordinals_distinct:
  assumes "reg_reachable n s" and "n \<le> 2 ^ 32" and "t \<noteq> t'"
    and "pcs s t = Returned v" and "pcs s t' = Returned v'"
  shows "v \<noteq> v'"
proof
  assume "v = v'"
  then have "taken (pcs s t) = Some v" "taken (pcs s t') = Some v" using assms(4,5) by simp_all
  then show False using reg_reachable_inv [OF assms(1,2)] assms(3) unfolding reg_inv_def by blast
qed

theorem concurrent_ordinals_distinct_witness:
  "\<exists>s v v'. reg_reachable 2 s \<and> pcs s 0 = Returned v \<and> pcs s 1 = Returned v' \<and> v \<noteq> v'"
proof -
  let ?s1 = "reg_init\<lparr>pcs := (pcs reg_init)(0 := Returned (counter reg_init)), mtx := None,
    counter := counter reg_init + 1\<rparr>"
  let ?s2 = "?s1\<lparr>pcs := (pcs ?s1)(1 := Returned (counter ?s1)), mtx := None, counter := counter ?s1 + 1\<rparr>"
  have "reg_reachable 2 ?s1"
    by (rule reg_run_one [OF reg_reachable.init]) (simp_all add: reg_init_def)
  then have r: "reg_reachable 2 ?s2" by (rule reg_run_one) (simp_all add: reg_init_def)
  have "counter reg_init \<noteq> counter ?s1"
    by (rule concurrent_ordinals_distinct [OF r, of 0 1]) (simp_all add: reg_init_def)
  then show ?thesis using r by (intro exI [of _ ?s2] exI [of _ "counter reg_init"] exI [of _ "counter ?s1"]) simp
qed

section \<open>OrdinalVector\<close>

text \<open>
  \<open>vector.resize(n)\<close> truncates or appends value-initialised elements; \<open>dflt\<close> is the
  element type's \<open>T {}\<close>.  \<open>at + 8\<close> is computed in \<open>uint32_t\<close>.  \<open>vector.at\<close> throws
  \<open>std::out_of_range\<close> beyond the end.
\<close>

definition resize_vector :: "'a \<Rightarrow> nat \<Rightarrow> 'a list \<Rightarrow> 'a list" where
  "resize_vector dflt n xs = take n xs @ replicate (n - length xs) dflt"

definition ResizeVectorAndSet :: "'a \<Rightarrow> 'a list \<Rightarrow> u32 \<Rightarrow> 'a \<Rightarrow> 'a list option" where
  "ResizeVectorAndSet dflt vector at v =
     (let vector' = (if unat at \<ge> length vector
                     then resize_vector dflt (unat (at + 8)) vector else vector)
      in store_at (unat at) v vector')"

lemma length_resize_vector [simp]: "length (resize_vector d n xs) = n"
  by (simp add: resize_vector_def)

lemma nth_resize_vector:
  "i < n \<Longrightarrow> resize_vector d n xs ! i = (if i < length xs then xs ! i else d)"
  by (auto simp: resize_vector_def nth_append)

lemma unat_plus_8:
  "unat (at + 8 :: u32) = (if unat at < 2 ^ 32 - 8 then unat at + 8 else unat at + 8 - 2 ^ 32)"
proof -
  have "unat at < 2 ^ 32" using unsigned_less [of at] by simp
  then show ?thesis by (simp add: unat_word_ariths mod_if)
qed

lemma ResizeVectorAndSet_Some:
  assumes "ResizeVectorAndSet d xs at v = Some ys"
  shows "unat at < length ys" and "ys ! unat at = v" and "length xs \<le> length ys"
    and "j \<noteq> unat at \<Longrightarrow> j < length ys \<Longrightarrow> ys ! j = (if j < length xs then xs ! j else d)"
  using assms unsigned_less [of at]
  by (auto simp: ResizeVectorAndSet_def store_at_def Let_def unat_plus_8 nth_resize_vector
      split: if_splits)

lemma ResizeVectorAndSet_total:
  "unat at < 2 ^ 32 - 8 \<Longrightarrow> \<exists>ys. ResizeVectorAndSet d xs at v = Some ys"
  by (auto simp: ResizeVectorAndSet_def store_at_def Let_def unat_plus_8)

lemma ResizeVectorAndSet_throws_iff:
  "ResizeVectorAndSet d xs at v = None \<longleftrightarrow> 2 ^ 32 - 8 \<le> unat at \<and> length xs \<le> unat at"
  using unsigned_less [of at]
  by (auto simp: ResizeVectorAndSet_def store_at_def Let_def unat_plus_8)

text \<open>\<open>ResizeVectorAndSet\<close> stores the value at the ordinal and keeps every other element, with default values in
  between; it throws exactly when the vector is too short and \<open>at + 8\<close> wraps around.\<close>

lemma resize_and_set_spec:
  "case ResizeVectorAndSet d xs at v of
     None \<Rightarrow> 2 ^ 32 - 8 \<le> unat at \<and> length xs \<le> unat at
   | Some ys \<Rightarrow> unat at < length ys \<and> ys ! unat at = v \<and> length xs \<le> length ys \<and>
       (\<forall>j < length ys. j \<noteq> unat at \<longrightarrow> ys ! j = (if j < length xs then xs ! j else d))"
  using ResizeVectorAndSet_throws_iff [of d xs at v] ResizeVectorAndSet_Some [of d xs at v]
  by (auto split: option.split)

lemma resize_and_set_spec_witness:
  "case ResizeVectorAndSet (0 :: nat) [7, 8] 3 9 of
     None \<Rightarrow> False | Some ys \<Rightarrow> ys ! 3 = 9 \<and> ys ! 0 = 7 \<and> ys ! 2 = 0"
proof -
  have "\<exists>ys. ResizeVectorAndSet (0 :: nat) [7, 8] 3 9 = Some ys"
    by (rule ResizeVectorAndSet_total) simp
  then obtain ys where ys: "ResizeVectorAndSet (0 :: nat) [7, 8] 3 9 = Some ys" by blast
  have "unat (3 :: u32) = 3" by simp
  then show ?thesis
    using resize_and_set_spec [where d = "0 :: nat" and xs = "[7, 8]" and at = 3 and v = 9]
    unfolding ys by fastforce
qed

section \<open>What the registries rely on\<close>

text \<open>A run of stores, in order, as the loops that fill a table do.\<close>

fun store_all :: "(u32 \<Rightarrow> 'v \<Rightarrow> 's \<Rightarrow> 's option) \<Rightarrow> (u32 \<times> 'v) list \<Rightarrow> 's \<Rightarrow> 's option" where
  "store_all set_at [] s = Some s"
| "store_all set_at ((i, v) # rest) s = do { s1 \<leftarrow> set_at i v s; store_all set_at rest s1 }"

locale ordinal_table =
  fixes set_at :: "u32 \<Rightarrow> 'v \<Rightarrow> 's \<Rightarrow> 's option"
    and get_at :: "'s \<Rightarrow> u32 \<Rightarrow> 'v option"
  assumes set_hit: "set_at i v s = Some s' \<Longrightarrow> get_at s' i = Some v"
    and set_keep: "set_at i v s = Some s' \<Longrightarrow> get_at s j = Some w \<Longrightarrow> j \<noteq> i \<Longrightarrow> get_at s' j = Some w"
    and set_total: "unat i < 2 ^ 32 - 8 \<Longrightarrow> \<exists>s'. set_at i v s = Some s'"
begin

lemma store_all_keep:
  "store_all set_at kvs s = Some s' \<Longrightarrow> get_at s j = Some w \<Longrightarrow> j \<notin> fst ` set kvs \<Longrightarrow> get_at s' j = Some w"
proof (induction kvs arbitrary: s)
  case Nil
  then show ?case by simp
next
  case (Cons kv rest)
  obtain i v where kv: "kv = (i, v)" by (cases kv)
  with Cons.prems obtain s1 where s1: "set_at i v s = Some s1"
    and rest: "store_all set_at rest s1 = Some s'"
    by (auto elim: bind_SomeE)
  from Cons.prems kv have "get_at s1 j = Some w" by (intro set_keep [OF s1]) auto
  with Cons.IH [of s1] rest Cons.prems(3) kv show ?case by simp
qed

lemma store_all_hit:
  "store_all set_at kvs s = Some s' \<Longrightarrow> distinct (map fst kvs) \<Longrightarrow> (k, v) \<in> set kvs \<Longrightarrow> get_at s' k = Some v"
proof (induction kvs arbitrary: s)
  case Nil
  then show ?case by simp
next
  case (Cons kv rest)
  obtain i w where kv: "kv = (i, w)" by (cases kv)
  with Cons.prems obtain s1 where s1: "set_at i w s = Some s1"
    and rest: "store_all set_at rest s1 = Some s'"
    by (auto elim: bind_SomeE)
  show ?case
  proof (cases "(k, v) \<in> set rest")
    case True
    with Cons.IH [of s1] rest Cons.prems(2) kv show ?thesis by simp
  next
    case False
    with Cons.prems(3) kv have "k = i" and "v = w" by auto
    with Cons.prems(2) kv have "k \<notin> fst ` set rest" by simp
    moreover have "get_at s1 k = Some v"
      using set_hit [OF s1] \<open>k = i\<close> \<open>v = w\<close> by simp
    ultimately show ?thesis by (intro store_all_keep [OF rest])
  qed
qed

lemma store_all_total:
  "(\<And>k v. (k, v) \<in> set kvs \<Longrightarrow> unat k < 2 ^ 32 - 8) \<Longrightarrow> \<exists>s'. store_all set_at kvs s = Some s'"
proof (induction kvs arbitrary: s)
  case Nil
  then show ?case by simp
next
  case (Cons kv rest)
  obtain i w where kv: "kv = (i, w)" by (cases kv)
  with Cons.prems [of i w] obtain s1 where s1: "set_at i w s = Some s1"
    using set_total [of i w s] by auto
  with Cons.IH [of s1] Cons.prems kv show ?case by auto
qed

end

interpretation ordinal_vector: ordinal_table
  "\<lambda>i v xs. ResizeVectorAndSet d xs i v" "\<lambda>xs i. load_at (unat i) xs" for d :: 'v
proof (unfold_locales, goal_cases)
  case (1 i v s s')
  then show ?case by (simp add: ResizeVectorAndSet_Some)
next
  case (2 i v s s' j w)
  then have "unat j \<noteq> unat i" by (simp add: word_unat_eq_iff)
  with 2 ResizeVectorAndSet_Some(3,4) [OF 2(1)] show ?case by (auto simp: load_at_def split: if_splits)
next
  case (3 i v s)
  then show ?case by (rule ResizeVectorAndSet_total)
qed

end
