(* ===== verification/Ship_Errorables.thy ===== *)
theory Ship_Errorables
  imports Ship_Ordinals
begin

text \<open>
  \<open>Errorable<T>\<close> (\<open>utils/exception/Errorable.hpp\<close>): the result type of every fallible
  operation.  An errorable always carries a value, on error the value-initialised \<open>T {}\<close>,
  which callers do read.  The class of an errorable is its \<open>TYPE_ORDINAL\<close>, handed out by
  \<open>ErrorableTypeRegistry\<close> when the program starts; here it is the tag \<open>error_class\<close>, and
  \<open>type_ordinals_decide_class\<close> shows that comparing ordinals is comparing tags, in whatever order the
  static initialisers run.
\<close>

datatype error_class =
    Success_T
  | Errno_T
  | GracefulDisconnect_T
  | InvalidUUID_T
  | InvalidUUIDSize_T
  | InvalidVarInt_T
  | IncompleteVarInt_T
  | InvalidVarLong_T
  | IncompleteVarLong_T
  | IncompleteBoolean_T
  | IncompleteByte_T
  | IncompleteShort_T
  | IncompleteMedium_T
  | IncompleteInt_T
  | IncompleteLong_T
  | IncompleteFloat_T
  | IncompleteDouble_T
  | IncompleteByteArray_T
  | InvalidStringSize_T
  | InvalidByteArraySize_T
  | IncompleteAngle_T
  | InvalidReadSkipRequest_T
  | InvalidSerializableWrite_T
  | IncompleteByteFrame_T
  | InvalidByteFrame_T
  | IncompleteFrame_T
  | InvalidFrame_T
  | InvalidPacketSize_T
  | CanNotReadPacket_T
  | InvalidPacket_T
  | InvalidPacketByOrdinal_T
  | InvalidPacketById_T
  | InvalidEnumById_T
  | NoConstructorExist_T
  | NoConstructorOrdinalExist_T
  | InvalidConstructor_T

record 'a errorable =
  typeOrdinal :: error_class
  errValue :: 'a
  errorCode :: u64

definition SuccessErrorable :: "'a \<Rightarrow> 'a errorable" where
  "SuccessErrorable v = \<lparr>typeOrdinal = Success_T, errValue = v, errorCode = 0\<rparr>"

definition InvalidArgumentErrorable :: "error_class \<Rightarrow> 'a \<Rightarrow> u64 \<Rightarrow> 'a errorable" where
  "InvalidArgumentErrorable cls dflt argument =
     \<lparr>typeOrdinal = cls, errValue = dflt, errorCode = argument\<rparr>"

definition ErrnoErrorable :: "'a \<Rightarrow> u64 \<Rightarrow> 'a errorable" where
  "ErrnoErrorable v errno = \<lparr>typeOrdinal = Errno_T, errValue = v, errorCode = errno\<rparr>"

definition IsSuccess :: "'a errorable \<Rightarrow> bool" where
  "IsSuccess e \<longleftrightarrow> typeOrdinal e = Success_T"

definition GetValue :: "'a errorable \<Rightarrow> 'a" where
  "GetValue e = errValue e"

definition GetTypeOrdinal :: "'a errorable \<Rightarrow> error_class" where
  [simp]: "GetTypeOrdinal e = typeOrdinal e"

definition GetErrorCode :: "'a errorable \<Rightarrow> u64" where
  [simp]: "GetErrorCode e = errorCode e"

lemma errorable_simps [simp, ship_simps]:
  "IsSuccess (SuccessErrorable v)"
  "GetValue (SuccessErrorable v) = v"
  "typeOrdinal (SuccessErrorable v) = Success_T"
  "IsSuccess (InvalidArgumentErrorable c d a) \<longleftrightarrow> c = Success_T"
  "GetValue (InvalidArgumentErrorable c d a) = d"
  "typeOrdinal (InvalidArgumentErrorable c d a) = c"
  "errorCode (InvalidArgumentErrorable c d a) = a"
  "\<not> IsSuccess (ErrnoErrorable v n)"
  "typeOrdinal (ErrnoErrorable v n) = Errno_T"
  "GetValue (ErrnoErrorable v n) = v"
  by (simp_all add: SuccessErrorable_def InvalidArgumentErrorable_def ErrnoErrorable_def
      IsSuccess_def GetValue_def)

lemma SuccessErrorable_inject [simp]: "SuccessErrorable v = SuccessErrorable w \<longleftrightarrow> v = w"
  by (simp add: SuccessErrorable_def)

lemma InvalidArgumentErrorable_not_success [simp]:
  "c \<noteq> Success_T \<Longrightarrow> InvalidArgumentErrorable c d a \<noteq> SuccessErrorable v"
  "c \<noteq> Success_T \<Longrightarrow> SuccessErrorable v \<noteq> InvalidArgumentErrorable c d a"
  by (auto simp: SuccessErrorable_def InvalidArgumentErrorable_def)

text \<open>
  The macro \<open>ProceedErrorable\<close>: return the given error unless the step succeeded.  The step's
  errorable is \<open>e\<close>; the replacement error is built after the step has run, so it may read the
  state the step left.
\<close>

definition ProceedErrorable ::
  "'a errorable \<Rightarrow> 'b errorable \<Rightarrow> ('a \<Rightarrow> ('b errorable \<times> 's) option) \<Rightarrow> 's \<Rightarrow> ('b errorable \<times> 's) option" where
  "ProceedErrorable e exception k s = (if IsSuccess e then k (GetValue e) else Some (exception, s))"

lemma ProceedErrorable_simps [simp, ship_simps]:
  "ProceedErrorable (SuccessErrorable v) x k s = k v"
  "c \<noteq> Success_T \<Longrightarrow> ProceedErrorable (InvalidArgumentErrorable c d a) x k s = Some (x, s)"
  by (simp_all add: ProceedErrorable_def)

text \<open>The number \<open>TYPE_ORDINAL\<close> of a class when the classes are initialised in the given order.\<close>

definition TYPE_ORDINAL :: "error_class list \<Rightarrow> error_class \<Rightarrow> u32 option" where
  "TYPE_ORDINAL order c = map_of (fst (register_all order new_ordinal_registry)) c"

lemma TYPE_ORDINAL_Some:
  assumes "distinct order" and "c \<in> set order"
  obtains n where "TYPE_ORDINAL order c = Some n"
    and "(c, n) \<in> set (fst (register_all order new_ordinal_registry))"
proof -
  have "c \<in> fst ` set (fst (register_all order new_ordinal_registry))"
    using assms(2) map_fst_register_all [of order new_ordinal_registry] by (metis set_map)
  then obtain n where "(c, n) \<in> set (fst (register_all order new_ordinal_registry))" by auto
  moreover from this have "TYPE_ORDINAL order c = Some n"
    using assms(1) map_fst_register_all [of order new_ordinal_registry]
    by (simp add: TYPE_ORDINAL_def)
  ultimately show thesis using that by blast
qed

text \<open>
  Whatever order the static initialisers of the error classes run in, two classes have
  the same \<open>TYPE_ORDINAL\<close> only if they are the same class: \<open>IsSuccess\<close> and the
  comparisons of \<open>GetTypeOrdinal()\<close> with a \<open>TYPE_ORDINAL\<close> decide the class of an errorable.
\<close>

lemma type_ordinals_decide_class:
  assumes "distinct order" and "length order \<le> 2 ^ 32" and "c \<in> set order" and "d \<in> set order"
  shows "(TYPE_ORDINAL order c = TYPE_ORDINAL order d) = (c = d)"
proof
  assume eq: "TYPE_ORDINAL order c = TYPE_ORDINAL order d"
  obtain n where n: "TYPE_ORDINAL order c = Some n"
    "(c, n) \<in> set (fst (register_all order new_ordinal_registry))"
    using assms(1,3) by (rule TYPE_ORDINAL_Some)
  obtain m where m: "TYPE_ORDINAL order d = Some m"
    "(d, m) \<in> set (fst (register_all order new_ordinal_registry))"
    using assms(1,4) by (rule TYPE_ORDINAL_Some)
  have "inj_on snd (set (fst (register_all order new_ordinal_registry)))"
    using distinct_register_all [OF assms(2)] by (simp add: distinct_map)
  then have "(c, n) = (d, m)" using eq n m by (intro inj_onD [of snd]) auto
  then show "c = d" by simp
qed simp

lemma type_ordinals_decide_class_witness:
  "(TYPE_ORDINAL [Success_T, Errno_T, IncompleteVarInt_T] Errno_T =
    TYPE_ORDINAL [Success_T, Errno_T, IncompleteVarInt_T] IncompleteVarInt_T) = False"
  using type_ordinals_decide_class
    [of "[Success_T, Errno_T, IncompleteVarInt_T]" Errno_T IncompleteVarInt_T]
  by simp

end
