(* ===== verification/Ship_UUID.thy ===== *)
theory Ship_UUID
  imports Ship_Errorables
begin

text \<open>
  \<open>UUID\<close> (\<open>protocol/data/uuid/UUID.cpp\<close>): two 64-bit halves, parsing from text and printing.
  The parts of the C++ library the code calls are written out: element assignment on a
  \<open>std::string\<close> (undefined beyond its size), \<open>strtoull\<close> in base 16 with its saturation,
  \<open>std::to_string\<close> and \<open>std::string::insert\<close>, which throws beyond the end.
\<close>

section \<open>Data\<close>

record UUID =
  mostSignificant :: u64
  leastSignificant :: u64

definition make_UUID :: "u64 \<Rightarrow> u64 \<Rightarrow> UUID" where
  "make_UUID ms ls = \<lparr>mostSignificant = ms, leastSignificant = ls\<rparr>"

text \<open>The value-initialised \<open>UUID {}\<close>.\<close>

definition UUID_default :: UUID where
  "UUID_default = make_UUID 0 0"

definition GetMostSignificant :: "UUID \<Rightarrow> u64" where
  "GetMostSignificant u = mostSignificant u"

definition GetLeastSignificant :: "UUID \<Rightarrow> u64" where
  "GetLeastSignificant u = leastSignificant u"

lemma UUID_simps [simp, ship_simps]:
  "GetMostSignificant (make_UUID m l) = m"
  "GetLeastSignificant (make_UUID m l) = l"
  "make_UUID (GetMostSignificant u) (GetLeastSignificant u) = u"
  "make_UUID m l = make_UUID m' l' \<longleftrightarrow> m = m' \<and> l = l'"
  by (auto simp: make_UUID_def GetMostSignificant_def GetLeastSignificant_def)

section \<open>Parsing\<close>

text \<open>
  \<open>s[i] = c\<close> on a \<open>std::string\<close>: within the size it stores; at the size it may only store
  the terminator; beyond it is undefined.
\<close>

definition string_assign :: "nat \<Rightarrow> char \<Rightarrow> string \<Rightarrow> string option" where
  "string_assign i c s =
     (if i < length s then Some (s[i := c])
      else if i = length s \<and> c = CHR 0x00 then Some s else None)"

text \<open>\<open>for (i ...) tempString[cnt++] = uuid[i]\<close>.\<close>

fun copy_chars :: "nat list \<Rightarrow> string \<Rightarrow> nat \<Rightarrow> string \<Rightarrow> (nat \<times> string) option" where
  "copy_chars [] uuid cnt temp = Some (cnt, temp)"
| "copy_chars (i # is) uuid cnt temp =
     do { c \<leftarrow> load_at i uuid;
          temp1 \<leftarrow> string_assign cnt c temp;
          copy_chars is uuid (cnt + 1) temp1 }"

definition hex_digit :: "char \<Rightarrow> nat option" where
  "hex_digit c =
     (let n = (of_char c :: nat) in
      if 48 \<le> n \<and> n \<le> 57 then Some (n - 48)
      else if 97 \<le> n \<and> n \<le> 102 then Some (n - 87)
      else if 65 \<le> n \<and> n \<le> 70 then Some (n - 55)
      else None)"

fun hex_run :: "nat \<Rightarrow> string \<Rightarrow> nat \<times> string" where
  "hex_run acc [] = (acc, [])"
| "hex_run acc (c # cs) =
     (case hex_digit c of None \<Rightarrow> (acc, c # cs) | Some d \<Rightarrow> hex_run (16 * acc + d) cs)"

definition is_space :: "char \<Rightarrow> bool" where
  "is_space c \<longleftrightarrow> (let n = (of_char c :: nat) in n = 32 \<or> (9 \<le> n \<and> n \<le> 13))"

fun strip_sign :: "string \<Rightarrow> bool \<times> string" where
  "strip_sign (CHR ''-'' # cs) = (True, cs)"
| "strip_sign (CHR ''+'' # cs) = (False, cs)"
| "strip_sign cs = (False, cs)"

fun strip_0x :: "string \<Rightarrow> string" where
  "strip_0x (CHR ''0'' # x # d # cs) =
     (if (x = CHR ''x'' \<or> x = CHR ''X'') \<and> hex_digit d \<noteq> None then d # cs
      else CHR ''0'' # x # d # cs)"
| "strip_0x cs = cs"

text \<open>\<open>strtoull(s, &end, 16)\<close>: the value, and the text from \<open>end\<close> on.\<close>

definition strtoull16 :: "string \<Rightarrow> u64 \<times> string" where
  "strtoull16 s =
     (let (neg, s2) = strip_sign (dropWhile is_space s);
          s3 = strip_0x s2
      in case s3 of
           [] \<Rightarrow> (0, s)
         | c # _ \<Rightarrow>
             (if hex_digit c = None then (0, s)
              else (let (v, end) = hex_run 0 s3
                    in (if v \<ge> 2 ^ 64 then - 1 else if neg then - of_nat v else of_nat v, end))))"

definition parse_32 :: "string \<Rightarrow> UUID errorable" where
  "parse_32 inputUUID =
     (if length inputUUID = 32
      then (let (most, end) = strtoull16 inputUUID; (least, _) = strtoull16 end
            in SuccessErrorable (make_UUID most least))
      else InvalidArgumentErrorable InvalidUUIDSize_T UUID_default (of_nat (length inputUUID)))"

definition Instantiate :: "string \<Rightarrow> UUID errorable option" where
  "Instantiate uuid =
     (if length uuid = 36
      then do { (c1, t1) \<leftarrow> copy_chars [0..<8] uuid 0 [];
                (c2, t2) \<leftarrow> copy_chars [8..<13] uuid c1 t1;
                (c3, t3) \<leftarrow> copy_chars [13..<18] uuid c2 t2;
                (c4, t4) \<leftarrow> copy_chars [18..<23] uuid c3 t3;
                (c5, t5) \<leftarrow> copy_chars [23..<36] uuid c4 t4;
                Some (parse_32 t5) }
      else Some (parse_32 uuid))"

section \<open>Printing\<close>

fun to_decimal :: "nat \<Rightarrow> string" where
  "to_decimal n = (if n < 10 then [char_of (48 + n)] else to_decimal (n div 10) @ [char_of (48 + n mod 10)])"

declare to_decimal.simps [simp del]

definition ToUndashedString :: "UUID \<Rightarrow> string" where
  "ToUndashedString u = to_decimal (unat (mostSignificant u)) @ to_decimal (unat (leastSignificant u))"

text \<open>\<open>s.insert(pos, "-")\<close> throws \<open>std::out_of_range\<close> when \<open>pos > s.size()\<close>.\<close>

definition insert_dash :: "nat \<Rightarrow> string \<Rightarrow> string option" where
  "insert_dash pos s = (if pos \<le> length s then Some (take pos s @ CHR ''-'' # drop pos s) else None)"

definition UUID_ToString :: "UUID \<Rightarrow> string option" where
  "UUID_ToString u =
     do { s1 \<leftarrow> insert_dash 20 (ToUndashedString u);
          s2 \<leftarrow> insert_dash 16 s1;
          s3 \<leftarrow> insert_dash 12 s2;
          insert_dash 8 s3 }"

section \<open>Lemmas\<close>

text \<open>The temporary string stays empty: only a terminator may be stored in it, once.\<close>

lemma copy_chars_empty:
  "2 \<le> length is \<Longrightarrow> copy_chars is uuid 0 [] = None"
proof -
  assume "2 \<le> length is"
  then obtain i j rest where "is = i # j # rest"
    by (metis One_nat_def Suc_1 Suc_le_length_iff)
  then show ?thesis
    by (auto simp: string_assign_def load_at_def)
qed

lemma hex_run_all:
  "\<forall>c \<in> set s. hex_digit c \<noteq> None \<Longrightarrow> \<exists>v. hex_run acc s = (v, [])"
  by (induction s arbitrary: acc) auto

lemma hex_digit_head:
  assumes "hex_digit c \<noteq> None"
  shows "\<not> is_space c" and "c \<noteq> CHR ''-''" and "c \<noteq> CHR ''+''" and "c \<noteq> CHR ''x''" and "c \<noteq> CHR ''X''"
  using assms by (auto simp: hex_digit_def is_space_def Let_def split: if_splits)

lemma hex_digit_other [simp]:
  "hex_digit (CHR ''-'') = None" "hex_digit (CHR ''+'') = None"
  "hex_digit (CHR ''x'') = None" "hex_digit (CHR ''X'') = None"
  by (simp_all add: hex_digit_def)

lemma strip_hex:
  assumes "\<forall>c \<in> set s. hex_digit c \<noteq> None"
  shows "strip_sign (dropWhile is_space s) = (False, s)" and "strip_0x s = s"
proof -
  have "dropWhile is_space s = s"
    using assms hex_digit_head(1) by (cases s) auto
  moreover have "strip_sign s = (False, s)"
    using assms by (cases s rule: strip_sign.cases) (auto dest: hex_digit_head)
  ultimately show "strip_sign (dropWhile is_space s) = (False, s)" by simp
  show "strip_0x s = s"
    using assms by (cases s rule: strip_0x.cases) (auto dest: hex_digit_head)
qed

lemma strtoull16_hex:
  assumes "\<forall>c \<in> set s. hex_digit c \<noteq> None" and "s \<noteq> []"
  shows "strtoull16 s = (if fst (hex_run 0 s) \<ge> 2 ^ 64 then - 1 else of_nat (fst (hex_run 0 s)), [])"
proof -
  obtain c cs where s: "s = c # cs" using assms(2) by (cases s) auto
  obtain v where "hex_run 0 s = (v, [])" using hex_run_all [OF assms(1)] by blast
  then show ?thesis
    using assms(1) strip_hex [OF assms(1)] s
    by (auto simp: strtoull16_def simp del: strip_0x.simps strip_sign.simps hex_run.simps
        dropWhile.simps)
qed

lemma strtoull16_Nil: "strtoull16 [] = (0, [])"
  by (simp add: strtoull16_def)

lemma length_insert_dash: "insert_dash pos s = Some t \<Longrightarrow> length t = length s + 1"
  by (auto simp: insert_dash_def split: if_splits)

section \<open>Properties\<close>

text \<open>
  A UUID in its dashed form (36 characters) is never parsed: the code stores through
  \<open>operator[]\<close> into a string of size 0 (\<open>reserve\<close> changes the capacity only), which is
  undefined behaviour for every 36-character input.
\<close>

lemma instantiate_dashed_undefined:
  assumes "length uuid = 36"
  shows "Instantiate uuid = None"
  using assms by (simp add: Instantiate_def copy_chars_empty)

lemma instantiate_dashed_undefined_witness:
  "Instantiate (replicate 36 (CHR ''a'')) = None"
  by (rule instantiate_dashed_undefined) simp

text \<open>
  An undashed UUID (32 hexadecimal digits) is not split into halves: \<open>strtoull\<close> reads all 32
  digits at once.  If their value needs more than 64 bits it saturates, and
  the second call starts at the end of the text; every such UUID is read as the same value.
\<close>

lemma instantiate_undashed_saturates:
  assumes "length s = 32" and "\<forall>c \<in> set s. hex_digit c \<noteq> None" and "fst (hex_run 0 s) \<ge> 2 ^ 64"
  shows "Instantiate s = Some (SuccessErrorable (make_UUID (- 1) 0))"
proof -
  have "s \<noteq> []" using assms(1) by auto
  then show ?thesis
    using assms by (simp add: Instantiate_def parse_32_def strtoull16_hex strtoull16_Nil)
qed

lemma instantiate_undashed_saturates_witness:
  "Instantiate ''00112233445566778899aabbccddeeff'' = Some (SuccessErrorable (make_UUID (- 1) 0))"
  by (rule instantiate_undashed_saturates) (simp_all add: hex_digit_def)

text \<open>
  \<open>ToString\<close> prints the halves in decimal, so the text can be shorter than the first dash
  position: it throws \<open>std::out_of_range\<close> exactly when the undashed text has fewer than 20
  characters.
\<close>

lemma uuid_to_string_throws_iff:
  "UUID_ToString u = None \<longleftrightarrow> length (ToUndashedString u) < 20"
proof (cases "length (ToUndashedString u) < 20")
  case True
  then show ?thesis by (simp add: UUID_ToString_def insert_dash_def)
next
  case False
  then show ?thesis by (simp add: UUID_ToString_def insert_dash_def)
qed

end
