(* ===== verification/Ship_ByteBuffer.thy ===== *)
theory Ship_ByteBuffer
  imports Ship_UUID
begin

text \<open>
  The abstract class \<open>ByteBuffer\<close> (\<open>protocol/ByteBuffer.cpp\<close>, first part): every \<open>Write\<close> and \<open>Read\<close>
  method that is implemented once, over the virtual methods a buffer class provides.  The
  virtual methods are arguments: \<open>wb\<close> is \<open>WriteByte\<close>, \<open>ws\<close> is \<open>WriteBytes(const uint8_t*, size_t)\<close>,
  \<open>rb\<close> is \<open>ReadByteUnsafe\<close>, \<open>avail\<close> is \<open>GetReadableBytes\<close> and \<open>rs\<close> is
  \<open>ReadBytes(uint8_t*, size_t)\<close>.  The contracts of these virtual methods are the locales of \<open>Ship_Buffer_Laws\<close>,
  and what follows from them for every buffer class is proved there once.

  A \<open>double\<close> and a \<open>float\<close> are carried as their bit patterns, which is all \<open>WriteDouble\<close> and
  \<open>WriteFloat\<close> use.  Operands of \<open>|\<close> are evaluated left to right, as the compiler named in the build
  file does.
\<close>

section \<open>Sizes\<close>

definition BYTE_SIZE :: nat where "BYTE_SIZE = 1"
definition SHORT_SIZE :: nat where "SHORT_SIZE = 2"
definition MEDIUM_SIZE :: nat where "MEDIUM_SIZE = 3"
definition INT_SIZE :: nat where "INT_SIZE = 4"
definition LONG_SIZE :: nat where "LONG_SIZE = 8"
definition FLOAT_SIZE :: nat where "FLOAT_SIZE = INT_SIZE"
definition DOUBLE_SIZE :: nat where "DOUBLE_SIZE = LONG_SIZE"
definition BOOLEAN_SIZE :: nat where "BOOLEAN_SIZE = BYTE_SIZE"
definition ANGLE_SIZE :: nat where "ANGLE_SIZE = BYTE_SIZE"
definition UUID_SIZE :: nat where "UUID_SIZE = LONG_SIZE * 2"

lemmas size_defs = BYTE_SIZE_def SHORT_SIZE_def MEDIUM_SIZE_def INT_SIZE_def LONG_SIZE_def
  FLOAT_SIZE_def DOUBLE_SIZE_def BOOLEAN_SIZE_def ANGLE_SIZE_def UUID_SIZE_def

definition VarIntBytes :: "u32 \<Rightarrow> u32" where
  "VarIntBytes input =
     (if input AND push_bit 7 0xFFFFFFFF = 0 then 1
      else if input AND push_bit 14 0xFFFFFFFF = 0 then 2
      else if input AND push_bit 21 0xFFFFFFFF = 0 then 3
      else if input AND push_bit 28 0xFFFFFFFF = 0 then 4
      else 5)"

definition VarLongBytes :: "u64 \<Rightarrow> u32" where
  "VarLongBytes input =
     (if input AND push_bit 7 0xFFFFFFFFFFFFFFFF = 0 then 1
      else if input AND push_bit 14 0xFFFFFFFFFFFFFFFF = 0 then 2
      else if input AND push_bit 21 0xFFFFFFFFFFFFFFFF = 0 then 3
      else if input AND push_bit 28 0xFFFFFFFFFFFFFFFF = 0 then 4
      else if input AND push_bit 35 0xFFFFFFFFFFFFFFFF = 0 then 5
      else if input AND push_bit 42 0xFFFFFFFFFFFFFFFF = 0 then 6
      else if input AND push_bit 49 0xFFFFFFFFFFFFFFFF = 0 then 7
      else if input AND push_bit 56 0xFFFFFFFFFFFFFFFF = 0 then 8
      else if input AND push_bit 63 0xFFFFFFFFFFFFFFFF = 0 then 9
      else 10)"

text \<open>The sums are computed in \<open>size_t\<close> and returned as \<open>uint32_t\<close>.\<close>

definition StringBytes :: "u8 list \<Rightarrow> u32" where
  "StringBytes string = of_nat (sz_add (unat (VarIntBytes (of_nat (length string)))) (length string))"

definition ArrayBytes :: "u32 \<Rightarrow> u32" where
  "ArrayBytes arrayLength = VarIntBytes arrayLength + arrayLength"

section \<open>Writing\<close>

definition WriteBoolean :: "(u8 \<Rightarrow> 's \<Rightarrow> 's option) \<Rightarrow> bool \<Rightarrow> 's \<Rightarrow> 's option" where
  "WriteBoolean wb input s = wb (if input then 1 else 0) s"

definition WriteShort :: "(u8 \<Rightarrow> 's \<Rightarrow> 's option) \<Rightarrow> u16 \<Rightarrow> 's \<Rightarrow> 's option" where
  "WriteShort wb input s =
     do { s1 \<leftarrow> wb (ucast (drop_bit 8 input)) s; wb (ucast input) s1 }"

definition WriteMedium :: "(u8 \<Rightarrow> 's \<Rightarrow> 's option) \<Rightarrow> u32 \<Rightarrow> 's \<Rightarrow> 's option" where
  "WriteMedium wb input s =
     do { s1 \<leftarrow> wb (ucast (drop_bit 16 input)) s;
          s2 \<leftarrow> wb (ucast (drop_bit 8 input)) s1;
          wb (ucast input) s2 }"

definition WriteInt :: "(u8 \<Rightarrow> 's \<Rightarrow> 's option) \<Rightarrow> u32 \<Rightarrow> 's \<Rightarrow> 's option" where
  "WriteInt wb input s =
     do { s1 \<leftarrow> wb (ucast (drop_bit 24 input)) s;
          s2 \<leftarrow> wb (ucast (drop_bit 16 input)) s1;
          s3 \<leftarrow> wb (ucast (drop_bit 8 input)) s2;
          wb (ucast input) s3 }"

definition WriteLong :: "(u8 \<Rightarrow> 's \<Rightarrow> 's option) \<Rightarrow> u64 \<Rightarrow> 's \<Rightarrow> 's option" where
  "WriteLong wb input s =
     do { s1 \<leftarrow> wb (ucast (drop_bit 56 input)) s;
          s2 \<leftarrow> wb (ucast (drop_bit 48 input)) s1;
          s3 \<leftarrow> wb (ucast (drop_bit 40 input)) s2;
          s4 \<leftarrow> wb (ucast (drop_bit 32 input)) s3;
          s5 \<leftarrow> wb (ucast (drop_bit 24 input)) s4;
          s6 \<leftarrow> wb (ucast (drop_bit 16 input)) s5;
          s7 \<leftarrow> wb (ucast (drop_bit 8 input)) s6;
          wb (ucast input) s7 }"

text \<open>The loops of the variable-length encodings end because the input is shifted right.\<close>

lemma low7_test:
  fixes x :: "'a::len word"
  assumes "7 \<le> LENGTH('a)"
  shows "x AND NOT 0x7F = 0 \<longleftrightarrow> unat x < 128"
proof -
  have "(NOT 0x7F :: 'a word) = push_bit 7 (- 1)"
  proof -
    have "(0x7F :: 'a word) = mask 7" by (simp add: mask_eq_exp_minus_1)
    then show ?thesis by (simp add: bit_eq_iff bit_simps)
  qed
  then show ?thesis using unat_less_pow_iff_mask [OF assms, of x] by simp
qed

lemma unat_drop_7: "unat (drop_bit 7 (x :: 'a::len word)) = unat x div 128"
proof -
  have "unat (drop_bit 7 x) = drop_bit 7 (unat x)" by (simp only: unat_drop_bit_eq)
  then show ?thesis by (simp add: drop_bit_eq_div)
qed

lemma drop_7_less:
  fixes x :: "'a::len word"
  assumes "7 \<le> LENGTH('a)" and "x AND NOT 0x7F \<noteq> 0"
  shows "unat (drop_bit 7 x) < unat x"
proof -
  have "128 \<le> unat x" using assms(2) unfolding low7_test [OF assms(1)] by simp
  then show ?thesis unfolding unat_drop_7 by simp
qed

lemma drop_7_less_u32: "(x :: u32) AND NOT 0x7F \<noteq> 0 \<Longrightarrow> unat (drop_bit 7 x) < unat x"
  by (rule drop_7_less) simp_all

lemma drop_7_less_u64: "(x :: u64) AND NOT 0x7F \<noteq> 0 \<Longrightarrow> unat (drop_bit 7 x) < unat x"
  by (rule drop_7_less) simp_all

function WriteVarInt :: "(u8 \<Rightarrow> 's \<Rightarrow> 's option) \<Rightarrow> u32 \<Rightarrow> 's \<Rightarrow> 's option" where
  "WriteVarInt wb input s =
     (if input AND NOT 0x7F = 0 then wb (ucast input) s
      else do { s1 \<leftarrow> wb (ucast ((input AND 0x7F) OR 0x80)) s;
                WriteVarInt wb (drop_bit 7 input) s1 })"
  by pat_completeness auto
termination
  by (relation "measure (\<lambda>(wb, input, s). unat input)") (rule wf_measure, simp only: in_measure prod.case, rule drop_7_less_u32)

function WriteVarLong :: "(u8 \<Rightarrow> 's \<Rightarrow> 's option) \<Rightarrow> u64 \<Rightarrow> 's \<Rightarrow> 's option" where
  "WriteVarLong wb input s =
     (if input AND NOT 0x7F = 0 then wb (ucast input) s
      else do { s1 \<leftarrow> wb (ucast ((input AND 0x7F) OR 0x80)) s;
                WriteVarLong wb (drop_bit 7 input) s1 })"
  by pat_completeness auto
termination
  by (relation "measure (\<lambda>(wb, input, s). unat input)") (rule wf_measure, simp only: in_measure prod.case, rule drop_7_less_u64)

declare WriteVarInt.simps [simp del] WriteVarLong.simps [simp del]

definition WriteUUID :: "(u8 \<Rightarrow> 's \<Rightarrow> 's option) \<Rightarrow> UUID \<Rightarrow> 's \<Rightarrow> 's option" where
  "WriteUUID wb input s =
     do { s1 \<leftarrow> WriteLong wb (GetMostSignificant input) s;
          WriteLong wb (GetLeastSignificant input) s1 }"

definition WriteUUIDIntArray :: "(u8 \<Rightarrow> 's \<Rightarrow> 's option) \<Rightarrow> UUID \<Rightarrow> 's \<Rightarrow> 's option" where
  "WriteUUIDIntArray wb input s =
     do { s1 \<leftarrow> WriteInt wb (ucast (drop_bit 32 (GetMostSignificant input))) s;
          s2 \<leftarrow> WriteInt wb (ucast (GetMostSignificant input)) s1;
          s3 \<leftarrow> WriteInt wb (ucast (drop_bit 32 (GetLeastSignificant input))) s2;
          WriteInt wb (ucast (GetLeastSignificant input)) s3 }"

definition WriteDouble :: "(u8 \<Rightarrow> 's \<Rightarrow> 's option) \<Rightarrow> u64 \<Rightarrow> 's \<Rightarrow> 's option" where
  "WriteDouble wb bits s = WriteLong wb bits s"

definition WriteFloat :: "(u8 \<Rightarrow> 's \<Rightarrow> 's option) \<Rightarrow> u32 \<Rightarrow> 's \<Rightarrow> 's option" where
  "WriteFloat wb bits s = WriteInt wb bits s"

definition WriteString ::
  "(u8 \<Rightarrow> 's \<Rightarrow> 's option) \<Rightarrow> (u8 list \<Rightarrow> nat \<Rightarrow> 's \<Rightarrow> 's option) \<Rightarrow> u8 list \<Rightarrow> 's \<Rightarrow> 's option" where
  "WriteString wb ws input s =
     do { s1 \<leftarrow> WriteVarInt wb (of_nat (length input)) s;
          ws input (length input) s1 }"

text \<open>
  \<open>WriteByteArray(ByteBuffer* input)\<close> works on two buffers: the state is that of both,
  \<open>inAvail\<close> is \<open>input->GetReadableBytes()\<close> and \<open>wbuf\<close> is \<open>WriteBytes(input, size)\<close>.
\<close>

definition WriteByteArray ::
  "(u8 \<Rightarrow> 's \<Rightarrow> 's option) \<Rightarrow> ('s \<Rightarrow> nat) \<Rightarrow> (nat \<Rightarrow> 's \<Rightarrow> 's option) \<Rightarrow> 's \<Rightarrow> 's option" where
  "WriteByteArray wb inAvail wbuf s =
     do { s1 \<leftarrow> WriteVarInt wb (of_nat (inAvail s)) s;
          wbuf (inAvail s1) s1 }"

section \<open>Reading\<close>

definition ReadBoolean :: "('s \<Rightarrow> (u8 \<times> 's) option) \<Rightarrow> ('s \<Rightarrow> nat) \<Rightarrow> 's \<Rightarrow> (bool errorable \<times> 's) option" where
  "ReadBoolean rb avail s =
     (if avail s < 1
      then Some (InvalidArgumentErrorable IncompleteBoolean_T False (of_nat (avail s)), s)
      else do { (a, s1) \<leftarrow> rb s; Some (SuccessErrorable (a \<noteq> 0), s1) })"

definition ReadByte :: "('s \<Rightarrow> (u8 \<times> 's) option) \<Rightarrow> ('s \<Rightarrow> nat) \<Rightarrow> 's \<Rightarrow> (u8 errorable \<times> 's) option" where
  "ReadByte rb avail s =
     (if avail s < 1
      then Some (InvalidArgumentErrorable IncompleteByte_T 0 (of_nat (avail s)), s)
      else do { (a, s1) \<leftarrow> rb s; Some (SuccessErrorable a, s1) })"

text \<open>A byte is promoted to \<open>int\<close> before it is shifted; the result is converted on return.\<close>

definition ReadShort :: "('s \<Rightarrow> (u8 \<times> 's) option) \<Rightarrow> ('s \<Rightarrow> nat) \<Rightarrow> 's \<Rightarrow> (u16 errorable \<times> 's) option" where
  "ReadShort rb avail s =
     (if avail s < 2
      then Some (InvalidArgumentErrorable IncompleteShort_T 0 (of_nat (avail s)), s)
      else do { (a, s1) \<leftarrow> rb s; (b, s2) \<leftarrow> rb s1;
                Some (SuccessErrorable (ucast (push_bit 8 (ucast a :: u32) OR ucast b)), s2) })"

definition ReadMedium :: "('s \<Rightarrow> (u8 \<times> 's) option) \<Rightarrow> ('s \<Rightarrow> nat) \<Rightarrow> 's \<Rightarrow> (u32 errorable \<times> 's) option" where
  "ReadMedium rb avail s =
     (if avail s < 3
      then Some (InvalidArgumentErrorable IncompleteMedium_T 0 (of_nat (avail s)), s)
      else do { (a, s1) \<leftarrow> rb s; (b, s2) \<leftarrow> rb s1; (c, s3) \<leftarrow> rb s2;
                Some (SuccessErrorable (push_bit 16 (ucast a) OR push_bit 8 (ucast b) OR ucast c), s3) })"

definition ReadInt :: "('s \<Rightarrow> (u8 \<times> 's) option) \<Rightarrow> ('s \<Rightarrow> nat) \<Rightarrow> 's \<Rightarrow> (u32 errorable \<times> 's) option" where
  "ReadInt rb avail s =
     (if avail s < 4
      then Some (InvalidArgumentErrorable IncompleteInt_T 0 (of_nat (avail s)), s)
      else do { (a, s1) \<leftarrow> rb s; (b, s2) \<leftarrow> rb s1; (c, s3) \<leftarrow> rb s2; (d, s4) \<leftarrow> rb s3;
                Some (SuccessErrorable (push_bit 24 (ucast a) OR push_bit 16 (ucast b)
                                        OR push_bit 8 (ucast c) OR ucast d), s4) })"

definition ReadLong :: "('s \<Rightarrow> (u8 \<times> 's) option) \<Rightarrow> ('s \<Rightarrow> nat) \<Rightarrow> 's \<Rightarrow> (u64 errorable \<times> 's) option" where
  "ReadLong rb avail s =
     (if avail s < 8
      then Some (InvalidArgumentErrorable IncompleteLong_T 0 (of_nat (avail s)), s)
      else do { (a, s1) \<leftarrow> rb s; (b, s2) \<leftarrow> rb s1; (c, s3) \<leftarrow> rb s2; (d, s4) \<leftarrow> rb s3;
                (e, s5) \<leftarrow> rb s4; (f, s6) \<leftarrow> rb s5; (g, s7) \<leftarrow> rb s6; (h, s8) \<leftarrow> rb s7;
                Some (SuccessErrorable (push_bit 56 (ucast a) OR push_bit 48 (ucast b)
                                        OR push_bit 40 (ucast c) OR push_bit 32 (ucast d)
                                        OR push_bit 24 (ucast e) OR push_bit 16 (ucast f)
                                        OR push_bit 8 (ucast g) OR ucast h), s8) })"

text \<open>
  The loops over \<open>byteIndex\<close>; the bytes read before the input ran out stay read.  In \<open>ReadVarInt\<close> the
  shift is one of a 32-bit \<open>int\<close>.
\<close>

function ReadVarInt_loop ::
  "('s \<Rightarrow> (u8 \<times> 's) option) \<Rightarrow> ('s \<Rightarrow> nat) \<Rightarrow> nat \<Rightarrow> u32 \<Rightarrow> 's \<Rightarrow> (u32 errorable \<times> 's) option" where
  "ReadVarInt_loop rb avail byteIndex decodedVarInt s =
     (if byteIndex < 5 then
        (if avail s < 1
         then Some (InvalidArgumentErrorable IncompleteVarInt_T 0 (of_nat (avail s)), s)
         else do { (byte, s1) \<leftarrow> rb s;
                   let decodedVarInt1 = decodedVarInt OR push_bit (byteIndex * 7) (ucast (byte AND 0x7F));
                   if byte AND 0x80 = 0
                   then Some (SuccessErrorable decodedVarInt1, s1)
                   else ReadVarInt_loop rb avail (byteIndex + 1) decodedVarInt1 s1 })
      else Some (InvalidArgumentErrorable InvalidVarInt_T 0 (ucast decodedVarInt), s))"
  by pat_completeness auto
termination
  by (relation "measure (\<lambda>(rb, avail, byteIndex, d, s). 5 - byteIndex)") auto

definition ReadVarInt :: "('s \<Rightarrow> (u8 \<times> 's) option) \<Rightarrow> ('s \<Rightarrow> nat) \<Rightarrow> 's \<Rightarrow> (u32 errorable \<times> 's) option" where
  "ReadVarInt rb avail s = ReadVarInt_loop rb avail 0 0 s"

function ReadVarLong_loop ::
  "('s \<Rightarrow> (u8 \<times> 's) option) \<Rightarrow> ('s \<Rightarrow> nat) \<Rightarrow> nat \<Rightarrow> u64 \<Rightarrow> 's \<Rightarrow> (u64 errorable \<times> 's) option" where
  "ReadVarLong_loop rb avail byteIndex decodedVarLong s =
     (if byteIndex < 10 then
        (if avail s < 1
         then Some (InvalidArgumentErrorable IncompleteVarLong_T 0 (of_nat (avail s)), s)
         else do { (byte, s1) \<leftarrow> rb s;
                   let decodedVarLong1 = decodedVarLong OR push_bit (byteIndex * 7) (ucast (byte AND 0x7F));
                   if byte AND 0x80 = 0
                   then Some (SuccessErrorable decodedVarLong1, s1)
                   else ReadVarLong_loop rb avail (byteIndex + 1) decodedVarLong1 s1 })
      else Some (InvalidArgumentErrorable InvalidVarLong_T 0 decodedVarLong, s))"
  by pat_completeness auto
termination
  by (relation "measure (\<lambda>(rb, avail, byteIndex, d, s). 10 - byteIndex)") auto

definition ReadVarLong :: "('s \<Rightarrow> (u8 \<times> 's) option) \<Rightarrow> ('s \<Rightarrow> nat) \<Rightarrow> 's \<Rightarrow> (u64 errorable \<times> 's) option" where
  "ReadVarLong rb avail s = ReadVarLong_loop rb avail 0 0 s"

declare ReadVarInt_loop.simps [simp del] ReadVarLong_loop.simps [simp del]

definition ReadUUID :: "('s \<Rightarrow> (u8 \<times> 's) option) \<Rightarrow> ('s \<Rightarrow> nat) \<Rightarrow> 's \<Rightarrow> (UUID errorable \<times> 's) option" where
  "ReadUUID rb avail s =
     do { (e1, s1) \<leftarrow> ReadLong rb avail s;
          ProceedErrorable e1 (InvalidArgumentErrorable InvalidUUID_T UUID_default (of_nat (avail s1)))
            (\<lambda>most. do { (e2, s2) \<leftarrow> ReadLong rb avail s1;
               ProceedErrorable e2 (InvalidArgumentErrorable InvalidUUID_T UUID_default (of_nat (avail s2)))
                 (\<lambda>least. Some (SuccessErrorable (make_UUID most least), s2)) s2 }) s1 }"

text \<open>The most significant half is joined without a shift, as the code has it.\<close>

definition ReadUUIDIntArray :: "('s \<Rightarrow> (u8 \<times> 's) option) \<Rightarrow> ('s \<Rightarrow> nat) \<Rightarrow> 's \<Rightarrow> (UUID errorable \<times> 's) option" where
  "ReadUUIDIntArray rb avail s =
     (let bad = (\<lambda>s. InvalidArgumentErrorable InvalidUUID_T UUID_default (of_nat (avail s))) in
      do { (e1, s1) \<leftarrow> ReadInt rb avail s;
           ProceedErrorable e1 (bad s1) (\<lambda>msl. do { (e2, s2) \<leftarrow> ReadInt rb avail s1;
             ProceedErrorable e2 (bad s2) (\<lambda>msr. do { (e3, s3) \<leftarrow> ReadInt rb avail s2;
               ProceedErrorable e3 (bad s3) (\<lambda>lsl. do { (e4, s4) \<leftarrow> ReadInt rb avail s3;
                 ProceedErrorable e4 (bad s4) (\<lambda>lsr.
                   Some (SuccessErrorable (make_UUID
                     (ucast msl OR (ucast msr AND 0xFFFFFFFF))
                     (push_bit 32 (ucast lsl) OR (ucast lsr AND 0xFFFFFFFF))), s4)) s4 }) s3 }) s2 }) s1 })"

definition ReadDouble :: "('s \<Rightarrow> (u8 \<times> 's) option) \<Rightarrow> ('s \<Rightarrow> nat) \<Rightarrow> 's \<Rightarrow> (u64 errorable \<times> 's) option" where
  "ReadDouble rb avail s =
     do { (e, s1) \<leftarrow> ReadLong rb avail s;
          ProceedErrorable e (InvalidArgumentErrorable IncompleteDouble_T 0 (of_nat (avail s1)))
            (\<lambda>v. Some (SuccessErrorable v, s1)) s1 }"

definition ReadFloat :: "('s \<Rightarrow> (u8 \<times> 's) option) \<Rightarrow> ('s \<Rightarrow> nat) \<Rightarrow> 's \<Rightarrow> (u32 errorable \<times> 's) option" where
  "ReadFloat rb avail s =
     do { (e, s1) \<leftarrow> ReadInt rb avail s;
          ProceedErrorable e (InvalidArgumentErrorable IncompleteFloat_T 0 (of_nat (avail s1)))
            (\<lambda>v. Some (SuccessErrorable v, s1)) s1 }"

text \<open>
  \<open>ReadBytes(size)\<close> allocates the array it returns; \<open>junk\<close> gives the indeterminate contents of
  such an array.
\<close>

definition new_array :: "(nat \<Rightarrow> u8) \<Rightarrow> nat \<Rightarrow> u8 list" where
  "new_array junk n = map junk [0..<n]"

definition ReadBytes ::
  "(u8 list \<Rightarrow> nat \<Rightarrow> 's \<Rightarrow> (u8 list errorable \<times> 's) option) \<Rightarrow> (nat \<Rightarrow> u8) \<Rightarrow> nat \<Rightarrow> 's
   \<Rightarrow> (u8 list errorable \<times> 's) option" where
  "ReadBytes rs junk sz s = rs (new_array junk sz) sz s"

text \<open>
  \<open>std::string((const char* ) bytes)\<close> takes the bytes up to the first NUL.  The array of
  \<open>ReadBytes\<close> has no terminator of its own: without a NUL in it the scan leaves the array.
\<close>

definition string_of_c_str :: "u8 list \<Rightarrow> u8 list option" where
  "string_of_c_str bytes = (if 0 \<in> set bytes then Some (takeWhile (\<lambda>b. b \<noteq> 0) bytes) else None)"

definition ReadString ::
  "('s \<Rightarrow> (u8 \<times> 's) option) \<Rightarrow> ('s \<Rightarrow> nat) \<Rightarrow>
   (u8 list \<Rightarrow> nat \<Rightarrow> 's \<Rightarrow> (u8 list errorable \<times> 's) option) \<Rightarrow> (nat \<Rightarrow> u8) \<Rightarrow> u32 \<Rightarrow> 's
   \<Rightarrow> (u8 list errorable \<times> 's) option" where
  "ReadString rb avail rs junk max_size s =
     do { (e, s1) \<leftarrow> ReadVarInt rb avail s;
          ProceedErrorable e (InvalidArgumentErrorable InvalidStringSize_T [] (- 1))
            (\<lambda>length. if length > max_size
               then Some (InvalidArgumentErrorable InvalidStringSize_T [] (ucast length), s1)
               else do { (e2, s2) \<leftarrow> ReadBytes rs junk (unat length) s1;
                         ProceedErrorable e2 (InvalidArgumentErrorable InvalidStringSize_T [] (ucast length))
                           (\<lambda>bytes. do { str \<leftarrow> string_of_c_str bytes;
                                         Some (SuccessErrorable str, s2) }) s2 }) s1 }"

definition ReadString_default ::
  "('s \<Rightarrow> (u8 \<times> 's) option) \<Rightarrow> ('s \<Rightarrow> nat) \<Rightarrow>
   (u8 list \<Rightarrow> nat \<Rightarrow> 's \<Rightarrow> (u8 list errorable \<times> 's) option) \<Rightarrow> (nat \<Rightarrow> u8) \<Rightarrow> 's
   \<Rightarrow> (u8 list errorable \<times> 's) option" where
  "ReadString_default rb avail rs junk s = ReadString rb avail rs junk 65536 s"

text \<open>
  \<open>ReadByteArray\<close> returns \<open>new ByteBufferImpl(bytes, length)\<close>; \<open>mk\<close> is that constructor.
\<close>

definition ReadByteArray ::
  "('s \<Rightarrow> (u8 \<times> 's) option) \<Rightarrow> ('s \<Rightarrow> nat) \<Rightarrow>
   (u8 list \<Rightarrow> nat \<Rightarrow> 's \<Rightarrow> (u8 list errorable \<times> 's) option) \<Rightarrow> (nat \<Rightarrow> u8) \<Rightarrow>
   (u8 list \<Rightarrow> nat \<Rightarrow> 's \<Rightarrow> 'b \<times> 's) \<Rightarrow> 's \<Rightarrow> ('b option errorable \<times> 's) option" where
  "ReadByteArray rb avail rs junk mk s =
     do { (e, s1) \<leftarrow> ReadVarInt rb avail s;
          ProceedErrorable e (InvalidArgumentErrorable InvalidByteArraySize_T None (- 1))
            (\<lambda>length. do { (e2, s2) \<leftarrow> ReadBytes rs junk (unat length) s1;
               ProceedErrorable e2 (InvalidArgumentErrorable InvalidByteArraySize_T None (ucast length))
                 (\<lambda>bytes. let (b, s3) = mk bytes (unat length) s2
                          in Some (SuccessErrorable (Some b), s3)) s2 }) s1 }"

definition ReadByteArray_max ::
  "('s \<Rightarrow> (u8 \<times> 's) option) \<Rightarrow> ('s \<Rightarrow> nat) \<Rightarrow>
   (u8 list \<Rightarrow> nat \<Rightarrow> 's \<Rightarrow> (u8 list errorable \<times> 's) option) \<Rightarrow> (nat \<Rightarrow> u8) \<Rightarrow>
   (u8 list \<Rightarrow> nat \<Rightarrow> 's \<Rightarrow> 'b \<times> 's) \<Rightarrow> u32 \<Rightarrow> 's \<Rightarrow> ('b option errorable \<times> 's) option" where
  "ReadByteArray_max rb avail rs junk mk max_size s =
     do { (e, s1) \<leftarrow> ReadVarInt rb avail s;
          ProceedErrorable e (InvalidArgumentErrorable InvalidByteArraySize_T None (- 1))
            (\<lambda>length. if length > max_size
               then Some (InvalidArgumentErrorable InvalidByteArraySize_T None (ucast length), s1)
               else do { (e2, s2) \<leftarrow> ReadBytes rs junk (unat length) s1;
                         ProceedErrorable e2 (InvalidArgumentErrorable InvalidByteArraySize_T None (ucast length))
                           (\<lambda>bytes. let (b, s3) = mk bytes (unat length) s2
                                    in Some (SuccessErrorable (Some b), s3)) s2 }) s1 }"

end
