(* ===== verification/Ship_Codec.thy ===== *)
theory Ship_Codec
  imports Ship_ByteBuffer
begin

text \<open>
  Reference encodings on byte lists, and what they have to do with the methods of \<open>ByteBuffer\<close>:
  big-endian words (\<open>be_bytes\<close>, \<open>be_join\<close>), the variable-length encoding (\<open>leb128\<close>,
  \<open>parse_leb\<close>), and \<open>put_list\<close>, one \<open>WriteByte\<close> per byte.  Every \<open>Write\<close> method equals
  \<open>put_list\<close> of its encoding, for every implementation of \<open>WriteByte\<close>.
\<close>

section \<open>Big-endian words\<close>

fun be_bytes :: "nat \<Rightarrow> 'a::len word \<Rightarrow> u8 list" where
  "be_bytes 0 x = []"
| "be_bytes (Suc n) x = be_bytes n (drop_bit 8 x) @ [ucast x]"

definition be_join :: "u8 list \<Rightarrow> 'a::len word" where
  "be_join bs = foldl (\<lambda>acc b. push_bit 8 acc OR ucast b) 0 bs"

lemma be_join_snoc [simp]: "be_join (bs @ [b]) = push_bit 8 (be_join bs) OR ucast b"
  by (simp add: be_join_def)

lemma be_join_Nil [simp]: "be_join [] = 0"
  by (simp add: be_join_def)

lemma length_be_bytes [simp]: "length (be_bytes n x) = n"
  by (induction n arbitrary: x) auto

lemma split_low_byte:
  "push_bit 8 (take_bit k (drop_bit 8 x)) OR ucast (ucast x :: u8) = take_bit (8 + k) (x :: 'a::len word)"
proof (rule bit_word_eqI)
  fix n assume "n < LENGTH('a)"
  then show "bit (push_bit 8 (take_bit k (drop_bit 8 x)) OR ucast (ucast x :: u8)) n
    = bit (take_bit (8 + k) x) n"
    by (cases "n < 8") (auto simp: bit_simps)
qed

lemma be_join_be_bytes: "be_join (be_bytes n x) = take_bit (8 * n) (x :: 'a::len word)"
  by (induction n arbitrary: x) (simp_all add: split_low_byte)

lemma be_join_be_bytes_full:
  "LENGTH('a) \<le> 8 * n \<Longrightarrow> be_join (be_bytes n x) = (x :: 'a::len word)"
  unfolding be_join_be_bytes by (rule bit_word_eqI) (auto simp: bit_simps)

lemma drop_8_join: "drop_bit 8 (push_bit 8 y OR ucast (b :: u8)) = take_bit (LENGTH('a) - 8) (y :: 'a::len word)"
  by (rule bit_word_eqI) (auto simp: bit_simps dest: bit_imp_le_length)

lemma low_byte_join:
  "8 \<le> LENGTH('a) \<Longrightarrow> ucast (push_bit 8 y OR ucast b :: 'a::len word) = (b :: u8)"
  by (rule bit_word_eqI) (auto simp: bit_simps)

lemma be_join_less:
  "8 * length bs \<le> LENGTH('a) \<Longrightarrow> take_bit (8 * length bs) (be_join bs :: 'a::len word) = be_join bs"
proof (induction bs rule: rev_induct)
  case Nil
  then show ?case by simp
next
  case (snoc b bs)
  then have IH: "take_bit (8 * length bs) (be_join bs :: 'a word) = be_join bs" by simp
  have low: "m < 8 * length bs" if "bit (be_join bs :: 'a word) m" for m
    using IH that by (metis bit_take_bit_iff)
  show ?case
    by (rule bit_word_eqI) (use low bit_imp_le_length [of b] in \<open>fastforce simp: bit_simps\<close>)
qed

lemma be_bytes_be_join:
  "8 * length bs \<le> LENGTH('a) \<Longrightarrow> be_bytes (length bs) (be_join bs :: 'a::len word) = bs"
proof (induction bs rule: rev_induct)
  case Nil
  then show ?case by simp
next
  case (snoc b bs)
  then have fits: "8 * length bs \<le> LENGTH('a) - 8" "8 \<le> LENGTH('a)" by simp_all
  have "take_bit (8 * length bs) (be_join bs :: 'a word) = be_join bs"
    using fits by (intro be_join_less) simp
  then have "take_bit (LENGTH('a) - 8) (be_join bs :: 'a word) = be_join bs"
    using fits(1) by (metis min.absorb2 take_bit_take_bit)
  then have "drop_bit 8 (be_join (bs @ [b]) :: 'a word) = be_join bs"
    unfolding be_join_snoc drop_8_join .
  moreover have "ucast (be_join (bs @ [b]) :: 'a word) = b"
    unfolding be_join_snoc using fits(2) by (rule low_byte_join)
  ultimately show ?case using snoc fits by (simp del: be_join_snoc)
qed

section \<open>The variable-length encoding\<close>

fun leb128 :: "nat \<Rightarrow> u8 list" where
  "leb128 n = (if n < 128 then [of_nat n] else of_nat (n mod 128 + 128) # leb128 (n div 128))"

declare leb128.simps [simp del]

lemma leb128_small: "n < 128 \<Longrightarrow> leb128 n = [of_nat n]"
  by (simp add: leb128.simps)

lemma leb128_big: "128 \<le> n \<Longrightarrow> leb128 n = of_nat (n mod 128 + 128) # leb128 (n div 128)"
  by (subst leb128.simps) simp

lemma leb128_nonempty [simp]: "leb128 n \<noteq> []" "0 < length (leb128 n)"
  by (subst leb128.simps, simp)+

lemma length_leb128_le: "0 < k \<Longrightarrow> length (leb128 n) \<le> k \<longleftrightarrow> n < 2 ^ (7 * k)"
proof (induction k arbitrary: n)
  case 0
  then show ?case by simp
next
  case (Suc k)
  show ?case
  proof (cases "n < 128")
    case True
    have "(128 :: nat) \<le> 2 ^ (7 * Suc k)" by (simp add: power_add)
    with True have "n < 2 ^ (7 * Suc k)" by (rule order_less_le_trans)
    with True show ?thesis by (simp add: leb128_small)
  next
    case False
    then have len: "length (leb128 n) = Suc (length (leb128 (n div 128)))"
      by (simp add: leb128_big)
    have div: "n div 128 < 2 ^ (7 * k) \<longleftrightarrow> n < 2 ^ (7 * Suc k)"
    proof -
      have "(2 :: nat) ^ (7 * Suc k) = 2 ^ (7 * k) * 128" by (simp add: power_add)
      then show ?thesis by (simp only: div_less_iff_less_mult [of 128] zero_less_numeral)
    qed
    show ?thesis
    proof (cases k)
      case 0
      with False show ?thesis by (simp add: len)
    next
      case (Suc k')
      with len div Suc.IH [of "n div 128"] show ?thesis by simp
    qed
  qed
qed

text \<open>The reference decoder: at most \<open>m\<close> bytes, the error classes as arguments.\<close>

fun parse_leb ::
  "nat \<Rightarrow> error_class \<Rightarrow> error_class \<Rightarrow> nat \<Rightarrow> 'a::len word \<Rightarrow> u8 list \<Rightarrow> 'a word errorable \<times> u8 list" where
  "parse_leb m incomplete invalid i acc [] =
     (if i < m then (InvalidArgumentErrorable incomplete 0 0, [])
      else (InvalidArgumentErrorable invalid 0 (ucast acc), []))"
| "parse_leb m incomplete invalid i acc (b # bs) =
     (if i < m
      then (let acc1 = acc OR push_bit (i * 7) (ucast (b AND 0x7F)) in
            if b AND 0x80 = 0 then (SuccessErrorable acc1, bs)
            else parse_leb m incomplete invalid (i + 1) acc1 bs)
      else (InvalidArgumentErrorable invalid 0 (ucast acc), b # bs))"

lemma byte_continuation: "(b :: u8) AND 0x80 = 0 \<longleftrightarrow> unat b < 128"
proof -
  have "(0x80 :: u8) = push_bit 7 (- 1)" by code_simp
  then show ?thesis using unat_less_pow_iff_mask [of 7 b] by (simp del: push_bit_minus_one)
qed

lemma byte_payload: "unat ((b :: u8) AND 0x7F) = unat b mod 128"
proof -
  have "b AND 0x7F = take_bit 7 b" by (simp add: take_bit_eq_mask mask_eq_exp_minus_1)
  then show ?thesis by (simp only: unsigned_take_bit_eq) (simp add: take_bit_eq_mod)
qed

lemma unat_ucast_byte:
  "8 \<le> LENGTH('a) \<Longrightarrow> unat (ucast (b :: u8) :: 'a::len word) = unat b"
proof -
  assume "8 \<le> LENGTH('a)"
  then have "(2 :: nat) ^ 8 \<le> 2 ^ LENGTH('a)" by (rule power_increasing) simp
  moreover have "unat b < 2 ^ 8" using unat_bounds(1) [of b] by simp
  ultimately have "unat b < 2 ^ LENGTH('a)" by (metis order_less_le_trans)
  then show ?thesis by (simp add: unsigned_ucast_eq take_bit_nat_eq_self)
qed

lemma eq_of_nat_unat: "unat w = k \<Longrightarrow> w = of_nat k"
  by (auto simp: word_unat_eq_iff unat_of_nat)

lemma pow_split: "(2 :: nat) ^ ((i + 1) * 7) = 128 * 2 ^ (i * 7)"
  by (simp add: power_add)

lemma radix_split: "(128 * q + r) * P = q * (128 * P) + r * (P :: nat)"
  by (simp add: algebra_simps)

lemma parse_leb_leb128:
  fixes acc :: "'a::len word"
  assumes "8 \<le> LENGTH('a)"
    and "i + length (leb128 n) \<le> m" and "unat acc < 2 ^ (i * 7)"
    and "n * 2 ^ (i * 7) + unat acc < 2 ^ LENGTH('a)"
  shows "parse_leb m c1 c2 i acc (leb128 n @ rest) = (SuccessErrorable (of_nat (n * 2 ^ (i * 7) + unat acc)), rest)"
  using assms(2-)
proof (induction n arbitrary: i acc rule: leb128.induct)
  case (1 n)
  have i: "i < m" using "1.prems"(1) by (metis add_leD1 le_neq_implies_less leb128_nonempty(2) nat_add_left_cancel_less add_0_right not_le order_less_le_trans)
  show ?case
  proof (cases "n < 128")
    case True
    then have b: "unat (of_nat n :: u8) = n"
      by (simp add: unat_of_nat)
    have pl: "unat (ucast (of_nat n AND 0x7F :: u8) :: 'a word) = n"
      using True by (simp only: unat_ucast_byte [OF assms(1)] byte_payload b) simp
    have "unat (acc OR push_bit (i * 7) (ucast (of_nat n AND 0x7F :: u8))) = unat acc + n * 2 ^ (i * 7)"
      using "1.prems"(2,3) unat_or_push_bit [of acc "i * 7" "ucast (of_nat n AND 0x7F :: u8)"]
      unfolding pl by simp
    then have "acc OR push_bit (i * 7) (ucast (of_nat n AND 0x7F :: u8)) = of_nat (n * 2 ^ (i * 7) + unat acc)"
      by (intro eq_of_nat_unat) simp
    then show ?thesis
      using True i b by (simp add: leb128_small byte_continuation Let_def)
  next
    case False
    let ?b = "of_nat (n mod 128 + 128) :: u8"
    let ?acc = "acc OR push_bit (i * 7) (ucast (?b AND 0x7F)) :: 'a word"
    have ub: "unat ?b = n mod 128 + 128"
      by (subst unat_of_nat) (simp add: mod_less_divisor less_trans)
    have pl: "unat (ucast (?b AND 0x7F) :: 'a word) = n mod 128"
      by (simp only: unat_ucast_byte [OF assms(1)] byte_payload ub) simp
    have val: "n * 2 ^ (i * 7) = (n div 128) * 2 ^ ((i + 1) * 7) + (n mod 128) * 2 ^ (i * 7)"
      using radix_split [of "n div 128" "n mod 128" "2 ^ (i * 7)"] unfolding pow_split by simp
    have ua: "unat ?acc = unat acc + (n mod 128) * 2 ^ (i * 7)"
      using "1.prems"(2,3) unat_or_push_bit [of acc "i * 7" "ucast (?b AND 0x7F)"] val
      unfolding pl by simp
    have "(n mod 128) * 2 ^ (i * 7) \<le> 127 * 2 ^ (i * 7)" by (rule mult_right_mono) simp_all
    then have "unat ?acc < 2 ^ ((i + 1) * 7)"
      using ua "1.prems"(2) unfolding pow_split by linarith
    moreover have "n div 128 * 2 ^ ((i + 1) * 7) + unat ?acc = n * 2 ^ (i * 7) + unat acc"
      using ua val by simp
    moreover have "i + 1 + length (leb128 (n div 128)) \<le> m"
      using "1.prems"(1) False by (simp add: leb128_big)
    ultimately have "parse_leb m c1 c2 (i + 1) ?acc (leb128 (n div 128) @ rest)
        = (SuccessErrorable (of_nat (n * 2 ^ (i * 7) + unat acc)), rest)"
      using "1.IH" [OF False, of "i + 1" ?acc] "1.prems"(3) by simp
    moreover have "?b AND 0x80 \<noteq> 0" unfolding byte_continuation ub by simp
    ultimately show ?thesis
      using False i by (simp add: leb128_big Let_def del: of_nat_add)
  qed
qed

section \<open>Sizes of encodings\<close>

lemma all_ones: "(0xFFFFFFFF :: u32) = - 1" "(0xFFFFFFFFFFFFFFFF :: u64) = - 1"
  by code_simp+

lemma VarIntBytes_eq: "VarIntBytes x = of_nat (length (leb128 (unat x)))"
proof -
  have "unat x < 2 ^ (7 * 5)" using unat_bounds(3) [of x] by simp
  then have le: "length (leb128 (unat x)) \<le> 5" by (subst length_leb128_le) simp_all
  have test: "x AND push_bit (7 * k) 0xFFFFFFFF = 0 \<longleftrightarrow> length (leb128 (unat x)) \<le> k"
    if "0 < k" "7 * k \<le> 32" for k
    using that by (simp only: all_ones unat_less_pow_iff_mask len_of_numeral_defs length_leb128_le)
  have tests: "x AND push_bit 7 0xFFFFFFFF = 0 \<longleftrightarrow> length (leb128 (unat x)) \<le> 1"
    "x AND push_bit 14 0xFFFFFFFF = 0 \<longleftrightarrow> length (leb128 (unat x)) \<le> 2"
    "x AND push_bit 21 0xFFFFFFFF = 0 \<longleftrightarrow> length (leb128 (unat x)) \<le> 3"
    "x AND push_bit 28 0xFFFFFFFF = 0 \<longleftrightarrow> length (leb128 (unat x)) \<le> 4"
    using test [of 1] test [of 2] test [of 3] test [of 4]
    unfolding mult_numeral_1_right by simp_all
  have "length (leb128 (unat x)) \<in> {1, 2, 3, 4, 5}"
    using le leb128_nonempty(2) [of "unat x"] unfolding insert_iff empty_iff by arith
  then show ?thesis
    unfolding VarIntBytes_def tests by (elim insertE emptyE) simp_all
qed

lemma VarLongBytes_eq: "VarLongBytes x = of_nat (length (leb128 (unat x)))"
proof -
  have "unat x < 2 ^ (7 * 10)" using unat_bounds(4) [of x] by simp
  then have le: "length (leb128 (unat x)) \<le> 10" by (subst length_leb128_le) simp_all
  have test: "x AND push_bit (7 * k) 0xFFFFFFFFFFFFFFFF = 0 \<longleftrightarrow> length (leb128 (unat x)) \<le> k"
    if "0 < k" "7 * k \<le> 64" for k
    using that by (simp only: all_ones unat_less_pow_iff_mask len_of_numeral_defs length_leb128_le)
  have tests: "x AND push_bit 7 0xFFFFFFFFFFFFFFFF = 0 \<longleftrightarrow> length (leb128 (unat x)) \<le> 1"
    "x AND push_bit 14 0xFFFFFFFFFFFFFFFF = 0 \<longleftrightarrow> length (leb128 (unat x)) \<le> 2"
    "x AND push_bit 21 0xFFFFFFFFFFFFFFFF = 0 \<longleftrightarrow> length (leb128 (unat x)) \<le> 3"
    "x AND push_bit 28 0xFFFFFFFFFFFFFFFF = 0 \<longleftrightarrow> length (leb128 (unat x)) \<le> 4"
    "x AND push_bit 35 0xFFFFFFFFFFFFFFFF = 0 \<longleftrightarrow> length (leb128 (unat x)) \<le> 5"
    "x AND push_bit 42 0xFFFFFFFFFFFFFFFF = 0 \<longleftrightarrow> length (leb128 (unat x)) \<le> 6"
    "x AND push_bit 49 0xFFFFFFFFFFFFFFFF = 0 \<longleftrightarrow> length (leb128 (unat x)) \<le> 7"
    "x AND push_bit 56 0xFFFFFFFFFFFFFFFF = 0 \<longleftrightarrow> length (leb128 (unat x)) \<le> 8"
    "x AND push_bit 63 0xFFFFFFFFFFFFFFFF = 0 \<longleftrightarrow> length (leb128 (unat x)) \<le> 9"
    using test [of 1] test [of 2] test [of 3] test [of 4] test [of 5] test [of 6] test [of 7]
      test [of 8] test [of 9] by simp_all
  have "length (leb128 (unat x)) \<in> {1, 2, 3, 4, 5, 6, 7, 8, 9, 10}"
    using le leb128_nonempty(2) [of "unat x"] unfolding insert_iff empty_iff by arith
  then show ?thesis
    unfolding VarLongBytes_def tests by (elim insertE emptyE) simp_all
qed

lemma length_leb128_bound:
  "length (leb128 (unat (x :: u32))) \<le> 5" "length (leb128 (unat (y :: u64))) \<le> 10"
proof -
  have "unat x < 2 ^ (7 * 5)" using unat_bounds(3) [of x] by simp
  then show "length (leb128 (unat x)) \<le> 5" by (subst length_leb128_le) simp_all
  have "unat y < 2 ^ (7 * 10)" using unat_bounds(4) [of y] by simp
  then show "length (leb128 (unat y)) \<le> 10" by (subst length_leb128_le) simp_all
qed

section \<open>Every writer is a run of \<open>WriteByte\<close>\<close>

fun put_list :: "(u8 \<Rightarrow> 's \<Rightarrow> 's option) \<Rightarrow> u8 list \<Rightarrow> 's \<Rightarrow> 's option" where
  "put_list wb [] s = Some s"
| "put_list wb (b # bs) s = do { s1 \<leftarrow> wb b s; put_list wb bs s1 }"

lemma put_list_append: "put_list wb (xs @ ys) s = do { s1 \<leftarrow> put_list wb xs s; put_list wb ys s1 }"
  by (induction xs arbitrary: s) (auto simp: bind_assoc split: bind_splits)

lemma put_list_fun [simp]:
  "put_list wb [] = Some" "put_list wb (b # bs) = (\<lambda>s. Option.bind (wb b s) (put_list wb bs))"
  by auto

lemma be_bytes_numeral [simp]:
  "be_bytes (numeral k) x = be_bytes (pred_numeral k) (drop_bit 8 x) @ [ucast x]"
  by (simp add: numeral_eq_Suc)

definition uuid_bytes :: "UUID \<Rightarrow> u8 list" where
  "uuid_bytes u = be_bytes 8 (GetMostSignificant u) @ be_bytes 8 (GetLeastSignificant u)"

lemma length_uuid_bytes [simp]: "length (uuid_bytes u) = 16"
  by (simp add: uuid_bytes_def)

lemma WriteBoolean_put: "WriteBoolean wb x s = put_list wb [if x then 1 else 0] s"
  by (simp add: WriteBoolean_def)

lemma WriteShort_put: "WriteShort wb x s = put_list wb (be_bytes 2 x) s"
  by (simp add: WriteShort_def)

lemma WriteMedium_put: "WriteMedium wb x s = put_list wb (be_bytes 3 x) s"
  by (simp add: WriteMedium_def)

lemma WriteInt_put: "WriteInt wb x s = put_list wb (be_bytes 4 x) s"
  by (simp add: WriteInt_def)

lemma WriteLong_put: "WriteLong wb x s = put_list wb (be_bytes 8 x) s"
  by (simp add: WriteLong_def)

lemma low_bits: "(x :: 'a::len word) AND 0x7F = take_bit 7 x"
  by (simp add: take_bit_eq_mask mask_eq_exp_minus_1)

lemma last_byte: "unat x < 128 \<Longrightarrow> (ucast (x :: 'a::len word) :: u8) = of_nat (unat x)"
  by (intro eq_of_nat_unat) (simp add: unsigned_ucast_eq take_bit_nat_eq_self)

lemma continuation_byte:
  fixes x :: "'a::len word"
  assumes "8 \<le> LENGTH('a)"
  shows "(ucast ((x AND 0x7F) OR 0x80) :: u8) = of_nat (unat x mod 128 + 128)"
proof -
  have p: "(2 :: nat) ^ 8 \<le> 2 ^ LENGTH('a)" using assms by (rule power_increasing) simp
  have lo: "unat (take_bit 7 x) = unat x mod 128"
    by (simp only: unsigned_take_bit_eq) (simp add: take_bit_eq_mod)
  have x80: "(0x80 :: 'a word) = push_bit 7 1" by (simp add: push_bit_eq_mult)
  have "unat (take_bit 7 x OR push_bit 7 1) = unat (take_bit 7 x) + unat (1 :: 'a word) * 2 ^ 7"
    using p lo by (intro unat_or_push_bit) (auto intro: order_less_le_trans)
  then have "unat ((x AND 0x7F) OR 0x80) = unat x mod 128 + 128"
    by (simp only: low_bits x80 lo) simp
  moreover have "unat x mod 128 + 128 < 2 ^ 8" by simp
  ultimately have "unat (ucast ((x AND 0x7F) OR 0x80) :: u8) = unat x mod 128 + 128"
    by (simp add: unsigned_ucast_eq take_bit_nat_eq_self)
  then show ?thesis by (rule eq_of_nat_unat)
qed

lemma WriteVarInt_put: "WriteVarInt wb x s = put_list wb (leb128 (unat x)) s"
proof (induction wb x s rule: WriteVarInt.induct)
  case (1 wb x s)
  have t: "x AND NOT 0x7F = 0 \<longleftrightarrow> unat x < 128" by (rule low7_test) simp
  show ?case
  proof (cases "unat x < 128")
    case True
    then show ?thesis
      by (simp only: WriteVarInt.simps [of wb x] t if_True leb128_small last_byte put_list_fun) simp
  next
    case False
    then have "leb128 (unat x) = of_nat (unat x mod 128 + 128) # leb128 (unat (drop_bit 7 x))"
      by (simp add: leb128_big unat_drop_7 del: of_nat_add)
    moreover have "(ucast ((x AND 0x7F) OR 0x80) :: u8) = of_nat (unat x mod 128 + 128)"
      by (rule continuation_byte) simp
    ultimately show ?thesis
      using "1.IH" False
      by (cases "wb (of_nat (unat x mod 128 + 128)) s")
         (simp_all only: WriteVarInt.simps [of wb x] t if_False put_list_fun Option.bind.simps
           not_False_eq_True)
  qed
qed

lemma WriteVarLong_put: "WriteVarLong wb x s = put_list wb (leb128 (unat x)) s"
proof (induction wb x s rule: WriteVarLong.induct)
  case (1 wb x s)
  have t: "x AND NOT 0x7F = 0 \<longleftrightarrow> unat x < 128" by (rule low7_test) simp
  show ?case
  proof (cases "unat x < 128")
    case True
    then show ?thesis
      by (simp only: WriteVarLong.simps [of wb x] t if_True leb128_small last_byte put_list_fun) simp
  next
    case False
    then have "leb128 (unat x) = of_nat (unat x mod 128 + 128) # leb128 (unat (drop_bit 7 x))"
      by (simp add: leb128_big unat_drop_7 del: of_nat_add)
    moreover have "(ucast ((x AND 0x7F) OR 0x80) :: u8) = of_nat (unat x mod 128 + 128)"
      by (rule continuation_byte) simp
    ultimately show ?thesis
      using "1.IH" False
      by (cases "wb (of_nat (unat x mod 128 + 128)) s")
         (simp_all only: WriteVarLong.simps [of wb x] t if_False put_list_fun Option.bind.simps
           not_False_eq_True)
  qed
qed

lemma WriteUUID_put: "WriteUUID wb u s = put_list wb (uuid_bytes u) s"
  by (simp only: WriteUUID_def WriteLong_put uuid_bytes_def put_list_append)

lemma be_bytes_halves:
  "be_bytes 8 (x :: u64) = be_bytes 4 (ucast (drop_bit 32 x) :: u32) @ be_bytes 4 (ucast x :: u32)"
proof -
  have "(ucast (drop_bit k (x :: u64)) :: u8) = ucast (drop_bit k (ucast x :: u32))" if "k \<le> 24" for k
    using that by (intro bit_word_eqI) (auto simp: bit_simps)
  from this [of 0] this [of 8] this [of 16] this [of 24]
  have "(ucast x :: u8) = ucast (ucast x :: u32)"
    "(ucast (drop_bit 8 x) :: u8) = ucast (drop_bit 8 (ucast x :: u32))"
    "(ucast (drop_bit 16 x) :: u8) = ucast (drop_bit 16 (ucast x :: u32))"
    "(ucast (drop_bit 24 x) :: u8) = ucast (drop_bit 24 (ucast x :: u32))"
    by simp_all
  moreover have "(ucast (drop_bit (k + 32) x) :: u8) = ucast (drop_bit k (ucast (drop_bit 32 x) :: u32))"
    if "k \<le> 24" for k
    using that by (intro bit_word_eqI) (auto simp: bit_simps add_ac)
  from this [of 0] this [of 8] this [of 16] this [of 24]
  have "(ucast (drop_bit 32 x) :: u8) = ucast (ucast (drop_bit 32 x) :: u32)"
    "(ucast (drop_bit 40 x) :: u8) = ucast (drop_bit 8 (ucast (drop_bit 32 x) :: u32))"
    "(ucast (drop_bit 48 x) :: u8) = ucast (drop_bit 16 (ucast (drop_bit 32 x) :: u32))"
    "(ucast (drop_bit 56 x) :: u8) = ucast (drop_bit 24 (ucast (drop_bit 32 x) :: u32))"
    by simp_all
  ultimately show ?thesis by simp
qed

lemma WriteUUIDIntArray_put: "WriteUUIDIntArray wb u s = put_list wb (uuid_bytes u) s"
  by (simp only: WriteUUIDIntArray_def WriteInt_put uuid_bytes_def be_bytes_halves
      put_list_append bind_assoc)

lemmas writer_puts = WriteBoolean_put WriteShort_put WriteMedium_put WriteInt_put WriteVarInt_put
  WriteLong_put WriteVarLong_put WriteUUID_put WriteUUIDIntArray_put

end
