(* ===== verification/Ship_Buffer_Laws.thy ===== *)
theory Ship_Buffer_Laws
  imports Ship_Codec
begin

text \<open>
  The contracts of the virtual methods of \<open>ByteBuffer\<close> and what follows from them.  A buffer
  is seen as the list of its readable bytes (\<open>contents\<close>) under an invariant (\<open>ok\<close>):
  \<open>byte_sink\<close> says that \<open>WriteByte\<close> appends, \<open>byte_source\<close> that \<open>ReadByteUnsafe\<close> takes the first byte and
  \<open>GetReadableBytes\<close> counts, \<open>byte_buffer\<close> adds the block transfers.  The lemmas proved in the locales
  hold for every buffer class that meets the contract.
\<close>

section \<open>Vocabulary\<close>

definition gives :: "('s \<Rightarrow> bool) \<Rightarrow> ('s \<Rightarrow> u8 list) \<Rightarrow> ('a \<times> 's) option \<Rightarrow> 'a \<Rightarrow> u8 list \<Rightarrow> bool" where
  "gives ok contents r v rest \<longleftrightarrow> (\<exists>s'. r = Some (v, s') \<and> ok s' \<and> contents s' = rest)"

definition holds :: "('s \<Rightarrow> bool) \<Rightarrow> ('s \<Rightarrow> u8 list) \<Rightarrow> 's option \<Rightarrow> u8 list \<Rightarrow> bool" where
  "holds ok contents r bs \<longleftrightarrow> (\<exists>s'. r = Some s' \<and> ok s' \<and> contents s' = bs)"

lemma givesI: "r = Some (v, s') \<Longrightarrow> ok s' \<Longrightarrow> contents s' = rest \<Longrightarrow> gives ok contents r v rest"
  by (auto simp: gives_def)

lemma givesE:
  assumes "gives ok contents r v rest"
  obtains s' where "r = Some (v, s')" and "ok s'" and "contents s' = rest"
  using assms by (auto simp: gives_def)

lemma holdsE:
  assumes "holds ok contents r bs"
  obtains s' where "r = Some s'" and "ok s'" and "contents s' = bs"
  using assms by (auto simp: holds_def)

lemma gives_bind:
  assumes "gives ok contents r v rest"
    and "\<And>s'. ok s' \<Longrightarrow> contents s' = rest \<Longrightarrow> gives ok contents (k v s') v' rest'"
  shows "gives ok contents (do { (a, s1) \<leftarrow> r; k a s1 }) v' rest'"
  using assms by (auto simp: gives_def)

lemma holds_bind:
  assumes "holds ok contents r bs"
    and "\<And>s'. ok s' \<Longrightarrow> contents s' = bs \<Longrightarrow> holds ok contents (f s') cs"
  shows "holds ok contents (Option.bind r f) cs"
  using assms by (auto simp: holds_def)

text \<open>A client that writes a list of typed fields, and one that reads the same kinds of fields.\<close>

datatype field =
    FBoolean bool | FByte u8 | FShort u16 | FMedium u32 | FInt u32 | FVarInt u32
  | FLong u64 | FVarLong u64 | FUUID UUID | FDouble u64 | FFloat u32

fun write_field :: "(u8 \<Rightarrow> 's \<Rightarrow> 's option) \<Rightarrow> field \<Rightarrow> 's \<Rightarrow> 's option" where
  "write_field wb (FBoolean x) s = WriteBoolean wb x s"
| "write_field wb (FByte x) s = wb x s"
| "write_field wb (FShort x) s = WriteShort wb x s"
| "write_field wb (FMedium x) s = WriteMedium wb x s"
| "write_field wb (FInt x) s = WriteInt wb x s"
| "write_field wb (FVarInt x) s = WriteVarInt wb x s"
| "write_field wb (FLong x) s = WriteLong wb x s"
| "write_field wb (FVarLong x) s = WriteVarLong wb x s"
| "write_field wb (FUUID x) s = WriteUUID wb x s"
| "write_field wb (FDouble x) s = WriteDouble wb x s"
| "write_field wb (FFloat x) s = WriteFloat wb x s"

definition decoded :: "('a \<Rightarrow> field) \<Rightarrow> 'a errorable \<times> 's \<Rightarrow> (field \<times> 's) option" where
  "decoded mk r = (case r of (e, s) \<Rightarrow> if IsSuccess e then Some (mk (GetValue e), s) else None)"

fun read_field ::
  "('s \<Rightarrow> (u8 \<times> 's) option) \<Rightarrow> ('s \<Rightarrow> nat) \<Rightarrow> field \<Rightarrow> 's \<Rightarrow> (field \<times> 's) option" where
  "read_field rb avail (FBoolean _) s = Option.bind (ReadBoolean rb avail s) (decoded FBoolean)"
| "read_field rb avail (FByte _) s = Option.bind (ReadByte rb avail s) (decoded FByte)"
| "read_field rb avail (FShort _) s = Option.bind (ReadShort rb avail s) (decoded FShort)"
| "read_field rb avail (FMedium _) s = Option.bind (ReadMedium rb avail s) (decoded FMedium)"
| "read_field rb avail (FInt _) s = Option.bind (ReadInt rb avail s) (decoded FInt)"
| "read_field rb avail (FVarInt _) s = Option.bind (ReadVarInt rb avail s) (decoded FVarInt)"
| "read_field rb avail (FLong _) s = Option.bind (ReadLong rb avail s) (decoded FLong)"
| "read_field rb avail (FVarLong _) s = Option.bind (ReadVarLong rb avail s) (decoded FVarLong)"
| "read_field rb avail (FUUID _) s = Option.bind (ReadUUID rb avail s) (decoded FUUID)"
| "read_field rb avail (FDouble _) s = Option.bind (ReadDouble rb avail s) (decoded FDouble)"
| "read_field rb avail (FFloat _) s = Option.bind (ReadFloat rb avail s) (decoded FFloat)"

fun write_fields :: "(u8 \<Rightarrow> 's \<Rightarrow> 's option) \<Rightarrow> field list \<Rightarrow> 's \<Rightarrow> 's option" where
  "write_fields wb [] s = Some s"
| "write_fields wb (f # fs) s = do { s1 \<leftarrow> write_field wb f s; write_fields wb fs s1 }"

fun read_fields ::
  "('s \<Rightarrow> (u8 \<times> 's) option) \<Rightarrow> ('s \<Rightarrow> nat) \<Rightarrow> field list \<Rightarrow> 's \<Rightarrow> (field list \<times> 's) option" where
  "read_fields rb avail [] s = Some ([], s)"
| "read_fields rb avail (f # fs) s =
     do { (g, s1) \<leftarrow> read_field rb avail f s;
          (gs, s2) \<leftarrow> read_fields rb avail fs s1;
          Some (g # gs, s2) }"

text \<open>A medium carries 24 bits; every other kind of field is read back as it was written.\<close>

fun field_bytes :: "field \<Rightarrow> u8 list" where
  "field_bytes (FBoolean x) = [if x then 1 else 0]"
| "field_bytes (FByte x) = [x]"
| "field_bytes (FShort x) = be_bytes 2 x"
| "field_bytes (FMedium x) = be_bytes 3 x"
| "field_bytes (FInt x) = be_bytes 4 x"
| "field_bytes (FVarInt x) = leb128 (unat x)"
| "field_bytes (FLong x) = be_bytes 8 x"
| "field_bytes (FVarLong x) = leb128 (unat x)"
| "field_bytes (FUUID x) = uuid_bytes x"
| "field_bytes (FDouble x) = be_bytes 8 x"
| "field_bytes (FFloat x) = be_bytes 4 x"

fun carried :: "field \<Rightarrow> field" where
  "carried (FMedium x) = FMedium (take_bit 24 x)"
| "carried f = f"

lemma write_field_put: "write_field wb f s = put_list wb (field_bytes f) s"
  by (cases f) (simp_all only: write_field.simps field_bytes.simps writer_puts WriteDouble_def
      WriteFloat_def put_list_fun Option.bind_runit)

lemma write_fields_put: "write_fields wb fs = put_list wb (concat (map field_bytes fs))"
proof (induction fs)
  case Nil
  show ?case by (rule ext) simp
next
  case (Cons f fs)
  show ?case by (rule ext) (simp add: write_field_put put_list_append Cons.IH)
qed

section \<open>A sink\<close>

locale byte_sink =
  fixes wb :: "u8 \<Rightarrow> 's \<Rightarrow> 's option"
    and contents :: "'s \<Rightarrow> u8 list"
    and ok :: "'s \<Rightarrow> bool"
  assumes put_law: "ok s \<Longrightarrow> length (contents s) + 1 < alloc_max \<Longrightarrow>
    holds ok contents (wb b s) (contents s @ [b])"
begin

lemma put_list_law:
  "ok s \<Longrightarrow> length (contents s) + length bs < alloc_max \<Longrightarrow>
   holds ok contents (put_list wb bs s) (contents s @ bs)"
proof (induction bs arbitrary: s)
  case Nil
  then show ?case by (simp add: holds_def)
next
  case (Cons b bs)
  from Cons.prems obtain s1 where s1: "wb b s = Some s1" "ok s1" "contents s1 = contents s @ [b]"
    using put_law [of s b] by (auto elim: holdsE)
  with Cons.IH [of s1] Cons.prems show ?case by simp
qed

lemma write_fields_law:
  "ok s \<Longrightarrow> length (contents s) + length (concat (map field_bytes fs)) < alloc_max \<Longrightarrow>
   holds ok contents (write_fields wb fs s) (contents s @ concat (map field_bytes fs))"
  unfolding write_fields_put by (rule put_list_law)

end

section \<open>A source\<close>

locale byte_source =
  fixes rb :: "'s \<Rightarrow> (u8 \<times> 's) option"
    and avail :: "'s \<Rightarrow> nat"
    and contents :: "'s \<Rightarrow> u8 list"
    and ok :: "'s \<Rightarrow> bool"
  assumes avail_law: "ok s \<Longrightarrow> avail s = length (contents s)"
    and get_law: "ok s \<Longrightarrow> contents s = b # bs \<Longrightarrow> gives ok contents (rb s) b bs"
begin

lemma get_step:
  assumes "ok s" and "contents s = b # bs"
    and "\<And>s'. ok s' \<Longrightarrow> contents s' = bs \<Longrightarrow> gives ok contents (k b s') v rest"
  shows "gives ok contents (do { (a, s1) \<leftarrow> rb s; k a s1 }) v rest"
  using get_law [OF assms(1,2)] assms(3) by (rule gives_bind)

lemma done_step:
  "ok s \<Longrightarrow> contents s = rest \<Longrightarrow> v = v' \<Longrightarrow> gives ok contents (Some (v, s)) v' rest"
  by (simp add: gives_def)

lemma ReadBoolean_full:
  "ok s \<Longrightarrow> contents s = a # rest \<Longrightarrow>
   gives ok contents (ReadBoolean rb avail s) (SuccessErrorable (a \<noteq> 0)) rest"
  by (simp add: ReadBoolean_def avail_law) (erule (1) get_step, rule done_step, simp_all)

lemma ReadByte_full:
  "ok s \<Longrightarrow> contents s = a # rest \<Longrightarrow>
   gives ok contents (ReadByte rb avail s) (SuccessErrorable a) rest"
  by (simp add: ReadByte_def avail_law) (erule (1) get_step, rule done_step, simp_all)

lemma ReadShort_full:
  "ok s \<Longrightarrow> contents s = a # b # rest \<Longrightarrow>
   gives ok contents (ReadShort rb avail s) (SuccessErrorable (be_join [a, b])) rest"
  by (simp add: ReadShort_def avail_law)
     ((erule (1) get_step)+, rule done_step, assumption+, simp add: be_join_def,
      rule bit_word_eqI, auto simp: bit_simps)

lemma ReadMedium_full:
  "ok s \<Longrightarrow> contents s = a # b # c # rest \<Longrightarrow>
   gives ok contents (ReadMedium rb avail s) (SuccessErrorable (be_join [a, b, c])) rest"
  by (simp add: ReadMedium_def avail_law)
     ((erule (1) get_step)+, rule done_step, assumption+, simp add: be_join_def push_bit_or or.assoc)

lemma ReadInt_full:
  "ok s \<Longrightarrow> contents s = a # b # c # d # rest \<Longrightarrow>
   gives ok contents (ReadInt rb avail s) (SuccessErrorable (be_join [a, b, c, d])) rest"
  by (simp add: ReadInt_def avail_law)
     ((erule (1) get_step)+, rule done_step, assumption+, simp add: be_join_def push_bit_or or.assoc)

lemma ReadLong_full:
  "ok s \<Longrightarrow> contents s = a # b # c # d # e # f # g # h # rest \<Longrightarrow>
   gives ok contents (ReadLong rb avail s) (SuccessErrorable (be_join [a, b, c, d, e, f, g, h])) rest"
  by (simp add: ReadLong_def avail_law)
     ((erule (1) get_step)+, rule done_step, assumption+, simp add: be_join_def push_bit_or or.assoc)

text \<open>With too few bytes nothing is consumed, and the error carries the number of readable bytes.\<close>

lemma short_reads:
  "ok s \<Longrightarrow> length (contents s) < 1 \<Longrightarrow>
   ReadBoolean rb avail s = Some (InvalidArgumentErrorable IncompleteBoolean_T False (of_nat (length (contents s))), s)"
  "ok s \<Longrightarrow> length (contents s) < 1 \<Longrightarrow>
   ReadByte rb avail s = Some (InvalidArgumentErrorable IncompleteByte_T 0 (of_nat (length (contents s))), s)"
  "ok s \<Longrightarrow> length (contents s) < 2 \<Longrightarrow>
   ReadShort rb avail s = Some (InvalidArgumentErrorable IncompleteShort_T 0 (of_nat (length (contents s))), s)"
  "ok s \<Longrightarrow> length (contents s) < 3 \<Longrightarrow>
   ReadMedium rb avail s = Some (InvalidArgumentErrorable IncompleteMedium_T 0 (of_nat (length (contents s))), s)"
  "ok s \<Longrightarrow> length (contents s) < 4 \<Longrightarrow>
   ReadInt rb avail s = Some (InvalidArgumentErrorable IncompleteInt_T 0 (of_nat (length (contents s))), s)"
  "ok s \<Longrightarrow> length (contents s) < 8 \<Longrightarrow>
   ReadLong rb avail s = Some (InvalidArgumentErrorable IncompleteLong_T 0 (of_nat (length (contents s))), s)"
  by (simp_all add: ReadBoolean_def ReadByte_def ReadShort_def ReadMedium_def ReadInt_def
      ReadLong_def avail_law)

text \<open>The loops of the variable-length readers compute the reference decoder.\<close>

lemma ReadVarInt_loop_parse:
  "ok s \<Longrightarrow>
   gives ok contents (ReadVarInt_loop rb avail i acc s)
     (fst (parse_leb 5 IncompleteVarInt_T InvalidVarInt_T i acc (contents s)))
     (snd (parse_leb 5 IncompleteVarInt_T InvalidVarInt_T i acc (contents s)))"
proof (induction "5 - i" arbitrary: i acc s rule: less_induct)
  case less
  show ?case
  proof (cases "i < 5")
    case False
    then show ?thesis using less.prems
      by (cases "contents s") (simp_all add: ReadVarInt_loop.simps gives_def)
  next
    case True
    show ?thesis
    proof (cases "contents s")
      case Nil
      then show ?thesis using True less.prems
        by (simp add: ReadVarInt_loop.simps avail_law gives_def)
    next
      case (Cons b bs)
      let ?acc = "acc OR push_bit (i * 7) (ucast (b AND 0x7F))"
      have IH: "gives ok contents (ReadVarInt_loop rb avail (Suc i) ?acc s')
          (fst (parse_leb 5 IncompleteVarInt_T InvalidVarInt_T (Suc i) ?acc bs))
          (snd (parse_leb 5 IncompleteVarInt_T InvalidVarInt_T (Suc i) ?acc bs))"
        if "ok s'" "contents s' = bs" for s'
        using less.hyps [of "Suc i" s' ?acc] that True by simp
      have "\<not> avail s < 1" using less.prems Cons by (simp add: avail_law)
      then show ?thesis using True
        by (simp only: ReadVarInt_loop.simps [of rb avail i acc s] if_True if_False Let_def)
           (rule get_step [OF less.prems Cons], auto simp: Cons Let_def IH done_step)
    qed
  qed
qed

lemma ReadVarLong_loop_parse:
  "ok s \<Longrightarrow>
   gives ok contents (ReadVarLong_loop rb avail i acc s)
     (fst (parse_leb 10 IncompleteVarLong_T InvalidVarLong_T i acc (contents s)))
     (snd (parse_leb 10 IncompleteVarLong_T InvalidVarLong_T i acc (contents s)))"
proof (induction "10 - i" arbitrary: i acc s rule: less_induct)
  case less
  show ?case
  proof (cases "i < 10")
    case False
    then show ?thesis using less.prems
      by (cases "contents s") (simp_all add: ReadVarLong_loop.simps gives_def)
  next
    case True
    show ?thesis
    proof (cases "contents s")
      case Nil
      then show ?thesis using True less.prems
        by (simp add: ReadVarLong_loop.simps avail_law gives_def)
    next
      case (Cons b bs)
      let ?acc = "acc OR push_bit (i * 7) (ucast (b AND 0x7F))"
      have IH: "gives ok contents (ReadVarLong_loop rb avail (Suc i) ?acc s')
          (fst (parse_leb 10 IncompleteVarLong_T InvalidVarLong_T (Suc i) ?acc bs))
          (snd (parse_leb 10 IncompleteVarLong_T InvalidVarLong_T (Suc i) ?acc bs))"
        if "ok s'" "contents s' = bs" for s'
        using less.hyps [of "Suc i" s' ?acc] that True by simp
      have "\<not> avail s < 1" using less.prems Cons by (simp add: avail_law)
      then show ?thesis using True
        by (simp only: ReadVarLong_loop.simps [of rb avail i acc s] if_True if_False Let_def)
           (rule get_step [OF less.prems Cons], auto simp: Cons Let_def IH done_step)
    qed
  qed
qed

lemma ReadVarInt_parse:
  "ok s \<Longrightarrow> parse_leb 5 IncompleteVarInt_T InvalidVarInt_T 0 0 (contents s) = (e, rest) \<Longrightarrow>
   gives ok contents (ReadVarInt rb avail s) e rest"
  using ReadVarInt_loop_parse [of s 0 0] by (simp add: ReadVarInt_def)

lemma ReadVarLong_parse:
  "ok s \<Longrightarrow> parse_leb 10 IncompleteVarLong_T InvalidVarLong_T 0 0 (contents s) = (e, rest) \<Longrightarrow>
   gives ok contents (ReadVarLong rb avail s) e rest"
  using ReadVarLong_loop_parse [of s 0 0] by (simp add: ReadVarLong_def)

text \<open>Reading what the encodings produced.\<close>

lemma ReadShort_at:
  assumes "ok s" and "contents s = be_bytes 2 x @ rest"
  shows "gives ok contents (ReadShort rb avail s) (SuccessErrorable x) rest"
proof -
  obtain a b where ab: "be_bytes 2 x = [a, b]" by simp
  then have "be_join [a, b] = x" using be_join_be_bytes_full [of 2 x] by simp
  then show ?thesis using ReadShort_full [OF assms(1), of a b rest] assms(2) ab by simp
qed

lemma ReadMedium_at:
  assumes "ok s" and "contents s = be_bytes 3 x @ rest"
  shows "gives ok contents (ReadMedium rb avail s) (SuccessErrorable (take_bit 24 x)) rest"
proof -
  obtain a b c where abc: "be_bytes 3 x = [a, b, c]" by simp
  then have "be_join [a, b, c] = take_bit 24 x" using be_join_be_bytes [of 3 x] by simp
  then show ?thesis using ReadMedium_full [OF assms(1), of a b c rest] assms(2) abc by simp
qed

lemma ReadInt_at:
  assumes "ok s" and "contents s = be_bytes 4 x @ rest"
  shows "gives ok contents (ReadInt rb avail s) (SuccessErrorable x) rest"
proof -
  obtain a b c d where abcd: "be_bytes 4 x = [a, b, c, d]" by simp
  then have "be_join [a, b, c, d] = x" using be_join_be_bytes_full [of 4 x] by simp
  then show ?thesis using ReadInt_full [OF assms(1), of a b c d rest] assms(2) abcd by simp
qed

lemma ReadLong_at:
  assumes "ok s" and "contents s = be_bytes 8 x @ rest"
  shows "gives ok contents (ReadLong rb avail s) (SuccessErrorable x) rest"
proof -
  obtain a b c d e f g h where bs: "be_bytes 8 x = [a, b, c, d, e, f, g, h]" by simp
  then have "be_join [a, b, c, d, e, f, g, h] = x" using be_join_be_bytes_full [of 8 x] by simp
  then show ?thesis using ReadLong_full [OF assms(1), of a b c d e f g h rest] assms(2) bs by simp
qed

lemma ReadVarInt_at:
  assumes "ok s" and "contents s = leb128 (unat x) @ rest"
  shows "gives ok contents (ReadVarInt rb avail s) (SuccessErrorable x) rest"
proof -
  have "parse_leb 5 IncompleteVarInt_T InvalidVarInt_T 0 (0 :: u32) (leb128 (unat x) @ rest)
    = (SuccessErrorable (of_nat (unat x * 2 ^ (0 * 7) + unat (0 :: u32))), rest)"
    using length_leb128_bound(1) [of x] unat_bound [of x] by (intro parse_leb_leb128) simp_all
  then show ?thesis using ReadVarInt_parse [OF assms(1)] assms(2) by simp
qed

lemma ReadVarLong_at:
  assumes "ok s" and "contents s = leb128 (unat x) @ rest"
  shows "gives ok contents (ReadVarLong rb avail s) (SuccessErrorable x) rest"
proof -
  have "parse_leb 10 IncompleteVarLong_T InvalidVarLong_T 0 (0 :: u64) (leb128 (unat x) @ rest)
    = (SuccessErrorable (of_nat (unat x * 2 ^ (0 * 7) + unat (0 :: u64))), rest)"
    using length_leb128_bound(2) [of x] unat_bound [of x] by (intro parse_leb_leb128) simp_all
  then show ?thesis using ReadVarLong_parse [OF assms(1)] assms(2) by simp
qed

lemma ReadUUID_at:
  assumes "ok s" and "contents s = uuid_bytes u @ rest"
  shows "gives ok contents (ReadUUID rb avail s) (SuccessErrorable u) rest"
proof -
  let ?m = "GetMostSignificant u" and ?l = "GetLeastSignificant u"
  have 1: "gives ok contents (ReadLong rb avail s) (SuccessErrorable ?m) (be_bytes 8 ?l @ rest)"
    using ReadLong_at [OF assms(1)] assms(2) by (simp only: uuid_bytes_def append_assoc)
  have 2: "gives ok contents (ReadLong rb avail s1) (SuccessErrorable ?l) rest"
    if "ok s1" "contents s1 = be_bytes 8 ?l @ rest" for s1
    using that by (rule ReadLong_at)
  show ?thesis
    unfolding ReadUUID_def
    by (rule gives_bind [OF 1], simp only: ProceedErrorable_simps, rule gives_bind [OF 2])
       (simp_all add: gives_def)
qed

lemma ReadDouble_at:
  assumes "ok s" and "contents s = be_bytes 8 x @ rest"
  shows "gives ok contents (ReadDouble rb avail s) (SuccessErrorable x) rest"
  unfolding ReadDouble_def
  by (rule gives_bind [OF ReadLong_at [OF assms]]) (simp add: gives_def)

lemma ReadFloat_at:
  assumes "ok s" and "contents s = be_bytes 4 x @ rest"
  shows "gives ok contents (ReadFloat rb avail s) (SuccessErrorable x) rest"
  unfolding ReadFloat_def
  by (rule gives_bind [OF ReadInt_at [OF assms]]) (simp add: gives_def)

lemma gives_decoded:
  "gives ok contents r (SuccessErrorable v) rest \<Longrightarrow>
   gives ok contents (Option.bind r (decoded mk)) (mk v) rest"
  by (auto simp: gives_def decoded_def)

lemma read_field_at:
  assumes "ok s" and "contents s = field_bytes f @ rest"
  shows "gives ok contents (read_field rb avail f s) (carried f) rest"
proof (cases f)
  case (FBoolean x)
  then have "gives ok contents (ReadBoolean rb avail s) (SuccessErrorable x) rest"
    using ReadBoolean_full [OF assms(1), of "if x then 1 else 0" rest] assms(2)
    by (cases x) simp_all
  then show ?thesis using FBoolean gives_decoded by simp
next
  case (FByte x)
  then show ?thesis using ReadByte_full [OF assms(1)] assms(2) gives_decoded by simp
qed (use assms in \<open>simp_all add: gives_decoded ReadShort_at ReadMedium_at ReadInt_at ReadVarInt_at
  ReadLong_at ReadVarLong_at ReadUUID_at ReadDouble_at ReadFloat_at
  del: be_bytes_numeral\<close>)

lemma read_fields_at:
  "ok s \<Longrightarrow> contents s = concat (map field_bytes fs) @ rest \<Longrightarrow>
   gives ok contents (read_fields rb avail fs s) (map carried fs) rest"
proof (induction fs arbitrary: s)
  case Nil
  then show ?case by (simp add: gives_def)
next
  case (Cons f fs)
  from Cons.prems have "gives ok contents (read_field rb avail f s) (carried f) (concat (map field_bytes fs) @ rest)"
    by (intro read_field_at) simp_all
  then obtain s1 where s1: "read_field rb avail f s = Some (carried f, s1)" "ok s1"
    "contents s1 = concat (map field_bytes fs) @ rest" by (rule givesE)
  from Cons.IH [OF s1(2,3)] obtain s2 where "read_fields rb avail fs s1 = Some (map carried fs, s2)"
    "ok s2" "contents s2 = rest" by (rule givesE)
  with s1(1) show ?case by (simp add: gives_def)
qed

text \<open>\<open>ReadUUIDIntArray\<close> on the encoding of a UUID: the upper half comes back folded.\<close>

lemma ReadUUIDIntArray_at:
  assumes "ok s" and "contents s = uuid_bytes u @ rest"
  shows "gives ok contents (ReadUUIDIntArray rb avail s)
    (SuccessErrorable (make_UUID (drop_bit 32 (GetMostSignificant u) OR take_bit 32 (GetMostSignificant u))
                                 (GetLeastSignificant u))) rest"
proof -
  let ?m = "GetMostSignificant u" and ?l = "GetLeastSignificant u"
  let ?mh = "ucast (drop_bit 32 ?m) :: u32" and ?ml = "ucast ?m :: u32"
  let ?lh = "ucast (drop_bit 32 ?l) :: u32" and ?ll = "ucast ?l :: u32"
  have mask: "(0xFFFFFFFF :: u64) = mask 32" by (simp add: mask_eq_exp_minus_1)
  have m: "(ucast ?mh OR (ucast ?ml AND 0xFFFFFFFF) :: u64) = drop_bit 32 ?m OR take_bit 32 ?m"
    unfolding mask by (rule bit_word_eqI) (auto simp: bit_simps dest: bit_imp_le_length)
  have l: "(push_bit 32 (ucast ?lh) OR (ucast ?ll AND 0xFFFFFFFF) :: u64) = ?l"
    unfolding mask by (rule bit_word_eqI) (auto simp: bit_simps)
  have 1: "gives ok contents (ReadInt rb avail s) (SuccessErrorable ?mh)
      (be_bytes 4 ?ml @ be_bytes 4 ?lh @ be_bytes 4 ?ll @ rest)"
    using assms by (intro ReadInt_at) (simp_all only: uuid_bytes_def be_bytes_halves append_assoc)
  show ?thesis
    unfolding ReadUUIDIntArray_def Let_def
    apply (rule gives_bind [OF 1], simp only: ProceedErrorable_simps)
    apply (rule gives_bind, erule (1) ReadInt_at, simp only: ProceedErrorable_simps)
    apply (rule gives_bind, erule (1) ReadInt_at, simp only: ProceedErrorable_simps)
    apply (rule gives_bind, erule (1) ReadInt_at, simp only: ProceedErrorable_simps m l)
    apply (rule done_step, assumption+, rule refl)
    done
qed

end

section \<open>A buffer\<close>

locale byte_buffer = byte_sink wb contents ok + byte_source rb avail contents ok
  for wb :: "u8 \<Rightarrow> 's \<Rightarrow> 's option"
    and contents :: "'s \<Rightarrow> u8 list"
    and ok :: "'s \<Rightarrow> bool"
    and rb :: "'s \<Rightarrow> (u8 \<times> 's) option"
    and avail :: "'s \<Rightarrow> nat" +
  fixes ws :: "u8 list \<Rightarrow> nat \<Rightarrow> 's \<Rightarrow> 's option"
    and rs :: "u8 list \<Rightarrow> nat \<Rightarrow> 's \<Rightarrow> (u8 list errorable \<times> 's) option"
  assumes block_put_law: "ok s \<Longrightarrow> length (contents s) + length xs < alloc_max \<Longrightarrow>
      holds ok contents (ws xs (length xs) s) (contents s @ xs)"
    and block_get_law: "ok s \<Longrightarrow> 0 < n \<Longrightarrow> n \<le> length (contents s) \<Longrightarrow> n < 2 ^ 32 \<Longrightarrow>
      length out = n \<Longrightarrow>
      gives ok contents (rs out n s) (SuccessErrorable (take n (contents s))) (drop n (contents s))"
    and block_short_law: "ok s \<Longrightarrow> length (contents s) < n \<Longrightarrow>
      rs out n s = Some (InvalidArgumentErrorable IncompleteByteArray_T [] (of_nat (length (contents s))), s)"
begin

text \<open>Fields are read back in the order they were written, whatever is in the buffer before them.\<close>

lemma fields_roundtrip:
  assumes "ok s" and "contents s = []" and "length (concat (map field_bytes fs)) < alloc_max"
  shows "\<exists>s1. write_fields wb fs s = Some s1 \<and> ok s1 \<and>
              gives ok contents (read_fields rb avail fs s1) (map carried fs) []"
proof -
  have "holds ok contents (write_fields wb fs s) (concat (map field_bytes fs))"
    using write_fields_law [OF assms(1), of fs] assms(2,3) by simp
  then obtain s1 where "write_fields wb fs s = Some s1" "ok s1"
    "contents s1 = concat (map field_bytes fs)" by (rule holdsE)
  with read_fields_at [of s1 fs "[]"] show ?thesis by simp
qed

lemma WriteString_law:
  assumes "ok s" and "length (contents s) + length (leb128 (length str)) + length str < alloc_max"
    and "length str < 2 ^ 32"
  shows "holds ok contents (WriteString wb ws str s) (contents s @ leb128 (length str) @ str)"
proof -
  have "unat (of_nat (length str) :: u32) = length str"
    using assms(3) by (simp add: unat_of_nat take_bit_nat_eq_self)
  then have 1: "holds ok contents (WriteVarInt wb (of_nat (length str)) s) (contents s @ leb128 (length str))"
    using put_list_law [OF assms(1), of "leb128 (length str)"] assms(2)
    by (simp add: WriteVarInt_put)
  show ?thesis
    unfolding WriteString_def
  proof (rule holds_bind [OF 1])
    fix s1 assume s1: "ok s1" "contents s1 = contents s @ leb128 (length str)"
    show "holds ok contents (ws str (length str) s1) (contents s @ leb128 (length str) @ str)"
      using block_put_law [OF s1(1), of str] s1(2) assms(2) by (simp add: add.assoc)
  qed
qed

text \<open>
  \<open>ReadString\<close> on a length-prefixed payload: the payload is cut at its first NUL, and a payload
  without a NUL has no result.
\<close>

lemma ReadString_payload:
  assumes "ok s" and "contents s = leb128 (length payload) @ payload @ rest"
    and "payload \<noteq> []" and "length payload \<le> unat max_size"
  shows "if 0 \<in> set payload
         then gives ok contents (ReadString rb avail rs junk max_size s)
                (SuccessErrorable (takeWhile (\<lambda>b. b \<noteq> 0) payload)) rest
         else ReadString rb avail rs junk max_size s = None"
proof -
  let ?n = "of_nat (length payload) :: u32"
  have lt: "length payload < 2 ^ 32" using assms(4) unat_bounds(3) [of max_size] by simp
  then have n: "unat ?n = length payload" by (simp add: unat_of_nat take_bit_nat_eq_self)
  have le: "\<not> max_size < ?n" using assms(4) n by (simp add: word_less_nat_alt)
  have "gives ok contents (ReadVarInt rb avail s) (SuccessErrorable ?n) (payload @ rest)"
    using assms(1,2) n by (intro ReadVarInt_at) simp_all
  then obtain s1 where s1: "ReadVarInt rb avail s = Some (SuccessErrorable ?n, s1)" "ok s1"
    "contents s1 = payload @ rest" by (rule givesE)
  have "gives ok contents (rs (new_array junk (length payload)) (length payload) s1)
      (SuccessErrorable (take (length payload) (contents s1))) (drop (length payload) (contents s1))"
    using s1 assms(3) lt by (intro block_get_law) (simp_all add: new_array_def)
  then obtain s2 where s2: "rs (new_array junk (length payload)) (length payload) s1
      = Some (SuccessErrorable payload, s2)" "ok s2" "contents s2 = rest"
    using s1(3) by (auto elim: givesE)
  show ?thesis
    using s1(1) s2 le n
    by (simp add: ReadString_def ReadBytes_def string_of_c_str_def gives_def)
qed

text \<open>An announced length above the limit is refused, and nothing beyond the prefix is consumed.\<close>

lemma ReadString_too_long:
  assumes "ok s" and "contents s = leb128 (unat n) @ rest" and "max_size < n"
  shows "gives ok contents (ReadString rb avail rs junk max_size s)
    (InvalidArgumentErrorable InvalidStringSize_T [] (ucast n)) rest"
  unfolding ReadString_def
  by (rule gives_bind [OF ReadVarInt_at [OF assms(1,2)]]) (simp add: assms(3) gives_def)

text \<open>A payload that has not arrived in full is refused; the prefix has been consumed.\<close>

lemma ReadString_incomplete:
  assumes "ok s" and "contents s = leb128 (unat n) @ rest" and "n \<le> max_size"
    and "length rest < unat n"
  shows "gives ok contents (ReadString rb avail rs junk max_size s)
    (InvalidArgumentErrorable InvalidStringSize_T [] (ucast n)) rest"
proof -
  have "gives ok contents (ReadVarInt rb avail s) (SuccessErrorable n) rest"
    using assms(1,2) by (rule ReadVarInt_at)
  then obtain s1 where s1: "ReadVarInt rb avail s = Some (SuccessErrorable n, s1)" "ok s1"
    "contents s1 = rest" by (rule givesE)
  then have "rs (new_array junk (unat n)) (unat n) s1
      = Some (InvalidArgumentErrorable IncompleteByteArray_T [] (of_nat (length rest)), s1)"
    using assms(4) block_short_law by simp
  with s1 assms(3) show ?thesis by (simp add: ReadString_def ReadBytes_def gives_def)
qed

end

end
