(* ===== verification/Ship_Queue_Refinement.thy ===== *)
theory Ship_Queue_Refinement
  imports Ship_Buffer_Laws
begin

text \<open>
  What a client of \<open>ByteBuffer\<close> may rely on: a buffer is a first-in-first-out queue of bytes.  The
  abstract specification works on the list of bytes alone; \<open>run_ops\<close> makes the same calls through the
  virtual methods.  \<open>run_ops_refines\<close> is proved for every class that meets the contract \<open>byte_buffer\<close>.
\<close>

datatype buffer_op =
    OpWrite field
  | OpWriteBytes "u8 list"
  | OpReadByte
  | OpReadBytes nat
  | OpReadVarInt

datatype outcome =
    OutUnit
  | OutByte "u8 errorable"
  | OutBytes "u8 list errorable"
  | OutVarInt "u32 errorable"

section \<open>The specification\<close>

fun spec_op :: "buffer_op \<Rightarrow> u8 list \<Rightarrow> outcome \<times> u8 list" where
  "spec_op (OpWrite f) bs = (OutUnit, bs @ field_bytes f)"
| "spec_op (OpWriteBytes xs) bs = (OutUnit, bs @ xs)"
| "spec_op OpReadByte [] = (OutByte (InvalidArgumentErrorable IncompleteByte_T 0 0), [])"
| "spec_op OpReadByte (b # bs) = (OutByte (SuccessErrorable b), bs)"
| "spec_op (OpReadBytes n) bs =
     (if length bs < n
      then (OutBytes (InvalidArgumentErrorable IncompleteByteArray_T [] (of_nat (length bs))), bs)
      else (OutBytes (SuccessErrorable (take n bs)), drop n bs))"
| "spec_op OpReadVarInt bs =
     (case parse_leb 5 IncompleteVarInt_T InvalidVarInt_T 0 0 bs of (e, rest) \<Rightarrow> (OutVarInt e, rest))"

fun spec_ops :: "buffer_op list \<Rightarrow> u8 list \<Rightarrow> outcome list \<times> u8 list" where
  "spec_ops [] bs = ([], bs)"
| "spec_ops (c # cs) bs =
     (case spec_op c bs of (out, bs1) \<Rightarrow> case spec_ops cs bs1 of (outs, bs2) \<Rightarrow> (out # outs, bs2))"

text \<open>
  The calls a client may make: a block of no bytes is not asked for, and the length of a block
  fits the \<open>uint32_t\<close> index of the copying loop.
\<close>

fun op_ok :: "buffer_op \<Rightarrow> bool" where
  "op_ok (OpReadBytes n) \<longleftrightarrow> 0 < n \<and> n < 2 ^ 32"
| "op_ok _ \<longleftrightarrow> True"

fun op_size :: "buffer_op \<Rightarrow> nat" where
  "op_size (OpWrite f) = length (field_bytes f)"
| "op_size (OpWriteBytes xs) = length xs"
| "op_size _ = 0"

lemma snd_parse_leb_length:
  "length (snd (parse_leb k c1 c2 i acc bs)) \<le> length bs"
proof (induction bs arbitrary: i acc)
  case Nil
  then show ?case by simp
next
  case (Cons b bs)
  then show ?case by (auto simp: Let_def le_SucI)
qed

lemma spec_op_length: "length (snd (spec_op c bs)) \<le> length bs + op_size c"
proof (cases c)
  case OpReadByte
  then show ?thesis by (cases bs) simp_all
next
  case OpReadVarInt
  then show ?thesis
    using snd_parse_leb_length [of 5 IncompleteVarInt_T InvalidVarInt_T 0 "0 :: u32" bs]
    by (simp add: case_prod_unfold)
qed auto

section \<open>The calls\<close>

fun run_op ::
  "(u8 \<Rightarrow> 's \<Rightarrow> 's option) \<Rightarrow> (u8 list \<Rightarrow> nat \<Rightarrow> 's \<Rightarrow> 's option) \<Rightarrow>
   ('s \<Rightarrow> (u8 \<times> 's) option) \<Rightarrow> ('s \<Rightarrow> nat) \<Rightarrow>
   (u8 list \<Rightarrow> nat \<Rightarrow> 's \<Rightarrow> (u8 list errorable \<times> 's) option) \<Rightarrow> (nat \<Rightarrow> u8) \<Rightarrow>
   buffer_op \<Rightarrow> 's \<Rightarrow> (outcome \<times> 's) option" where
  "run_op wb ws rb avail rs junk (OpWrite f) s = map_option (Pair OutUnit) (write_field wb f s)"
| "run_op wb ws rb avail rs junk (OpWriteBytes xs) s = map_option (Pair OutUnit) (ws xs (length xs) s)"
| "run_op wb ws rb avail rs junk OpReadByte s = map_option (map_prod OutByte id) (ReadByte rb avail s)"
| "run_op wb ws rb avail rs junk (OpReadBytes n) s = map_option (map_prod OutBytes id) (ReadBytes rs junk n s)"
| "run_op wb ws rb avail rs junk OpReadVarInt s = map_option (map_prod OutVarInt id) (ReadVarInt rb avail s)"

fun run_ops ::
  "(u8 \<Rightarrow> 's \<Rightarrow> 's option) \<Rightarrow> (u8 list \<Rightarrow> nat \<Rightarrow> 's \<Rightarrow> 's option) \<Rightarrow>
   ('s \<Rightarrow> (u8 \<times> 's) option) \<Rightarrow> ('s \<Rightarrow> nat) \<Rightarrow>
   (u8 list \<Rightarrow> nat \<Rightarrow> 's \<Rightarrow> (u8 list errorable \<times> 's) option) \<Rightarrow> (nat \<Rightarrow> u8) \<Rightarrow>
   buffer_op list \<Rightarrow> 's \<Rightarrow> (outcome list \<times> 's) option" where
  "run_ops wb ws rb avail rs junk [] s = Some ([], s)"
| "run_ops wb ws rb avail rs junk (c # cs) s =
     do { (out, s1) \<leftarrow> run_op wb ws rb avail rs junk c s;
          (outs, s2) \<leftarrow> run_ops wb ws rb avail rs junk cs s1;
          Some (out # outs, s2) }"

section \<open>Refinement\<close>

context byte_buffer
begin

lemma gives_map:
  "gives ok contents r v rest \<Longrightarrow> gives ok contents (map_option (map_prod h id) r) (h v) rest"
  by (auto simp: gives_def)

lemma holds_unit:
  "holds ok contents r bs \<Longrightarrow> gives ok contents (map_option (Pair OutUnit) r) OutUnit bs"
  by (auto simp: gives_def holds_def)

lemma run_op_refines:
  assumes "ok s" and "op_ok c" and "length (contents s) + op_size c < alloc_max"
  shows "gives ok contents (run_op wb ws rb avail rs junk c s)
    (fst (spec_op c (contents s))) (snd (spec_op c (contents s)))"
proof (cases c)
  case (OpWrite f)
  then show ?thesis
    using holds_unit [OF put_list_law [OF assms(1), of "field_bytes f"]] assms(3)
    by (simp add: write_field_put)
next
  case (OpWriteBytes xs)
  then show ?thesis using holds_unit [OF block_put_law [OF assms(1), of xs]] assms(3) by simp
next
  case OpReadByte
  show ?thesis
  proof (cases "contents s")
    case Nil
    then show ?thesis using OpReadByte short_reads(2) [OF assms(1)] assms(1) by (simp add: gives_def)
  next
    case (Cons b bs)
    then show ?thesis using OpReadByte Cons
      gives_map [OF ReadByte_full [OF assms(1) Cons], of OutByte] by simp
  qed
next
  case (OpReadBytes n)
  show ?thesis
  proof (cases "length (contents s) < n")
    case True
    then show ?thesis using OpReadBytes block_short_law [OF assms(1) True] assms(1)
      by (simp add: ReadBytes_def gives_def)
  next
    case False
    then have "gives ok contents (ReadBytes rs junk n s) (SuccessErrorable (take n (contents s)))
        (drop n (contents s))"
      using assms OpReadBytes by (simp add: ReadBytes_def block_get_law new_array_def)
    then show ?thesis using OpReadBytes False gives_map [of _ _ _ OutBytes] by simp
  qed
next
  case OpReadVarInt
  obtain e rest where p: "parse_leb 5 IncompleteVarInt_T InvalidVarInt_T 0 (0 :: u32) (contents s) = (e, rest)"
    by (cases "parse_leb 5 IncompleteVarInt_T InvalidVarInt_T 0 (0 :: u32) (contents s)")
  show ?thesis using OpReadVarInt gives_map [OF ReadVarInt_parse [OF assms(1) p], of OutVarInt] p by simp
qed

lemma run_ops_refines:
  "ok s \<Longrightarrow> list_all op_ok cs \<Longrightarrow> length (contents s) + sum_list (map op_size cs) < alloc_max \<Longrightarrow>
   gives ok contents (run_ops wb ws rb avail rs junk cs s)
     (fst (spec_ops cs (contents s))) (snd (spec_ops cs (contents s)))"
proof (induction cs arbitrary: s)
  case Nil
  then show ?case by (simp add: gives_def)
next
  case (Cons c cs)
  obtain out bs1 where sp: "spec_op c (contents s) = (out, bs1)" by (cases "spec_op c (contents s)")
  have c: "op_ok c" "length (contents s) + op_size c < alloc_max" using Cons.prems(2,3) by simp_all
  from run_op_refines [OF Cons.prems(1) c, of junk]
  obtain s1 where s1: "run_op wb ws rb avail rs junk c s = Some (out, s1)" "ok s1" "contents s1 = bs1"
    using sp by (auto elim: givesE)
  have "length bs1 \<le> length (contents s) + op_size c" using spec_op_length [of c "contents s"] sp by simp
  then have "gives ok contents (run_ops wb ws rb avail rs junk cs s1)
      (fst (spec_ops cs bs1)) (snd (spec_ops cs bs1))"
    using Cons.IH [OF s1(2)] Cons.prems(2,3) s1(3) by simp
  then show ?case using s1(1) sp by (auto simp: gives_def case_prod_unfold)
qed

end

end
