(* ===== verification/Ship_ByteBufferImpl.thy ===== *)
theory Ship_ByteBufferImpl
  imports Ship_Queue_Refinement
begin

text \<open>
  \<open>ByteBufferImpl\<close> (\<open>protocol/ByteBuffer.cpp\<close>, second part): a queue of bytes kept in pages of
  \<open>singleCapacity\<close> bytes, read at the front page and written at the back page.

  Pages live in an explicit store, because the class deletes them, shares them with
  its copies and can be handed pages allocated elsewhere.  A pointer to a page is its address.
  Reading or writing beyond a page, using a deleted page, deleting twice and
  \<open>front()\<close> of the empty deque have no result.  \<open>delete\<close> of an array (\<open>PopBuffer\<close> uses it
  in place of \<open>delete[]\<close>) is taken to free it.
\<close>

section \<open>Memory\<close>

record memory =
  next_page :: nat
  pages :: "nat \<rightharpoonup> u8 list"
  junk :: "nat \<Rightarrow> u8"
  byteBufferWriteBuffer :: "nat \<Rightarrow> u8"

text \<open>\<open>byteBufferWriteBuffer\<close> is the thread's transfer buffer of \<open>MAX_PACKET_SIZE\<close> bytes.\<close>

definition MAX_PACKET_SIZE :: nat where
  "MAX_PACKET_SIZE = 8 * 1024 * 1024"

definition new_page :: "nat \<Rightarrow> memory \<Rightarrow> nat \<times> memory" where
  "new_page n m =
     (next_page m, m\<lparr>next_page := next_page m + 1,
                     pages := (pages m)(next_page m \<mapsto> new_array (junk m) n)\<rparr>)"

definition delete_page :: "nat \<Rightarrow> memory \<Rightarrow> memory option" where
  "delete_page a m = (case pages m a of None \<Rightarrow> None | Some _ \<Rightarrow> Some (m\<lparr>pages := (pages m)(a := None)\<rparr>))"

definition peek :: "nat \<Rightarrow> nat \<Rightarrow> nat \<Rightarrow> memory \<Rightarrow> u8 list option" where
  "peek a off n m = do { p \<leftarrow> pages m a; slice_of off n p }"

definition poke :: "nat \<Rightarrow> nat \<Rightarrow> u8 list \<Rightarrow> memory \<Rightarrow> memory option" where
  "poke a off bs m =
     do { p \<leftarrow> pages m a; q \<leftarrow> overwrite off bs p; Some (m\<lparr>pages := (pages m)(a \<mapsto> q)\<rparr>) }"

section \<open>State\<close>

record byte_buffer_impl =
  buffers :: "nat list"
  singleCapacity :: nat
  currentReadBuffer :: nat
  currentWriteBuffer :: nat
  localReaderIndex :: nat
  localWriterIndex :: nat
  readableBytes :: nat

type_synonym bb_state = "memory \<times> byte_buffer_impl"

definition ByteBufferImpl_new :: "nat \<Rightarrow> memory \<Rightarrow> bb_state" where
  "ByteBufferImpl_new cap m =
     (let (buffer, m1) = new_page cap m in
      (m1, \<lparr>buffers = [buffer], singleCapacity = cap, currentReadBuffer = buffer,
            currentWriteBuffer = buffer, localReaderIndex = 0, localWriterIndex = 0,
            readableBytes = 0\<rparr>))"

definition ByteBufferImpl_of_page :: "nat \<Rightarrow> nat \<Rightarrow> byte_buffer_impl" where
  "ByteBufferImpl_of_page buffer cap =
     \<lparr>buffers = [buffer], singleCapacity = cap, currentReadBuffer = buffer,
      currentWriteBuffer = buffer, localReaderIndex = 0, localWriterIndex = 0, readableBytes = 0\<rparr>"

section \<open>Queries\<close>

definition Impl_GetReadableBytes :: "bb_state \<Rightarrow> nat" where
  "Impl_GetReadableBytes s = readableBytes (snd s)"

definition Impl_GetReaderIndex :: "bb_state \<Rightarrow> nat" where
  "Impl_GetReaderIndex s = localReaderIndex (snd s)"

definition Impl_GetWriterIndex :: "bb_state \<Rightarrow> nat" where
  "Impl_GetWriterIndex s = localWriterIndex (snd s)"

definition Impl_GetSingleCapacity :: "bb_state \<Rightarrow> nat" where
  "Impl_GetSingleCapacity s = singleCapacity (snd s)"

definition Impl_GetDirectBuffers :: "bb_state \<Rightarrow> nat list" where
  "Impl_GetDirectBuffers s = buffers (snd s)"

definition Impl_CanReadDirect :: "nat \<Rightarrow> bb_state \<Rightarrow> bool" where
  "Impl_CanReadDirect read_size s \<longleftrightarrow>
     sz_add (localReaderIndex (snd s)) read_size < singleCapacity (snd s)"

definition Impl_CanWriteDirect :: "nat \<Rightarrow> bb_state \<Rightarrow> bool" where
  "Impl_CanWriteDirect write_size s \<longleftrightarrow>
     sz_add (localWriterIndex (snd s)) write_size < singleCapacity (snd s)"

text \<open>An address inside a page: the page and the offset.\<close>

definition Impl_GetDirectReadAddress :: "bb_state \<Rightarrow> nat \<times> nat" where
  "Impl_GetDirectReadAddress s = (currentReadBuffer (snd s), localReaderIndex (snd s))"

definition Impl_GetDirectWriteAddress :: "bb_state \<Rightarrow> nat \<times> nat" where
  "Impl_GetDirectWriteAddress s = (currentWriteBuffer (snd s), localWriterIndex (snd s))"

text \<open>The copying constructor goes through the queries: the copy shares the pages.\<close>

definition ByteBufferImpl_copy :: "bb_state \<Rightarrow> byte_buffer_impl" where
  "ByteBufferImpl_copy s =
     \<lparr>buffers = Impl_GetDirectBuffers s,
      singleCapacity = Impl_GetSingleCapacity s,
      currentReadBuffer = fst (Impl_GetDirectReadAddress s),
      currentWriteBuffer = fst (Impl_GetDirectWriteAddress s),
      localReaderIndex = Impl_GetReaderIndex s,
      localWriterIndex = Impl_GetWriterIndex s,
      readableBytes = Impl_GetReadableBytes s\<rparr>"

section \<open>Pages\<close>

definition AppendBuffer :: "bb_state \<Rightarrow> bb_state" where
  "AppendBuffer s =
     (case s of (m, b) \<Rightarrow>
        let (a, m1) = new_page (singleCapacity b) m in
        (m1, b\<lparr>localWriterIndex := 0, currentWriteBuffer := a, buffers := buffers b @ [a]\<rparr>))"

definition PopBuffer :: "bb_state \<Rightarrow> bb_state option" where
  "PopBuffer s =
     (case s of (m, b) \<Rightarrow>
        (case buffers b of
           [] \<Rightarrow> None
         | a # rest \<Rightarrow>
             do { m1 \<leftarrow> delete_page a m;
                  (case rest of
                     [] \<Rightarrow> None
                   | front # _ \<Rightarrow>
                       Some (m1, b\<lparr>localReaderIndex := 0, buffers := rest,
                                   currentReadBuffer := front\<rparr>)) }))"

definition TryRefreshReaderBuffer :: "bb_state \<Rightarrow> bb_state option" where
  "TryRefreshReaderBuffer s =
     (if localReaderIndex (snd s) \<ge> singleCapacity (snd s) then PopBuffer s else Some s)"

definition TryRefreshWriterBuffer :: "bb_state \<Rightarrow> bb_state" where
  "TryRefreshWriterBuffer s =
     (if localWriterIndex (snd s) \<ge> singleCapacity (snd s) then AppendBuffer s else s)"

fun release_pages :: "nat list \<Rightarrow> memory \<Rightarrow> memory option" where
  "release_pages [] m = Some m"
| "release_pages (a # as) m = do { m1 \<leftarrow> delete_page a m; release_pages as m1 }"

definition Impl_Release :: "bb_state \<Rightarrow> bb_state option" where
  "Impl_Release s =
     (case s of (m, b) \<Rightarrow> do { m1 \<leftarrow> release_pages (buffers b) m; Some (m1, b\<lparr>buffers := []\<rparr>) })"

definition Impl_ResetReaderIndex :: "bb_state \<Rightarrow> bb_state" where
  "Impl_ResetReaderIndex s =
     (case s of (m, b) \<Rightarrow>
        (m, b\<lparr>localReaderIndex := 0,
              readableBytes := sz_add ((sz_sub (length (buffers b)) 1 * singleCapacity b) mod size_max)
                                      (localWriterIndex b)\<rparr>))"

definition Impl_ResetWriterIndex :: "bb_state \<Rightarrow> bb_state" where
  "Impl_ResetWriterIndex s =
     (case s of (m, b) \<Rightarrow> (m, b\<lparr>localWriterIndex := 0, readableBytes := 0\<rparr>))"

section \<open>Bytes\<close>

definition Impl_ReadByteUnsafe :: "bb_state \<Rightarrow> (u8 \<times> bb_state) option" where
  "Impl_ReadByteUnsafe s =
     do { (m, b) \<leftarrow> TryRefreshReaderBuffer s;
          bs \<leftarrow> peek (currentReadBuffer b) (localReaderIndex b) 1 m;
          Some (hd bs, (m, b\<lparr>readableBytes := sz_sub (readableBytes b) 1,
                             localReaderIndex := sz_add (localReaderIndex b) 1\<rparr>)) }"

definition Impl_WriteByte :: "u8 \<Rightarrow> bb_state \<Rightarrow> bb_state option" where
  "Impl_WriteByte input s =
     (case TryRefreshWriterBuffer s of (m, b) \<Rightarrow>
        do { m1 \<leftarrow> poke (currentWriteBuffer b) (localWriterIndex b) [input] m;
             Some (m1, b\<lparr>readableBytes := sz_add (readableBytes b) 1,
                         localWriterIndex := sz_add (localWriterIndex b) 1\<rparr>) })"

section \<open>Blocks\<close>

text \<open>
  \<open>while (size > singleCapacity)\<close>: one full page per round.  With pages of size 0 the loop does
  not end.
\<close>

partial_function (option) WriteBytes_loop ::
  "u8 list \<Rightarrow> nat \<Rightarrow> nat \<Rightarrow> memory \<Rightarrow> byte_buffer_impl \<Rightarrow> (nat \<times> nat \<times> bb_state) option" where
  "WriteBytes_loop input bytesIndex sz m b =
     (if sz > singleCapacity b
      then do { chunk \<leftarrow> slice_of bytesIndex (singleCapacity b) input;
                m1 \<leftarrow> poke (currentWriteBuffer b) (localWriterIndex b) chunk m;
                (m2, b2) \<leftarrow> Some (AppendBuffer
                  (m1, b\<lparr>readableBytes := sz_add (readableBytes b) (singleCapacity b),
                         localWriterIndex := 0\<rparr>));
                WriteBytes_loop input (sz_add bytesIndex (singleCapacity b))
                  (sz_sub sz (singleCapacity b)) m2 b2 }
      else Some (bytesIndex, sz, (m, b)))"

definition WriteBytes_tail :: "u8 list \<Rightarrow> nat \<Rightarrow> nat \<Rightarrow> bb_state \<Rightarrow> bb_state option" where
  "WriteBytes_tail input bytesIndex sz s =
     (case s of (m, b) \<Rightarrow>
        do { chunk \<leftarrow> slice_of bytesIndex sz input;
             m1 \<leftarrow> poke (currentWriteBuffer b) (localWriterIndex b) chunk m;
             Some (m1, b\<lparr>localWriterIndex := sz_add (localWriterIndex b) sz,
                         readableBytes := sz_add (readableBytes b) sz\<rparr>) })"

definition Impl_WriteBytes :: "u8 list \<Rightarrow> nat \<Rightarrow> bb_state \<Rightarrow> bb_state option" where
  "Impl_WriteBytes input sz s =
     (case TryRefreshWriterBuffer s of (m, b) \<Rightarrow>
        if sz_add (localWriterIndex b) sz > singleCapacity b
        then do { copiedBytes \<leftarrow> Some (sz_sub (singleCapacity b) (localWriterIndex b));
                  chunk \<leftarrow> slice_of 0 copiedBytes input;
                  m1 \<leftarrow> poke (currentWriteBuffer b) (localWriterIndex b) chunk m;
                  (m2, b2) \<leftarrow> Some (AppendBuffer
                    (m1, b\<lparr>readableBytes := sz_add (readableBytes b) copiedBytes,
                           localWriterIndex := 0\<rparr>));
                  (bytesIndex, sz1, s3) \<leftarrow> WriteBytes_loop input copiedBytes (sz_sub sz copiedBytes) m2 b2;
                  WriteBytes_tail input bytesIndex sz1 s3 }
        else WriteBytes_tail input 0 sz (m, b))"

text \<open>The input of \<open>WriteBytesAndDelete\<close> is an array of its own, given by its address.\<close>

definition Impl_WriteBytesAndDelete :: "nat \<Rightarrow> nat \<Rightarrow> bb_state \<Rightarrow> bb_state option" where
  "Impl_WriteBytesAndDelete input sz s =
     (case s of (m, b) \<Rightarrow>
        if localWriterIndex b = 0 \<and> sz = singleCapacity b
        then (if buffers b = [] then None
              else Some (m, b\<lparr>buffers := butlast (buffers b) @ [input]\<rparr>))
        else do { bytes \<leftarrow> pages m input;
                  (m1, b1) \<leftarrow> Impl_WriteBytes bytes sz s;
                  m2 \<leftarrow> delete_page input m1;
                  Some (m2, b1) })"

text \<open>\<open>bytesIndex\<close> of \<open>ReadBytes\<close> is a \<open>uint32_t\<close>; the output array is passed by its contents.\<close>

partial_function (option) ReadBytes_loop ::
  "u8 list \<Rightarrow> u32 \<Rightarrow> nat \<Rightarrow> memory \<Rightarrow> byte_buffer_impl \<Rightarrow> (u8 list \<times> u32 \<times> nat \<times> bb_state) option" where
  "ReadBytes_loop output bytesIndex sz m b =
     (if sz > singleCapacity b
      then do { chunk \<leftarrow> peek (currentReadBuffer b) 0 (singleCapacity b) m;
                output1 \<leftarrow> overwrite (unat bytesIndex) chunk output;
                (m2, b2) \<leftarrow> PopBuffer
                  (m, b\<lparr>readableBytes := sz_sub (readableBytes b) (singleCapacity b),
                        localReaderIndex := 0\<rparr>);
                ReadBytes_loop output1 (bytesIndex + of_nat (singleCapacity b))
                  (sz_sub sz (singleCapacity b)) m2 b2 }
      else Some (output, bytesIndex, sz, (m, b)))"

definition ReadBytes_tail :: "u8 list \<Rightarrow> u32 \<Rightarrow> nat \<Rightarrow> bb_state \<Rightarrow> (u8 list errorable \<times> bb_state) option" where
  "ReadBytes_tail output bytesIndex sz s =
     (case s of (m, b) \<Rightarrow>
        do { chunk \<leftarrow> peek (currentReadBuffer b) (localReaderIndex b) sz m;
             output1 \<leftarrow> overwrite (unat bytesIndex) chunk output;
             Some (SuccessErrorable output1,
                   (m, b\<lparr>localReaderIndex := sz_add (localReaderIndex b) sz,
                         readableBytes := sz_sub (readableBytes b) sz\<rparr>)) })"

definition Impl_ReadBytes :: "u8 list \<Rightarrow> nat \<Rightarrow> bb_state \<Rightarrow> (u8 list errorable \<times> bb_state) option" where
  "Impl_ReadBytes output sz s =
     (if Impl_GetReadableBytes s < sz
      then Some (InvalidArgumentErrorable IncompleteByteArray_T [] (of_nat (Impl_GetReadableBytes s)), s)
      else do { (m, b) \<leftarrow> TryRefreshReaderBuffer s;
                if sz_add (localReaderIndex b) sz > singleCapacity b
                then do { copiedBytes \<leftarrow> Some (sz_sub (singleCapacity b) (localReaderIndex b));
                          chunk \<leftarrow> peek (currentReadBuffer b) (localReaderIndex b) copiedBytes m;
                          output1 \<leftarrow> overwrite 0 chunk output;
                          (m2, b2) \<leftarrow> PopBuffer
                            (m, b\<lparr>readableBytes := sz_sub (readableBytes b) copiedBytes,
                                  localReaderIndex := 0\<rparr>);
                          (output2, bytesIndex, sz1, s3) \<leftarrow>
                            ReadBytes_loop output1 (of_nat copiedBytes) (sz_sub sz copiedBytes) m2 b2;
                          ReadBytes_tail output2 bytesIndex sz1 s3 }
                else ReadBytes_tail output 0 sz (m, b) })"

section \<open>Skipping\<close>

partial_function (option) SkipReadBytes_loop ::
  "nat \<Rightarrow> memory \<Rightarrow> byte_buffer_impl \<Rightarrow> (nat \<times> bb_state) option" where
  "SkipReadBytes_loop count m b =
     (if count > sz_sub (singleCapacity b) (localReaderIndex b)
      then do { (m1, b1) \<leftarrow> PopBuffer (m, b);
                SkipReadBytes_loop (sz_sub count (sz_sub (singleCapacity b) (localReaderIndex b))) m1 b1 }
      else Some (count, (m, b)))"

definition Impl_SkipReadBytes :: "nat \<Rightarrow> bb_state \<Rightarrow> (nat errorable \<times> bb_state) option" where
  "Impl_SkipReadBytes count s =
     (case s of (m, b) \<Rightarrow>
        if count > readableBytes b
        then Some (InvalidArgumentErrorable InvalidReadSkipRequest_T 0 (of_nat count), s)
        else do { (count1, (m1, b1)) \<leftarrow> SkipReadBytes_loop count m
                    (b\<lparr>readableBytes := sz_sub (readableBytes b) count\<rparr>);
                  s2 \<leftarrow> TryRefreshReaderBuffer (m1, b1\<lparr>localReaderIndex := count1\<rparr>);
                  Some (SuccessErrorable count1, s2) })"

text \<open>The loop subtracts a whole page although only the rest of the current page is left.\<close>

partial_function (option) SkipWriteBytes_loop ::
  "nat \<Rightarrow> memory \<Rightarrow> byte_buffer_impl \<Rightarrow> (nat \<times> bb_state) option" where
  "SkipWriteBytes_loop count m b =
     (if count > sz_sub (singleCapacity b) (localWriterIndex b)
      then do { (m1, b1) \<leftarrow> Some (AppendBuffer (m, b));
                SkipWriteBytes_loop (sz_sub count (singleCapacity b)) m1 b1 }
      else Some (count, (m, b)))"

definition Impl_SkipWriteBytes :: "nat \<Rightarrow> bb_state \<Rightarrow> (nat \<times> bb_state) option" where
  "Impl_SkipWriteBytes count s =
     (case s of (m, b) \<Rightarrow>
        do { (count1, (m1, b1)) \<leftarrow> SkipWriteBytes_loop count m
               (b\<lparr>readableBytes := sz_add (readableBytes b) count\<rparr>);
             Some (count1, TryRefreshWriterBuffer (m1, b1\<lparr>localWriterIndex := count1\<rparr>)) })"

section \<open>Two buffers\<close>

text \<open>
  \<open>WriteBytes(ByteBuffer* input, size)\<close>: the input is read into the thread's transfer buffer, whose
  errorable is not looked at, and the transfer buffer is written.
\<close>

definition Impl_WriteBytes_buffer ::
  "nat \<Rightarrow> memory \<times> byte_buffer_impl \<times> byte_buffer_impl
   \<Rightarrow> (memory \<times> byte_buffer_impl \<times> byte_buffer_impl) option" where
  "Impl_WriteBytes_buffer sz w =
     (case w of (m, self, input) \<Rightarrow>
        if sz > MAX_PACKET_SIZE then None
        else do { (e, (m1, input1)) \<leftarrow>
                    Impl_ReadBytes (map (byteBufferWriteBuffer m) [0..<sz]) sz (m, input);
                  m2 \<leftarrow> Some (if IsSuccess e
                              then m1\<lparr>byteBufferWriteBuffer :=
                                     (\<lambda>i. if i < sz then GetValue e ! i else byteBufferWriteBuffer m1 i)\<rparr>
                              else m1);
                  (m3, self1) \<leftarrow>
                    Impl_WriteBytes (map (byteBufferWriteBuffer m2) [0..<sz]) sz (m2, self);
                  Some (m3, self1, input1) })"

end
