(* ===== verification/Ship_Impl_Invariant.thy ===== *)
theory Ship_Impl_Invariant
  imports Ship_ByteBufferImpl
begin

text \<open>
  The invariant of \<open>ByteBufferImpl\<close> and the queue of bytes a state stands for.  The lemmas here are about the
  moves all operations are made of: storing bytes at the writer, reading bytes at the reader, appending a page, dropping the
  front page.  \<open>frame\<close> lemmas say which pages a move leaves alone.
\<close>

section \<open>The queue of a list of pages\<close>

definition queue :: "nat \<Rightarrow> nat \<Rightarrow> u8 list list \<Rightarrow> u8 list" where
  "queue r w ps = drop r (concat (butlast ps) @ take w (last ps))"

lemma length_concat_const: "\<forall>p \<in> set ps. length p = c \<Longrightarrow> length (concat ps) = length ps * c"
  by (induction ps) auto

lemma queue_snoc: "queue r w (ps @ [p]) = drop r (concat ps @ take w p)"
  by (simp add: queue_def)

lemma queue_append_page:
  "ps \<noteq> [] \<Longrightarrow> w = length (last ps) \<Longrightarrow> queue r 0 (ps @ [q]) = queue r w ps"
proof -
  assume "ps \<noteq> []" and w: "w = length (last ps)"
  then have "concat ps = concat (butlast ps) @ last ps"
    by (metis append_butlast_last_id concat.simps concat_append append_Nil2)
  then show ?thesis using w by (simp add: queue_def)
qed

lemma queue_store:
  assumes "overwrite w xs p = Some q" and "r \<le> length (concat ps) + w" and "w \<le> length p"
  shows "queue r (w + length xs) (ps @ [q]) = queue r w (ps @ [p]) @ xs"
  using assms take_overwrite [OF assms(1)] by (simp add: queue_snoc)

lemma queue_pop:
  "ps \<noteq> [] \<Longrightarrow> r = length p \<Longrightarrow> queue 0 w ps = queue r w (p # ps)"
  by (simp add: queue_def)

lemma queue_take_front:
  assumes "ps = [] \<longrightarrow> r + n \<le> w" and "r + n \<le> length p" and "w \<le> length p"
  shows "take n (queue r w (p # ps)) = take n (drop r p)"
  using assms by (cases "ps = []") (simp_all add: queue_def take_drop min_def)

lemma queue_drop: "queue (r + n) w ps = drop n (queue r w ps)"
  by (simp only: queue_def drop_drop add.commute)

section \<open>Invariant and abstraction\<close>

definition page_list :: "memory \<Rightarrow> byte_buffer_impl \<Rightarrow> u8 list list" where
  "page_list m b = map (\<lambda>a. the (pages m a)) (buffers b)"

definition bb_contents :: "bb_state \<Rightarrow> u8 list" where
  "bb_contents s = queue (localReaderIndex (snd s)) (localWriterIndex (snd s)) (page_list (fst s) (snd s))"

definition pages_ok :: "memory \<Rightarrow> byte_buffer_impl \<Rightarrow> bool" where
  "pages_ok m b \<longleftrightarrow>
     0 < singleCapacity b \<and> singleCapacity b \<le> alloc_max \<and>
     buffers b \<noteq> [] \<and> distinct (buffers b) \<and>
     (\<forall>a \<in> set (buffers b). \<exists>p. pages m a = Some p \<and> length p = singleCapacity b) \<and>
     (\<forall>a \<in> dom (pages m). a < next_page m) \<and>
     currentReadBuffer b = hd (buffers b) \<and> currentWriteBuffer b = last (buffers b)"

definition bb_ok :: "bb_state \<Rightarrow> bool" where
  "bb_ok s \<longleftrightarrow> (case s of (m, b) \<Rightarrow>
     pages_ok m b \<and>
     localReaderIndex b \<le> singleCapacity b \<and> localWriterIndex b \<le> singleCapacity b \<and>
     (length (buffers b) = 1 \<longrightarrow> localReaderIndex b \<le> localWriterIndex b) \<and>
     readableBytes b = length (bb_contents s) \<and> readableBytes b < size_max)"

lemma pages_ok_page_list:
  "pages_ok m b \<Longrightarrow> \<forall>p \<in> set (page_list m b). length p = singleCapacity b"
  by (fastforce simp: pages_ok_def page_list_def)

lemma bb_okD:
  assumes "bb_ok (m, b)"
  shows "pages_ok m b" "0 < singleCapacity b" "singleCapacity b \<le> alloc_max"
    "localReaderIndex b \<le> singleCapacity b" "localWriterIndex b \<le> singleCapacity b"
    "readableBytes b = length (bb_contents (m, b))" "readableBytes b < size_max"
  using assms by (auto simp: bb_ok_def pages_ok_def)

text \<open>The back page, and the front page, of a state.\<close>

lemma back_pageE:
  assumes "pages_ok m b"
  obtains as z ps p where "buffers b = as @ [z]" "currentWriteBuffer b = z" "pages m z = Some p"
    "length p = singleCapacity b" "page_list m b = ps @ [p]" "z \<notin> set as"
    "length ps = length as" "\<forall>q \<in> set ps. length q = singleCapacity b"
    "ps = map (\<lambda>a. the (pages m a)) as"
proof -
  obtain as z where b: "buffers b = as @ [z]"
    using assms by (metis append_butlast_last_id pages_ok_def)
  moreover obtain p where "pages m z = Some p" "length p = singleCapacity b"
    using assms b by (auto simp: pages_ok_def)
  ultimately show thesis
    using that [of as z p "map (\<lambda>a. the (pages m a)) as"] pages_ok_page_list [OF assms] assms
    by (auto simp: pages_ok_def page_list_def)
qed

lemma front_pageE:
  assumes "pages_ok m b"
  obtains a rest p where "buffers b = a # rest" "currentReadBuffer b = a" "pages m a = Some p"
    "length p = singleCapacity b" "a \<notin> set rest"
    "page_list m b = p # map (\<lambda>a. the (pages m a)) rest"
proof -
  obtain a rest where b: "buffers b = a # rest"
    using assms by (metis list.exhaust pages_ok_def)
  moreover obtain p where "pages m a = Some p" "length p = singleCapacity b"
    using assms b by (auto simp: pages_ok_def)
  ultimately show thesis
    using that [of a rest p] assms by (auto simp: pages_ok_def page_list_def)
qed

lemma length_bb_contents:
  assumes "pages_ok m b" and "localWriterIndex b \<le> singleCapacity b"
  shows "length (bb_contents (m, b)) =
    (length (buffers b) - 1) * singleCapacity b + localWriterIndex b - localReaderIndex b"
proof -
  from assms(1) obtain as z ps p where "buffers b = as @ [z]" "page_list m b = ps @ [p]"
    "length p = singleCapacity b" "length ps = length as" "\<forall>q \<in> set ps. length q = singleCapacity b"
    by (rule back_pageE)
  then show ?thesis using assms(2) length_concat_const [of ps "singleCapacity b"]
    by (simp add: bb_contents_def queue_snoc del: drop_append)
qed

text \<open>Memory outside the pages of a buffer does not matter to it.\<close>

lemma pages_ok_frame:
  assumes "pages_ok m b" and "\<forall>a \<in> set (buffers b). pages m' a = pages m a"
    and "\<forall>a \<in> dom (pages m'). a < next_page m'"
  shows "pages_ok m' b" and "page_list m' b = page_list m b"
  using assms by (auto simp: pages_ok_def page_list_def)

lemma bb_frame:
  assumes "bb_ok (m, b)" and "\<forall>a \<in> set (buffers b). pages m' a = pages m a"
    and "\<forall>a \<in> dom (pages m'). a < next_page m'"
  shows "bb_ok (m', b)" and "bb_contents (m', b) = bb_contents (m, b)"
proof -
  have ok: "pages_ok m b" using assms(1) by (rule bb_okD(1))
  show "bb_contents (m', b) = bb_contents (m, b)"
    by (simp add: bb_contents_def pages_ok_frame(2) [OF ok assms(2,3)])
  then show "bb_ok (m', b)"
    using assms(1) pages_ok_frame(1) [OF ok assms(2,3)] by (simp add: bb_ok_def)
qed

section \<open>Moves\<close>

lemma new_page_simps:
  "fst (new_page n m) = next_page m"
  "next_page (snd (new_page n m)) = next_page m + 1"
  "pages (snd (new_page n m)) = (pages m)(next_page m \<mapsto> new_array (junk m) n)"
  by (simp_all add: new_page_def)

lemma length_new_array [simp]: "length (new_array j n) = n"
  by (simp add: new_array_def)

lemma AppendBuffer_ok:
  assumes "bb_ok (m, b)" and "localWriterIndex b = singleCapacity b"
  obtains m1 b1 where "AppendBuffer (m, b) = (m1, b1)" "bb_ok (m1, b1)"
    "bb_contents (m1, b1) = bb_contents (m, b)" "localWriterIndex b1 = 0"
    "singleCapacity b1 = singleCapacity b" "readableBytes b1 = readableBytes b"
proof -
  let ?m1 = "snd (new_page (singleCapacity b) m)"
  let ?b1 = "b\<lparr>localWriterIndex := 0, currentWriteBuffer := next_page m, buffers := buffers b @ [next_page m]\<rparr>"
  note ok = bb_okD(1) [OF assms(1)]
  have fresh: "next_page m \<notin> set (buffers b)"
    using ok by (fastforce simp: pages_ok_def)
  have same: "\<forall>a \<in> set (buffers b). pages ?m1 a = pages m a"
    using fresh by (auto simp: new_page_simps)
  have pl: "page_list ?m1 ?b1 = page_list m b @ [new_array (junk m) (singleCapacity b)]"
    using same by (simp add: page_list_def new_page_simps)
  have pok: "pages_ok ?m1 ?b1"
    using ok fresh same by (auto simp: pages_ok_def new_page_simps less_Suc_eq)
  have ne: "page_list m b \<noteq> []"
    using ok by (simp add: page_list_def pages_ok_def)
  then have "last (page_list m b) \<in> set (page_list m b)" by (rule last_in_set)
  with ne have c: "bb_contents (?m1, ?b1) = bb_contents (m, b)"
    using pl pages_ok_page_list [OF ok] assms(2)
    by (simp add: bb_contents_def queue_append_page)
  have "bb_ok (?m1, ?b1)"
    using assms(1) pok c ok by (auto simp: bb_ok_def pages_ok_def)
  then show thesis
    using that [of ?m1 ?b1] c by (simp add: AppendBuffer_def new_page_def)
qed

lemma poke_ok:
  assumes "bb_ok (m, b)" and "localWriterIndex b + length xs \<le> singleCapacity b"
    and "readableBytes b + length xs < size_max"
  obtains m1 where "poke (currentWriteBuffer b) (localWriterIndex b) xs m = Some m1"
    "bb_ok (m1, b\<lparr>localWriterIndex := localWriterIndex b + length xs,
                  readableBytes := readableBytes b + length xs\<rparr>)"
    "bb_contents (m1, b\<lparr>localWriterIndex := localWriterIndex b + length xs,
                        readableBytes := readableBytes b + length xs\<rparr>) = bb_contents (m, b) @ xs"
proof -
  note ok = bb_okD(1) [OF assms(1)]
  let ?b1 = "b\<lparr>localWriterIndex := localWriterIndex b + length xs, readableBytes := readableBytes b + length xs\<rparr>"
  from ok obtain as z ps p where z: "buffers b = as @ [z]" "currentWriteBuffer b = z" "pages m z = Some p"
    "length p = singleCapacity b" "page_list m b = ps @ [p]" "z \<notin> set as"
    "length ps = length as" "\<forall>q \<in> set ps. length q = singleCapacity b"
    and ps: "ps = map (\<lambda>a. the (pages m a)) as"
    by (rule back_pageE)
  obtain q where q: "overwrite (localWriterIndex b) xs p = Some q" "length q = length p"
    using assms(2) z(4) by (metis length_overwrite overwrite_ok)
  let ?m1 = "m\<lparr>pages := (pages m)(z \<mapsto> q)\<rparr>"
  have pl: "page_list ?m1 ?b1 = ps @ [q]"
    using z(1,6) by (auto simp: page_list_def ps)
  have r: "localReaderIndex b \<le> length (concat ps) + localWriterIndex b"
  proof (cases as)
    case Nil
    then show ?thesis using assms(1) z(1) by (simp add: bb_ok_def)
  next
    case (Cons a as')
    have "localReaderIndex b \<le> singleCapacity b" using assms(1) by (rule bb_okD)
    then show ?thesis using Cons z(7) length_concat_const [OF z(8)] by simp
  qed
  have c: "bb_contents (?m1, ?b1) = bb_contents (m, b) @ xs"
    using queue_store [OF q(1) r] bb_okD(5) [OF assms(1)] z(4,5) pl by (simp add: bb_contents_def)
  have "pages_ok ?m1 ?b1"
    using ok z(1-4) q(2) by (auto simp: pages_ok_def)
  then have "bb_ok (?m1, ?b1)"
    using assms c by (auto simp: bb_ok_def)
  then show thesis using that [of ?m1] z(2,3) q(1) c by (simp add: poke_def)
qed

lemma PopBuffer_ok:
  assumes "bb_ok (m, b)" and "localReaderIndex b = singleCapacity b" and "tl (buffers b) \<noteq> []"
  obtains m1 b1 where "PopBuffer (m, b) = Some (m1, b1)" "bb_ok (m1, b1)"
    "bb_contents (m1, b1) = bb_contents (m, b)" "localReaderIndex b1 = 0"
    "singleCapacity b1 = singleCapacity b" "readableBytes b1 = readableBytes b"
    "buffers b1 = tl (buffers b)" "localWriterIndex b1 = localWriterIndex b"
proof -
  note ok = bb_okD(1) [OF assms(1)]
  from ok obtain a rest p where a: "buffers b = a # rest" "currentReadBuffer b = a" "pages m a = Some p"
    "length p = singleCapacity b" "a \<notin> set rest"
    "page_list m b = p # map (\<lambda>a. the (pages m a)) rest" by (rule front_pageE)
  obtain f rest' where rest: "rest = f # rest'" using assms(3) a(1) by (cases rest) auto
  let ?m1 = "m\<lparr>pages := (pages m)(a := None)\<rparr>"
  let ?b1 = "b\<lparr>localReaderIndex := 0, buffers := rest, currentReadBuffer := f\<rparr>"
  have pl: "page_list ?m1 ?b1 = map (\<lambda>a. the (pages m a)) rest"
    using a(5) by (auto simp: page_list_def)
  have c: "bb_contents (?m1, ?b1) = bb_contents (m, b)"
    using queue_pop [of "map (\<lambda>a. the (pages m a)) rest" _ p] a(4,6) assms(2) rest pl
    by (simp add: bb_contents_def)
  have "pages_ok ?m1 ?b1"
    using ok a(1,3,5) rest by (auto simp: pages_ok_def)
  then have "bb_ok (?m1, ?b1)"
    using assms(1) c by (auto simp: bb_ok_def)
  then show thesis
    using that [of ?m1 ?b1] c a(1,3) rest by (simp add: PopBuffer_def delete_page_def)
qed

lemma peek_ok:
  assumes "bb_ok (m, b)" and "localReaderIndex b + n \<le> singleCapacity b" and "n \<le> readableBytes b"
  shows "peek (currentReadBuffer b) (localReaderIndex b) n m = Some (take n (bb_contents (m, b)))"
    and "bb_ok (m, b\<lparr>localReaderIndex := localReaderIndex b + n, readableBytes := readableBytes b - n\<rparr>)"
    and "bb_contents (m, b\<lparr>localReaderIndex := localReaderIndex b + n, readableBytes := readableBytes b - n\<rparr>)
         = drop n (bb_contents (m, b))"
proof -
  note ok = bb_okD(1) [OF assms(1)]
  let ?b1 = "b\<lparr>localReaderIndex := localReaderIndex b + n, readableBytes := readableBytes b - n\<rparr>"
  from ok obtain a rest p where a: "buffers b = a # rest" "currentReadBuffer b = a" "pages m a = Some p"
    "length p = singleCapacity b" "a \<notin> set rest"
    "page_list m b = p # map (\<lambda>a. the (pages m a)) rest" by (rule front_pageE)
  have len: "readableBytes b = length rest * singleCapacity b + localWriterIndex b - localReaderIndex b"
    using bb_okD(6) [OF assms(1)] length_bb_contents [OF ok bb_okD(5) [OF assms(1)]] a(1) by simp
  have single: "rest = [] \<Longrightarrow> localReaderIndex b + n \<le> localWriterIndex b"
    using len assms(1,3) a(1) by (auto simp: bb_ok_def)
  show "peek (currentReadBuffer b) (localReaderIndex b) n m = Some (take n (bb_contents (m, b)))"
    using queue_take_front [of "map (\<lambda>a. the (pages m a)) rest" "localReaderIndex b" n
        "localWriterIndex b" p] single assms(2) a(2,3,4,6) bb_okD(5) [OF assms(1)]
    by (simp add: peek_def bb_contents_def)
  have pl: "page_list m ?b1 = page_list m b" by (simp add: page_list_def)
  show c: "bb_contents (m, ?b1) = drop n (bb_contents (m, b))"
    by (simp add: bb_contents_def pl queue_drop)
  have "pages_ok m ?b1" using ok by (simp add: pages_ok_def)
  then show "bb_ok (m, ?b1)"
    using assms c single a(1) by (auto simp: bb_ok_def)
qed

end
