(* ===== verification/Ship_Impl_Correct.thy ===== *)
theory Ship_Impl_Correct
  imports Ship_Impl_Invariant
begin

text \<open>
  The operations of \<open>ByteBufferImpl\<close> on states that satisfy the invariant: each returns,
  keeps the invariant and acts on the queue of bytes as its name says.  At the end the class meets the contract
  \<open>byte_buffer\<close>, so that all typed readers and writers are correct on it.
\<close>

text \<open>Updates of the counters in one order.\<close>

lemma bb_update_order [simp]:
  "localWriterIndex_update f (readableBytes_update g b) = readableBytes_update g (localWriterIndex_update f b)"
  "localReaderIndex_update f (readableBytes_update g b) = readableBytes_update g (localReaderIndex_update f b)"
  by simp_all

section \<open>Refreshing\<close>

lemma more_pages:
  assumes "bb_ok (m, b)" and "singleCapacity b - localReaderIndex b < readableBytes b"
  shows "tl (buffers b) \<noteq> []"
proof
  assume "tl (buffers b) = []"
  then have one: "length (buffers b) = 1"
    using bb_okD(1) [OF assms(1)] by (cases "buffers b") (auto simp: pages_ok_def)
  have "readableBytes b = localWriterIndex b - localReaderIndex b"
    using bb_okD(6) [OF assms(1)] length_bb_contents [OF bb_okD(1,5) [OF assms(1)]] one by simp
  then show False using assms(2) bb_okD(5) [OF assms(1)] by simp
qed

lemma TryRefreshReaderBuffer_ok:
  assumes "bb_ok (m, b)" and "0 < readableBytes b"
  obtains m1 b1 where "TryRefreshReaderBuffer (m, b) = Some (m1, b1)" "bb_ok (m1, b1)"
    "bb_contents (m1, b1) = bb_contents (m, b)" "localReaderIndex b1 < singleCapacity b1"
    "readableBytes b1 = readableBytes b" "singleCapacity b1 = singleCapacity b"
proof (cases "localReaderIndex b = singleCapacity b")
  case True
  then have "tl (buffers b) \<noteq> []" using more_pages [OF assms(1)] assms(2) by simp
  from PopBuffer_ok [OF assms(1) True this] obtain m1 b1 where
    "PopBuffer (m, b) = Some (m1, b1)" "bb_ok (m1, b1)" "bb_contents (m1, b1) = bb_contents (m, b)"
    "localReaderIndex b1 = 0" "singleCapacity b1 = singleCapacity b" "readableBytes b1 = readableBytes b"
    by metis
  then show thesis
    using that [of m1 b1] True bb_okD(2) [OF assms(1)] by (simp add: TryRefreshReaderBuffer_def)
next
  case False
  then show thesis
    using that [of m b] assms bb_okD(4) [OF assms(1)] by (simp add: TryRefreshReaderBuffer_def)
qed

lemma TryRefreshWriterBuffer_ok:
  assumes "bb_ok (m, b)"
  obtains m1 b1 where "TryRefreshWriterBuffer (m, b) = (m1, b1)" "bb_ok (m1, b1)"
    "bb_contents (m1, b1) = bb_contents (m, b)" "localWriterIndex b1 < singleCapacity b1"
    "readableBytes b1 = readableBytes b" "singleCapacity b1 = singleCapacity b"
proof (cases "localWriterIndex b = singleCapacity b")
  case True
  from AppendBuffer_ok [OF assms True] obtain m1 b1 where
    "AppendBuffer (m, b) = (m1, b1)" "bb_ok (m1, b1)" "bb_contents (m1, b1) = bb_contents (m, b)"
    "localWriterIndex b1 = 0" "singleCapacity b1 = singleCapacity b" "readableBytes b1 = readableBytes b"
    by metis
  then show thesis
    using that [of m1 b1] True bb_okD(2) [OF assms(1)] by (simp add: TryRefreshWriterBuffer_def)
next
  case False
  then show thesis
    using that [of m b] assms bb_okD(5) [OF assms(1)] by (simp add: TryRefreshWriterBuffer_def)
qed

section \<open>Single bytes\<close>

lemma Impl_WriteByte_ok:
  assumes "bb_ok s" and "length (bb_contents s) + 1 < alloc_max"
  shows "holds bb_ok bb_contents (Impl_WriteByte x s) (bb_contents s @ [x])"
proof -
  obtain m b where s: "s = (m, b)" by (cases s)
  obtain m1 b1 where r: "TryRefreshWriterBuffer (m, b) = (m1, b1)" "bb_ok (m1, b1)"
    "bb_contents (m1, b1) = bb_contents (m, b)" "localWriterIndex b1 < singleCapacity b1"
    "readableBytes b1 = readableBytes b" "singleCapacity b1 = singleCapacity b"
    using TryRefreshWriterBuffer_ok [of m b] assms(1) s by metis
  have rd: "readableBytes b1 + 1 < size_max"
    using assms s r(5) bb_okD(6) [of m b] alloc_max_less by simp
  have w: "localWriterIndex b1 + 1 < size_max"
    using r(4) bb_okD(3) [OF r(2)] by (simp add: alloc_max_def size_max_def)
  obtain m2 where m2: "poke (currentWriteBuffer b1) (localWriterIndex b1) [x] m1 = Some m2"
    "bb_ok (m2, b1\<lparr>localWriterIndex := localWriterIndex b1 + 1, readableBytes := readableBytes b1 + 1\<rparr>)"
    "bb_contents (m2, b1\<lparr>localWriterIndex := localWriterIndex b1 + 1, readableBytes := readableBytes b1 + 1\<rparr>)
      = bb_contents (m1, b1) @ [x]"
    using poke_ok [OF r(2), of "[x]"] r(4) rd by auto
  then show ?thesis
    using r(1,3) rd w by (simp add: s Impl_WriteByte_def holds_def)
qed

lemma Impl_ReadByteUnsafe_ok:
  assumes "bb_ok s" and "bb_contents s = x # xs"
  shows "gives bb_ok bb_contents (Impl_ReadByteUnsafe s) x xs"
proof -
  obtain m b where s: "s = (m, b)" by (cases s)
  have pos: "0 < readableBytes b" using assms bb_okD(6) [of m b] s by simp
  obtain m1 b1 where r: "TryRefreshReaderBuffer (m, b) = Some (m1, b1)" "bb_ok (m1, b1)"
    "bb_contents (m1, b1) = bb_contents (m, b)" "localReaderIndex b1 < singleCapacity b1"
    "readableBytes b1 = readableBytes b" "singleCapacity b1 = singleCapacity b"
    using TryRefreshReaderBuffer_ok [of m b] assms(1) s pos by metis
  have w: "localReaderIndex b1 + 1 < size_max"
    using r(4) bb_okD(3) [OF r(2)] by (simp add: alloc_max_def size_max_def)
  have rd: "1 \<le> readableBytes b1" "readableBytes b1 < size_max"
    using pos r(5) bb_okD(7) [OF r(2)] by simp_all
  have le: "localReaderIndex b1 + 1 \<le> singleCapacity b1" using r(4) by simp
  note p = peek_ok [OF r(2) le rd(1)]
  have "gives bb_ok bb_contents (Impl_ReadByteUnsafe s)
      (hd (take 1 (bb_contents (m1, b1)))) (drop 1 (bb_contents (m1, b1)))"
    using p r(1) w rd by (simp add: s Impl_ReadByteUnsafe_def gives_def)
  then show ?thesis using r(3) assms(2) s by simp
qed

section \<open>Writing blocks\<close>

lemma store_page_ok:
  assumes "bb_ok (m, b)" and "length xs = singleCapacity b - localWriterIndex b"
    and "readableBytes b + length xs < size_max"
  obtains m1 m2 b2 where "poke (currentWriteBuffer b) (localWriterIndex b) xs m = Some m1"
    "AppendBuffer (m1, b\<lparr>readableBytes := readableBytes b + length xs, localWriterIndex := 0\<rparr>) = (m2, b2)"
    "bb_ok (m2, b2)" "bb_contents (m2, b2) = bb_contents (m, b) @ xs"
    "localWriterIndex b2 = 0" "singleCapacity b2 = singleCapacity b"
    "readableBytes b2 = readableBytes b + length xs"
proof -
  let ?b1 = "b\<lparr>localWriterIndex := localWriterIndex b + length xs,
               readableBytes := readableBytes b + length xs\<rparr>"
  have full: "localWriterIndex b + length xs = singleCapacity b"
    using assms(2) bb_okD(5) [OF assms(1)] by simp
  obtain m1 where m1: "poke (currentWriteBuffer b) (localWriterIndex b) xs m = Some m1"
    "bb_ok (m1, ?b1)" "bb_contents (m1, ?b1) = bb_contents (m, b) @ xs"
    using poke_ok [OF assms(1) _ assms(3)] full by (metis order_refl)
  obtain m2 b2 where "AppendBuffer (m1, ?b1) = (m2, b2)" "bb_ok (m2, b2)"
    "bb_contents (m2, b2) = bb_contents (m1, ?b1)" "localWriterIndex b2 = 0"
    "singleCapacity b2 = singleCapacity ?b1" "readableBytes b2 = readableBytes ?b1"
    using AppendBuffer_ok [OF m1(2)] full by auto
  moreover have "AppendBuffer (m1, b\<lparr>readableBytes := readableBytes b + length xs, localWriterIndex := 0\<rparr>)
      = AppendBuffer (m1, ?b1)"
    by (simp add: AppendBuffer_def)
  ultimately show thesis using that m1 by simp
qed

lemma WriteBytes_loop_ok:
  assumes "bb_ok (m, b)" and "localWriterIndex b = 0" and "idx + sz \<le> length input"
    and "length input < size_max" and "readableBytes b + sz < size_max"
  shows "\<exists>idx' sz' m' b'. WriteBytes_loop input idx sz m b = Some (idx', sz', (m', b')) \<and>
    bb_ok (m', b') \<and> localWriterIndex b' = 0 \<and> singleCapacity b' = singleCapacity b \<and>
    sz' \<le> singleCapacity b \<and> sz' \<le> sz \<and> idx' = idx + (sz - sz') \<and>
    readableBytes b' = readableBytes b + (sz - sz') \<and>
    bb_contents (m', b') = bb_contents (m, b) @ take (sz - sz') (drop idx input)"
  using assms
proof (induction sz arbitrary: idx m b rule: less_induct)
  case (less sz)
  let ?c = "singleCapacity b"
  show ?case
  proof (cases "?c < sz")
    case False
    then show ?thesis using less.prems
      by (intro exI [of _ idx] exI [of _ sz] exI [of _ m] exI [of _ b])
         (simp add: WriteBytes_loop.simps)
  next
    case True
    let ?xs = "take ?c (drop idx input)"
    have cpos: "0 < ?c" using less.prems(1) by (rule bb_okD)
    have lx: "length ?xs = ?c - localWriterIndex b" using True less.prems(2,3) by simp
    have rd: "readableBytes b + length ?xs < size_max"
      using True lx less.prems(2,5) by simp
    obtain m1 m2 b2 where st: "poke (currentWriteBuffer b) (localWriterIndex b) ?xs m = Some m1"
      "AppendBuffer (m1, b\<lparr>readableBytes := readableBytes b + length ?xs, localWriterIndex := 0\<rparr>) = (m2, b2)"
      "bb_ok (m2, b2)" "bb_contents (m2, b2) = bb_contents (m, b) @ ?xs" "localWriterIndex b2 = 0"
      "singleCapacity b2 = ?c" "readableBytes b2 = readableBytes b + length ?xs"
      using store_page_ok [OF less.prems(1) lx rd] by metis
    have lxc: "length ?xs = ?c" using lx less.prems(2) by simp
    have step: "WriteBytes_loop input idx sz m b = WriteBytes_loop input (idx + ?c) (sz - ?c) m2 b2"
      using True st(1,2) lxc less.prems(3-5)
      by (subst WriteBytes_loop.simps) (simp add: slice_of_def)
    obtain idx' sz' m' b' where ih: "WriteBytes_loop input (idx + ?c) (sz - ?c) m2 b2 = Some (idx', sz', (m', b'))"
      "bb_ok (m', b')" "localWriterIndex b' = 0" "singleCapacity b' = singleCapacity b2"
      "sz' \<le> singleCapacity b2" "sz' \<le> sz - ?c" "idx' = idx + ?c + (sz - ?c - sz')"
      "readableBytes b' = readableBytes b2 + (sz - ?c - sz')"
      "bb_contents (m', b') = bb_contents (m2, b2) @ take (sz - ?c - sz') (drop (idx + ?c) input)"
      using less.IH [of "sz - ?c" m2 b2 "idx + ?c"] True cpos st(3,5,7) lxc less.prems(3-5) by auto
    have "take (sz - sz') (drop idx input) = ?xs @ take (sz - ?c - sz') (drop (idx + ?c) input)"
      using True ih(6) take_add [of ?c "sz - ?c - sz'" "drop idx input"] by (simp add: add.commute)
    then show ?thesis
      using ih st(4,6,7) lxc step True
      by (intro exI [of _ idx'] exI [of _ sz'] exI [of _ m'] exI [of _ b']) simp
  qed
qed

lemma WriteBytes_tail_ok:
  assumes "bb_ok (m, b)" and "localWriterIndex b + sz \<le> singleCapacity b"
    and "idx + sz \<le> length input" and "readableBytes b + sz < size_max"
  shows "holds bb_ok bb_contents (WriteBytes_tail input idx sz (m, b))
    (bb_contents (m, b) @ take sz (drop idx input))"
proof -
  let ?xs = "take sz (drop idx input)"
  have lx: "length ?xs = sz" using assms(3) by simp
  have "localWriterIndex b + sz < size_max"
    using assms(2) bb_okD(3) [OF assms(1)] by (simp add: alloc_max_def size_max_def)
  moreover obtain m1 where "poke (currentWriteBuffer b) (localWriterIndex b) ?xs m = Some m1"
    "bb_ok (m1, b\<lparr>localWriterIndex := localWriterIndex b + sz, readableBytes := readableBytes b + sz\<rparr>)"
    "bb_contents (m1, b\<lparr>localWriterIndex := localWriterIndex b + sz, readableBytes := readableBytes b + sz\<rparr>)
      = bb_contents (m, b) @ ?xs"
    using poke_ok [OF assms(1), of ?xs] assms(2,4) lx by auto
  ultimately show ?thesis
    using assms by (simp add: WriteBytes_tail_def holds_def slice_of_def)
qed

lemma Impl_WriteBytes_ok:
  assumes "bb_ok s" and "length (bb_contents s) + length xs < alloc_max"
  shows "holds bb_ok bb_contents (Impl_WriteBytes xs (length xs) s) (bb_contents s @ xs)"
proof -
  obtain m b where s: "s = (m, b)" by (cases s)
  obtain m1 b1 where r: "TryRefreshWriterBuffer (m, b) = (m1, b1)" "bb_ok (m1, b1)"
    "bb_contents (m1, b1) = bb_contents (m, b)" "localWriterIndex b1 < singleCapacity b1"
    "readableBytes b1 = readableBytes b" "singleCapacity b1 = singleCapacity b"
    using TryRefreshWriterBuffer_ok [of m b] assms(1) s by metis
  let ?c = "singleCapacity b1" and ?w = "localWriterIndex b1"
  have xs: "length xs < alloc_max" "length xs < size_max"
    using assms(2) by (simp_all add: alloc_max_less)
  have rd: "readableBytes b1 + length xs < size_max"
    using assms s r(5) bb_okD(6) [of m b] alloc_max_less by simp
  have ws: "sz_add ?w (length xs) = ?w + length xs"
    using r(4) bb_okD(3) [OF r(2)] xs(1) alloc_max_add [of ?w "length xs"] by simp
  have cs: "sz_sub ?c ?w = ?c - ?w"
    using r(4) bb_okD(3) [OF r(2)] by (simp add: alloc_max_def size_max_def)
  show ?thesis
  proof (cases "?w + length xs > ?c")
    case False
    then have "Impl_WriteBytes xs (length xs) s = WriteBytes_tail xs 0 (length xs) (m1, b1)"
      by (simp add: s Impl_WriteBytes_def r(1) ws)
    then show ?thesis
      using WriteBytes_tail_ok [OF r(2), of "length xs" 0 xs] False rd r(3) s by simp
  next
    case True
    let ?k = "?c - ?w"
    have kle: "?k \<le> length xs" using True by simp
    then have lx: "length (take ?k xs) = ?k" by simp
    have rdk: "readableBytes b1 + length (take ?k xs) < size_max" using rd by simp
    obtain m2 m3 b3 where st: "poke (currentWriteBuffer b1) ?w (take ?k xs) m1 = Some m2"
      "AppendBuffer (m2, b1\<lparr>readableBytes := readableBytes b1 + length (take ?k xs), localWriterIndex := 0\<rparr>) = (m3, b3)"
      "bb_ok (m3, b3)" "bb_contents (m3, b3) = bb_contents (m1, b1) @ take ?k xs" "localWriterIndex b3 = 0"
      "singleCapacity b3 = ?c" "readableBytes b3 = readableBytes b1 + length (take ?k xs)"
      using store_page_ok [OF r(2) lx rdk] by metis
    obtain idx' sz' m' b' where lp: "WriteBytes_loop xs ?k (length xs - ?k) m3 b3 = Some (idx', sz', (m', b'))"
      "bb_ok (m', b')" "localWriterIndex b' = 0" "singleCapacity b' = ?c"
      "sz' \<le> ?c" "sz' \<le> length xs - ?k" "idx' = ?k + (length xs - ?k - sz')"
      "readableBytes b' = readableBytes b3 + (length xs - ?k - sz')"
      "bb_contents (m', b') = bb_contents (m3, b3) @ take (length xs - ?k - sz') (drop ?k xs)"
      using WriteBytes_loop_ok [OF st(3,5), of ?k "length xs - ?k" xs] st(6,7) xs(2) True rd lx by auto
    have "Impl_WriteBytes xs (length xs) s = WriteBytes_tail xs idx' sz' (m', b')"
      using st(1,2) lp(1) lx kle True xs(2) rd
      by (simp add: s Impl_WriteBytes_def r(1) ws cs slice_of_def)
    moreover have "holds bb_ok bb_contents (WriteBytes_tail xs idx' sz' (m', b'))
        (bb_contents (m', b') @ take sz' (drop idx' xs))"
      using lp True rd st(7) lx by (intro WriteBytes_tail_ok) simp_all
    moreover have "bb_contents (m', b') @ take sz' (drop idx' xs) = bb_contents s @ xs"
    proof -
      have "take (length xs - ?k - sz') (drop ?k xs) @ take sz' (drop idx' xs) = drop ?k xs"
        using lp(6,7) True take_add [of "length xs - ?k - sz'" sz' "drop ?k xs"] by (simp add: add.commute)
      then show ?thesis by (simp add: lp(9) st(4) r(3) s)
    qed
    ultimately show ?thesis by simp
  qed
qed

section \<open>Reading blocks\<close>

lemma load_page_ok:
  assumes "bb_ok (m, b)" and "n = singleCapacity b - localReaderIndex b" and "n < readableBytes b"
  obtains m2 b2 where "peek (currentReadBuffer b) (localReaderIndex b) n m = Some (take n (bb_contents (m, b)))"
    "PopBuffer (m, b\<lparr>readableBytes := readableBytes b - n, localReaderIndex := 0\<rparr>) = Some (m2, b2)"
    "bb_ok (m2, b2)" "bb_contents (m2, b2) = drop n (bb_contents (m, b))"
    "localReaderIndex b2 = 0" "singleCapacity b2 = singleCapacity b"
    "readableBytes b2 = readableBytes b - n"
proof -
  let ?b1 = "b\<lparr>localReaderIndex := localReaderIndex b + n, readableBytes := readableBytes b - n\<rparr>"
  have full: "localReaderIndex b + n = singleCapacity b"
    using assms(2) bb_okD(4) [OF assms(1)] by simp
  then have le: "localReaderIndex b + n \<le> singleCapacity b" by simp
  note p = peek_ok [OF assms(1) le less_imp_le [OF assms(3)]]
  have "tl (buffers b) \<noteq> []" using assms by (intro more_pages) simp_all
  then have tr: "tl (buffers ?b1) \<noteq> []" and lr: "localReaderIndex ?b1 = singleCapacity ?b1"
    using full by simp_all
  obtain m2 b2 where "PopBuffer (m, ?b1) = Some (m2, b2)" "bb_ok (m2, b2)"
    "bb_contents (m2, b2) = bb_contents (m, ?b1)" "localReaderIndex b2 = 0"
    "singleCapacity b2 = singleCapacity ?b1" "readableBytes b2 = readableBytes ?b1"
    using PopBuffer_ok [OF p(2) lr tr] by metis
  moreover have "PopBuffer (m, b\<lparr>readableBytes := readableBytes b - n, localReaderIndex := 0\<rparr>)
      = PopBuffer (m, ?b1)"
    by (cases b) (simp add: PopBuffer_def cong: list.case_cong)
  ultimately show thesis using that p by simp
qed

lemma take_overwrite_prefix:
  assumes "overwrite i ys xs = Some zs" and "j \<le> i"
  shows "take j zs = take j xs"
  using assms by (auto simp: overwrite_def min_def split: if_splits)

lemma u32_exact: "n < 2 ^ 32 \<Longrightarrow> unat (of_nat n :: u32) = n"
  by (simp add: unat_of_nat take_bit_nat_eq_self)

lemma u32_add_exact:
  "unat (i :: u32) + n < 2 ^ 32 \<Longrightarrow> unat (i + of_nat n) = unat i + n"
  by (simp add: unat_word_ariths unat_of_nat take_bit_nat_eq_self mod_less)

lemma ReadBytes_loop_ok:
  assumes "bb_ok (m, b)" and "localReaderIndex b = 0" and "0 < sz" and "sz \<le> readableBytes b"
    and "unat idx + sz = length out" and "length out < 2 ^ 32"
  shows "\<exists>out' idx' sz' m' b'. ReadBytes_loop out idx sz m b = Some (out', idx', sz', (m', b')) \<and>
    bb_ok (m', b') \<and> localReaderIndex b' = 0 \<and> singleCapacity b' = singleCapacity b \<and>
    0 < sz' \<and> sz' \<le> singleCapacity b \<and> sz' \<le> sz \<and> unat idx' = unat idx + (sz - sz') \<and>
    length out' = length out \<and>
    readableBytes b' = readableBytes b - (sz - sz') \<and>
    bb_contents (m', b') = drop (sz - sz') (bb_contents (m, b)) \<and>
    take (unat idx') out' = take (unat idx) out @ take (sz - sz') (bb_contents (m, b))"
  using assms
proof (induction sz arbitrary: idx m b out rule: less_induct)
  case (less sz)
  let ?c = "singleCapacity b"
  show ?case
  proof (cases "?c < sz")
    case False
    then show ?thesis using less.prems
      by (intro exI [of _ out] exI [of _ idx] exI [of _ sz] exI [of _ m] exI [of _ b])
         (simp add: ReadBytes_loop.simps)
  next
    case True
    let ?xs = "take ?c (bb_contents (m, b))"
    have cpos: "0 < ?c" using less.prems(1) by (rule bb_okD)
    have c: "?c = ?c - localReaderIndex b" and cr: "?c < readableBytes b"
      using less.prems(2,4) True by simp_all
    obtain m2 b2 where st: "peek (currentReadBuffer b) (localReaderIndex b) ?c m = Some ?xs"
      "PopBuffer (m, b\<lparr>readableBytes := readableBytes b - ?c, localReaderIndex := 0\<rparr>) = Some (m2, b2)"
      "bb_ok (m2, b2)" "bb_contents (m2, b2) = drop ?c (bb_contents (m, b))"
      "localReaderIndex b2 = 0" "singleCapacity b2 = ?c" "readableBytes b2 = readableBytes b - ?c"
      using load_page_ok [OF less.prems(1) c cr] by metis
    have lx: "length ?xs = ?c" using cr bb_okD(6) [OF less.prems(1)] by simp
    then obtain out1 where out1: "overwrite (unat idx) ?xs out = Some out1"
      using less.prems(5) True by (metis add_le_cancel_left less_imp_le overwrite_ok)
    have lo: "length out1 = length out" using out1 by (rule length_overwrite)
    have idx: "unat (idx + of_nat ?c) = unat idx + ?c"
      using less.prems(5,6) True by (intro u32_add_exact) simp
    have ssz: "sz < size_max" using less.prems(4) bb_okD(7) [OF less.prems(1)] by simp
    have srd: "sz_sub (readableBytes b) ?c = readableBytes b - ?c"
      using cr bb_okD(7) [OF less.prems(1)] by simp
    have step: "ReadBytes_loop out idx sz m b = ReadBytes_loop out1 (idx + of_nat ?c) (sz - ?c) m2 b2"
      using True st(1,2) out1 ssz less.prems(2)
      by (subst ReadBytes_loop.simps) (simp add: srd)
    have pre: "sz - ?c < sz" "0 < sz - ?c" "sz - ?c \<le> readableBytes b2"
      "unat (idx + of_nat ?c) + (sz - ?c) = length out1" "length out1 < 2 ^ 32"
      using idx less.prems(4-6) True lo cpos st(7) by simp_all
    obtain out' idx' sz' m' b' where ih:
      "ReadBytes_loop out1 (idx + of_nat ?c) (sz - ?c) m2 b2 = Some (out', idx', sz', (m', b'))"
      "bb_ok (m', b')" "localReaderIndex b' = 0" "singleCapacity b' = singleCapacity b2" "0 < sz'"
      "sz' \<le> singleCapacity b2" "sz' \<le> sz - ?c" "unat idx' = unat (idx + of_nat ?c) + (sz - ?c - sz')"
      "length out' = length out1" "readableBytes b' = readableBytes b2 - (sz - ?c - sz')"
      "bb_contents (m', b') = drop (sz - ?c - sz') (bb_contents (m2, b2))"
      "take (unat idx') out' = take (unat (idx + of_nat ?c)) out1 @ take (sz - ?c - sz') (bb_contents (m2, b2))"
      using less.IH [OF pre(1) st(3,5) pre(2-5)] by blast
    have split: "take (sz - sz') (bb_contents (m, b)) = ?xs @ take (sz - ?c - sz') (drop ?c (bb_contents (m, b)))"
      using True ih(7) take_add [of ?c "sz - ?c - sz'" "bb_contents (m, b)"] by simp
    have "take (unat idx + ?c) out1 = take (unat idx) out @ ?xs"
      using take_overwrite [OF out1] lx by simp
    then have t: "take (unat idx') out' = take (unat idx) out @ take (sz - sz') (bb_contents (m, b))"
      using ih(12) idx st(4) split by simp
    have d: "bb_contents (m', b') = drop (sz - sz') (bb_contents (m, b))"
      using ih(7,11) st(4) True by (simp add: add.commute)
    show ?thesis
      using ih(2-10) st(6,7) idx step ih(1) t d lo True
      by (intro exI [of _ out'] exI [of _ idx'] exI [of _ sz'] exI [of _ m'] exI [of _ b']) simp
  qed
qed

lemma ReadBytes_tail_ok:
  assumes "bb_ok (m, b)" and "localReaderIndex b + sz \<le> singleCapacity b" and "sz \<le> readableBytes b"
    and "unat idx + sz = length out"
  shows "gives bb_ok bb_contents (ReadBytes_tail out idx sz (m, b))
    (SuccessErrorable (take (unat idx) out @ take sz (bb_contents (m, b)))) (drop sz (bb_contents (m, b)))"
proof -
  note p = peek_ok [OF assms(1-3)]
  have "localReaderIndex b + sz < size_max"
    using assms(2) bb_okD(3) [OF assms(1)] by (simp add: alloc_max_def size_max_def)
  moreover have "length (take sz (bb_contents (m, b))) = sz"
    using assms(3) bb_okD(6) [OF assms(1)] by simp
  ultimately show ?thesis
    using p assms(3,4) bb_okD(7) [OF assms(1)]
    by (simp add: ReadBytes_tail_def gives_def)
qed

lemma Impl_ReadBytes_ok:
  assumes "bb_ok s" and "0 < n" and "n \<le> length (bb_contents s)" and "n < 2 ^ 32" and "length out = n"
  shows "gives bb_ok bb_contents (Impl_ReadBytes out n s)
    (SuccessErrorable (take n (bb_contents s))) (drop n (bb_contents s))"
proof -
  obtain m b where s: "s = (m, b)" by (cases s)
  have rd0: "readableBytes b = length (bb_contents s)" "readableBytes b < size_max"
    using assms(1) bb_okD(6,7) [of m b] s by simp_all
  have pos: "0 < readableBytes b" unfolding rd0(1) using assms(2,3) by linarith
  obtain m1 b1 where r: "TryRefreshReaderBuffer (m, b) = Some (m1, b1)" "bb_ok (m1, b1)"
    "bb_contents (m1, b1) = bb_contents (m, b)" "localReaderIndex b1 < singleCapacity b1"
    "readableBytes b1 = readableBytes b" "singleCapacity b1 = singleCapacity b"
    using TryRefreshReaderBuffer_ok [of m b] assms(1) s pos by metis
  let ?c = "singleCapacity b1" and ?r = "localReaderIndex b1"
  have not_short: "\<not> Impl_GetReadableBytes s < n"
    using rd0 assms(3) by (simp add: Impl_GetReadableBytes_def s)
  have "n < alloc_max" using assms(4) by (simp add: alloc_max_def)
  then have ws: "sz_add ?r n = ?r + n"
    using r(4) bb_okD(3) [OF r(2)] alloc_max_add [of ?r n] by simp
  have cs: "sz_sub ?c ?r = ?c - ?r"
    using r(4) bb_okD(3) [OF r(2)] by (simp add: alloc_max_def size_max_def)
  have nr: "n \<le> readableBytes b1" using assms(3) rd0 r(5) s by simp
  show ?thesis
  proof (cases "?r + n > ?c")
    case False
    then have "Impl_ReadBytes out n s = ReadBytes_tail out 0 n (m1, b1)"
      using not_short by (simp add: s Impl_ReadBytes_def r(1) ws)
    then show ?thesis
      using ReadBytes_tail_ok [OF r(2), of n 0 out] False nr assms(5) r(3) s by simp
  next
    case True
    obtain k where k: "k = ?c - ?r" by simp
    have kn: "k < n" "0 < k" using True r(4) k by simp_all
    have ck: "sz_sub ?c ?r = k" using cs k by simp
    have kr: "k < readableBytes b1" using kn nr by linarith
    obtain m2 b2 where st: "peek (currentReadBuffer b1) ?r k m1 = Some (take k (bb_contents (m1, b1)))"
      "PopBuffer (m1, b1\<lparr>readableBytes := readableBytes b1 - k, localReaderIndex := 0\<rparr>) = Some (m2, b2)"
      "bb_ok (m2, b2)" "bb_contents (m2, b2) = drop k (bb_contents (m1, b1))"
      "localReaderIndex b2 = 0" "singleCapacity b2 = ?c" "readableBytes b2 = readableBytes b1 - k"
      using load_page_ok [OF r(2) k kr] by metis
    have lx: "length (take k (bb_contents (m1, b1))) = k"
      using kn nr bb_okD(6) [OF r(2)] by simp
    then obtain out1 where out1: "overwrite 0 (take k (bb_contents (m1, b1))) out = Some out1"
      using kn assms(5) by (metis add_0 less_imp_le overwrite_ok)
    have lo: "length out1 = n" using length_overwrite [OF out1] assms(5) by simp
    have uk: "unat (of_nat k :: u32) = k"
      using kn assms(4) by (intro u32_exact) simp
    have pre: "0 < n - k" "n - k \<le> readableBytes b2" "unat (of_nat k :: u32) + (n - k) = length out1"
      "length out1 < 2 ^ 32"
      using kn nr st(7) uk lo assms(4) by simp_all
    obtain out' idx' sz' m' b' where lp:
      "ReadBytes_loop out1 (of_nat k) (n - k) m2 b2 = Some (out', idx', sz', (m', b'))"
      "bb_ok (m', b')" "localReaderIndex b' = 0" "singleCapacity b' = singleCapacity b2" "0 < sz'"
      "sz' \<le> singleCapacity b2" "sz' \<le> n - k" "unat idx' = unat (of_nat k :: u32) + (n - k - sz')"
      "length out' = length out1" "readableBytes b' = readableBytes b2 - (n - k - sz')"
      "bb_contents (m', b') = drop (n - k - sz') (bb_contents (m2, b2))"
      "take (unat idx') out' = take (unat (of_nat k :: u32)) out1 @ take (n - k - sz') (bb_contents (m2, b2))"
      using ReadBytes_loop_ok [OF st(3,5) pre] by blast
    have srd: "sz_sub (readableBytes b1) k = readableBytes b1 - k"
      using kn nr bb_okD(7) [OF r(2)] by (intro sz_sub_exact) simp_all
    have ssn: "sz_sub n k = n - k"
      using kn alloc_max_less [OF \<open>n < alloc_max\<close>] by (intro sz_sub_exact) simp_all
    have eq: "Impl_ReadBytes out n s = ReadBytes_tail out' idx' sz' (m', b')"
      using True
      by (simp only: Impl_ReadBytes_def s not_short [unfolded s] if_False if_True r(1) ws ck st(1,2)
          out1 srd ssn lp(1) Option.bind.simps prod.case)
    have fin: "gives bb_ok bb_contents (ReadBytes_tail out' idx' sz' (m', b'))
        (SuccessErrorable (take (unat idx') out' @ take sz' (bb_contents (m', b')))) (drop sz' (bb_contents (m', b')))"
      using lp pre uk lo kn by (intro ReadBytes_tail_ok) simp_all
    have o1: "take k out1 = take k (bb_contents (m1, b1))"
      using take_overwrite [OF out1] lx by simp
    let ?q = "bb_contents (m1, b1)"
    have "take (unat idx') out' @ take sz' (bb_contents (m', b')) = take n ?q"
    proof -
      have "take n ?q = take k ?q @ take (n - k) (drop k ?q)"
        using take_add [of k "n - k" ?q] kn by simp
      also have "take (n - k) (drop k ?q) = take (n - k - sz') (drop k ?q) @ take sz' (drop (n - k - sz') (drop k ?q))"
        using take_add [of "n - k - sz'" sz' "drop k ?q"] by (simp only: le_add_diff_inverse2 [OF lp(7)])
      finally show ?thesis
        by (simp only: lp(11,12) uk o1 st(4) append_assoc)
    qed
    moreover have "drop sz' (bb_contents (m', b')) = drop n ?q"
      using lp(7,11) st(4) kn by (simp add: add.commute)
    ultimately show ?thesis using fin eq r(3) s by simp
  qed
qed

lemma Impl_ReadBytes_short:
  "bb_ok s \<Longrightarrow> length (bb_contents s) < n \<Longrightarrow>
   Impl_ReadBytes out n s = Some (InvalidArgumentErrorable IncompleteByteArray_T [] (of_nat (length (bb_contents s))), s)"
  by (cases s) (auto simp: Impl_ReadBytes_def Impl_GetReadableBytes_def bb_okD(6))

section \<open>The contract\<close>

interpretation impl: byte_buffer Impl_WriteByte bb_contents bb_ok Impl_ReadByteUnsafe
  Impl_GetReadableBytes Impl_WriteBytes Impl_ReadBytes
proof (unfold_locales, goal_cases)
  case (1 s b)
  then show ?case by (rule Impl_WriteByte_ok)
next
  case (2 s)
  then show ?case by (cases s) (simp add: Impl_GetReadableBytes_def bb_okD(6))
next
  case (3 s b bs)
  then show ?case by (rule Impl_ReadByteUnsafe_ok)
next
  case (4 s xs)
  then show ?case by (rule Impl_WriteBytes_ok)
next
  case (5 s n out)
  then show ?case by (rule Impl_ReadBytes_ok)
next
  case (6 s n out)
  then show ?case by (rule Impl_ReadBytes_short)
qed

end
