(* ===== verification/Ship_Impl_Props.thy ===== *)
theory Ship_Impl_Props
  imports Ship_Impl_Correct
begin

text \<open>
  What \<open>ByteBufferImpl\<close> does as a whole: a new buffer meets the invariant, and through the
  interpretation of the contract every lemma about the typed readers and writers holds of it.  The last
  sections are about the operations the contract leaves out.
\<close>

section \<open>A new buffer\<close>

definition mem_ok :: "memory \<Rightarrow> bool" where
  "mem_ok m \<longleftrightarrow> (\<forall>a \<in> dom (pages m). a < next_page m)"

definition mem0 :: memory where
  "mem0 = \<lparr>next_page = 0, pages = Map.empty, junk = (\<lambda>_. 0xAA), byteBufferWriteBuffer = (\<lambda>_. 0xBB)\<rparr>"

lemma mem0_ok [simp]: "mem_ok mem0"
  by (simp add: mem_ok_def mem0_def)

lemma ByteBufferImpl_new_ok:
  assumes "mem_ok m" and "0 < cap" and "cap \<le> alloc_max"
  shows "bb_ok (ByteBufferImpl_new cap m)" and "bb_contents (ByteBufferImpl_new cap m) = []"
proof -
  show "bb_contents (ByteBufferImpl_new cap m) = []"
    by (simp add: ByteBufferImpl_new_def new_page_def bb_contents_def queue_def page_list_def)
  then show "bb_ok (ByteBufferImpl_new cap m)"
    using assms
    by (auto simp: ByteBufferImpl_new_def new_page_def bb_ok_def pages_ok_def mem_ok_def less_Suc_eq
        size_max_def)
qed

lemma mem0_new_ok:
  "bb_ok (ByteBufferImpl_new 2 mem0)" "bb_contents (ByteBufferImpl_new 2 mem0) = []"
  by (rule ByteBufferImpl_new_ok; simp add: alloc_max_def)+

abbreviation run_impl :: "buffer_op list \<Rightarrow> bb_state \<Rightarrow> (outcome list \<times> bb_state) option" where
  "run_impl \<equiv> run_ops Impl_WriteByte Impl_WriteBytes Impl_ReadByteUnsafe Impl_GetReadableBytes
     Impl_ReadBytes (\<lambda>_. 0)"



section \<open>Strings\<close>

lemma length_leb128_u32: "n < 2 ^ 32 \<Longrightarrow> length (leb128 n) \<le> 5"
  using length_leb128_le [of 5 n] by simp

text \<open>C15.  A non-empty string never survives \<open>WriteString\<close> and \<open>ReadString\<close>: the reader takes the
  bytes for a C string although the writer appends no NUL.  A string with a NUL comes back cut at it,
  and for one without the reader runs past the end of its array (no result).\<close>

theorem string_never_survives:
  assumes "bb_ok s" and "bb_contents s = []" and "str \<noteq> []" and "length str \<le> unat max_size"
  shows "\<exists>s1. WriteString Impl_WriteByte Impl_WriteBytes str s = Some s1 \<and>
    (if 0 \<in> set str
     then gives bb_ok bb_contents (ReadString Impl_ReadByteUnsafe Impl_GetReadableBytes Impl_ReadBytes j max_size s1)
            (SuccessErrorable (takeWhile (\<lambda>b. b \<noteq> 0) str)) []
          \<and> takeWhile (\<lambda>b. b \<noteq> 0) str \<noteq> str
     else ReadString Impl_ReadByteUnsafe Impl_GetReadableBytes Impl_ReadBytes j max_size s1 = None)"
proof -
  have lt: "length str < 2 ^ 32" using assms(4) unat_bounds(3) [of max_size] by simp
  then have "length (bb_contents s) + length (leb128 (length str)) + length str < alloc_max"
    using length_leb128_u32 [OF lt] assms(2) by (simp add: alloc_max_def)
  from impl.WriteString_law [OF assms(1) this lt] obtain s1 where s1:
    "WriteString Impl_WriteByte Impl_WriteBytes str s = Some s1" "bb_ok s1"
    "bb_contents s1 = leb128 (length str) @ str @ []"
    using assms(2) by (auto elim: holdsE)
  have "takeWhile (\<lambda>b. b \<noteq> 0) str \<noteq> str" if "0 \<in> set str"
    using that by (metis (mono_tags) set_takeWhileD)
  then show ?thesis
    using impl.ReadString_payload [OF s1(2,3) assms(3,4), of j] s1(1) by auto
qed

theorem string_never_survives_witness:
  "\<exists>s1. WriteString Impl_WriteByte Impl_WriteBytes [104, 105] (ByteBufferImpl_new 2 mem0) = Some s1 \<and>
     ReadString Impl_ReadByteUnsafe Impl_GetReadableBytes Impl_ReadBytes (\<lambda>_. 0) 16 s1 = None"
proof -
  have n: "(0 :: u8) \<notin> set [104, 105]" and l: "length [104, 105 :: u8] \<le> unat (16 :: u32)"
    by code_simp+
  show ?thesis
    using string_never_survives [OF mem0_new_ok list.distinct(2) l, of "\<lambda>_. 0"] n by (simp only: if_False)
qed

section \<open>UUIDs as four ints\<close>

lemma fold_halves_eq_iff: "drop_bit 32 m OR take_bit 32 m = (m :: u64) \<longleftrightarrow> drop_bit 32 m = 0"
proof
  assume eq: "drop_bit 32 m OR take_bit 32 m = m"
  have bits: "bit m i \<longleftrightarrow> bit m (32 + i)" if "32 \<le> i" for i
    using arg_cong [OF eq, of "\<lambda>w. bit w i"] that
    by (simp add: bit_or_iff bit_drop_bit_eq bit_take_bit_iff)
  have "\<not> bit m (32 + i)" for i
    using bits [of "32 + i"] bit_imp_le_length [of m "64 + i"] by (auto simp: add.assoc [symmetric])
  then show "drop_bit 32 m = 0"
    by (intro bit_word_eqI) (simp add: bit_drop_bit_eq)
next
  assume z: "drop_bit 32 m = 0"
  then have "take_bit 32 m = m"
    using bits_ident [of 32 m] by simp
  then show "drop_bit 32 m OR take_bit 32 m = m" using z by simp
qed

text \<open>C16.  \<open>ReadUUIDIntArray\<close> reads what \<open>WriteUUIDIntArray\<close> wrote with the upper half folded into its low
  word (the shift is missing), so that the UUID comes back unchanged exactly when the
  upper 32 bits of its most significant half are zero.\<close>

theorem uuid_int_array_roundtrip_iff:
  assumes "bb_ok s" and "bb_contents s = []"
  shows "\<exists>s1 v. WriteUUIDIntArray Impl_WriteByte u s = Some s1 \<and>
    gives bb_ok bb_contents (ReadUUIDIntArray Impl_ReadByteUnsafe Impl_GetReadableBytes s1) (SuccessErrorable v) [] \<and>
    GetLeastSignificant v = GetLeastSignificant u \<and>
    (v = u \<longleftrightarrow> drop_bit 32 (GetMostSignificant u) = 0)"
proof -
  have "length (bb_contents s) + length (uuid_bytes u) < alloc_max"
    using assms(2) by (simp add: uuid_bytes_def alloc_max_def)
  from impl.put_list_law [OF assms(1) this] obtain s1 where s1:
    "WriteUUIDIntArray Impl_WriteByte u s = Some s1" "bb_ok s1" "bb_contents s1 = uuid_bytes u @ []"
    using assms(2) by (auto simp: writer_puts elim: holdsE)
  let ?m = "GetMostSignificant u"
  let ?v = "make_UUID (drop_bit 32 ?m OR take_bit 32 ?m) (GetLeastSignificant u)"
  have "?v = u \<longleftrightarrow> drop_bit 32 ?m OR take_bit 32 ?m = ?m"
    by (cases u) (simp add: make_UUID_def GetMostSignificant_def GetLeastSignificant_def)
  moreover have "GetLeastSignificant ?v = GetLeastSignificant u"
    by (simp add: make_UUID_def GetLeastSignificant_def)
  ultimately show ?thesis
    using impl.ReadUUIDIntArray_at [OF s1(2,3)] s1(1) fold_halves_eq_iff [of ?m] by blast
qed

theorem uuid_int_array_roundtrip_iff_witness:
  "\<exists>s1 v. WriteUUIDIntArray Impl_WriteByte (make_UUID 0x100000000 7) (ByteBufferImpl_new 2 mem0) = Some s1 \<and>
    gives bb_ok bb_contents (ReadUUIDIntArray Impl_ReadByteUnsafe Impl_GetReadableBytes s1) (SuccessErrorable v) [] \<and>
    v \<noteq> make_UUID 0x100000000 7"
proof -
  have "drop_bit 32 (GetMostSignificant (make_UUID 0x100000000 7)) \<noteq> 0" by code_simp
  then show ?thesis
    using uuid_int_array_roundtrip_iff [OF mem0_new_ok, of "make_UUID 0x100000000 7"] by blast
qed

section \<open>Variable-length integers\<close>

lemma put_VarInt_size:
  assumes "bb_ok s" and "length (bb_contents s) + 10 < alloc_max"
  obtains s1 where "WriteVarInt Impl_WriteByte x s = Some s1" "bb_ok s1"
    "length (bb_contents s1) = length (bb_contents s) + unat (VarIntBytes x)"
    "1 \<le> unat (VarIntBytes x)" "unat (VarIntBytes x) \<le> 5"
proof -
  let ?bs = "leb128 (unat x)"
  have le: "length ?bs \<le> 5" by (rule length_leb128_bound)
  then have u: "unat (VarIntBytes x) = length ?bs"
    unfolding VarIntBytes_eq by (intro u32_exact) simp
  have "holds bb_ok bb_contents (WriteVarInt Impl_WriteByte x s) (bb_contents s @ ?bs)"
    using impl.put_list_law [OF assms(1), of ?bs] assms(2) le by (simp add: WriteVarInt_put)
  then show thesis using that u le leb128_nonempty(2) [of "unat x"]
    by (auto elim!: holdsE simp: Suc_le_eq)
qed

lemma put_VarLong_size:
  assumes "bb_ok s" and "length (bb_contents s) + 10 < alloc_max"
  obtains s1 where "WriteVarLong Impl_WriteByte x s = Some s1" "bb_ok s1"
    "length (bb_contents s1) = length (bb_contents s) + unat (VarLongBytes x)"
    "1 \<le> unat (VarLongBytes x)" "unat (VarLongBytes x) \<le> 10"
proof -
  let ?bs = "leb128 (unat x)"
  have le: "length ?bs \<le> 10" by (rule length_leb128_bound)
  then have u: "unat (VarLongBytes x) = length ?bs"
    unfolding VarLongBytes_eq by (intro u32_exact) simp
  have "holds bb_ok bb_contents (WriteVarLong Impl_WriteByte x s) (bb_contents s @ ?bs)"
    using impl.put_list_law [OF assms(1), of ?bs] assms(2) le by (simp add: WriteVarLong_put)
  then show thesis using that u le leb128_nonempty(2) [of "unat x"]
    by (auto elim!: holdsE simp: Suc_le_eq)
qed

text \<open>C38.  \<open>VarIntBytes\<close> and \<open>VarLongBytes\<close> are exact: \<open>WriteVarInt\<close> and \<open>WriteVarLong\<close> write that many bytes,
  between 1 and 5, and between 1 and 10.\<close>

theorem varint_size_exact:
  assumes "bb_ok s" and "length (bb_contents s) + 10 < alloc_max"
  shows "\<exists>s1 s2. WriteVarInt Impl_WriteByte x s = Some s1 \<and> WriteVarLong Impl_WriteByte y s = Some s2 \<and>
    length (bb_contents s1) = length (bb_contents s) + unat (VarIntBytes x) \<and>
    length (bb_contents s2) = length (bb_contents s) + unat (VarLongBytes y) \<and>
    unat (VarIntBytes x) \<in> {1..5} \<and> unat (VarLongBytes y) \<in> {1..10}"
  using put_VarInt_size [OF assms, of x] put_VarLong_size [OF assms, of y]
  by (metis atLeastAtMost_iff)

theorem varint_size_exact_witness:
  "\<exists>s1 s2. WriteVarInt Impl_WriteByte 300 (ByteBufferImpl_new 2 mem0) = Some s1 \<and>
    WriteVarLong Impl_WriteByte 0x8000000000000000 (ByteBufferImpl_new 2 mem0) = Some s2 \<and>
    length (bb_contents s1) = 2 \<and> length (bb_contents s2) = 10"
proof -
  have "unat (VarIntBytes 300) = 2" "unat (VarLongBytes 0x8000000000000000) = 10" by code_simp+
  moreover have "length (bb_contents (ByteBufferImpl_new 2 mem0)) + 10 < alloc_max"
    by (simp add: mem0_new_ok alloc_max_def)
  ultimately show ?thesis
    using varint_size_exact [OF mem0_new_ok(1), of 300 "0x8000000000000000"] mem0_new_ok(2) by fastforce
qed

lemma leb128_prefix_continues:
  "k < length (leb128 n) \<Longrightarrow> b \<in> set (take k (leb128 n)) \<Longrightarrow> b AND 0x80 \<noteq> 0"
proof (induction n arbitrary: k rule: leb128.induct)
  case (1 n)
  show ?case
  proof (cases "n < 128")
    case True
    then show ?thesis using "1.prems" by (simp add: leb128_small)
  next
    case False
    have u8: "k < 256 \<Longrightarrow> unat (of_nat k :: u8) = k" for k
      by (simp add: unat_of_nat take_bit_nat_eq_self)
    have "n mod 128 + 128 < 256" using mod_less_divisor [of 128 n] by linarith
    from u8 [OF this] have "(of_nat (n mod 128 + 128) :: u8) AND 0x80 \<noteq> 0"
      unfolding byte_continuation by linarith
    then show ?thesis
      using "1.IH" [OF False, of "k - 1"] "1.prems" False
      by (cases k) (auto simp: leb128_big)
  qed
qed

lemma parse_leb_truncated:
  "\<forall>b \<in> set bs. b AND 0x80 \<noteq> 0 \<Longrightarrow> i + length bs < m \<Longrightarrow>
   parse_leb m c1 c2 i acc bs = (InvalidArgumentErrorable c1 0 0, [])"
proof (induction bs arbitrary: i acc)
  case Nil
  then show ?case by simp
next
  case (Cons b bs)
  then show ?case using Cons.IH [of "i + 1"] by (simp add: Let_def)
qed

text \<open>A \<open>VarInt\<close> of which only a part has arrived is reported as incomplete, and the part is gone: the
  reader does not put it back, so that the value cannot be read when the rest arrives.\<close>

lemma varint_truncated_is_consumed:
  assumes "bb_ok s" and "bb_contents s = take k (leb128 (unat (x :: u32)))" and "k < length (leb128 (unat x))"
  shows "gives bb_ok bb_contents (ReadVarInt Impl_ReadByteUnsafe Impl_GetReadableBytes s)
    (InvalidArgumentErrorable IncompleteVarInt_T 0 0) []"
proof (rule impl.ReadVarInt_parse [OF assms(1)])
  show "parse_leb 5 IncompleteVarInt_T InvalidVarInt_T 0 0 (bb_contents s)
      = (InvalidArgumentErrorable IncompleteVarInt_T (0 :: u32) 0, [])"
    unfolding assms(2) using assms(3) length_leb128_bound(1) [of x]
    by (intro parse_leb_truncated) (auto dest: leb128_prefix_continues)
qed

lemma varint_truncated_is_consumed_witness:
  "\<exists>s. Impl_WriteByte 0xAC (ByteBufferImpl_new 2 mem0) = Some s \<and> bb_contents s = take 1 (leb128 (unat (300 :: u32))) \<and>
    gives bb_ok bb_contents (ReadVarInt Impl_ReadByteUnsafe Impl_GetReadableBytes s)
      (InvalidArgumentErrorable IncompleteVarInt_T 0 0) []"
proof -
  have "holds bb_ok bb_contents (Impl_WriteByte 0xAC (ByteBufferImpl_new 2 mem0)) [0xAC]"
    using Impl_WriteByte_ok [OF mem0_new_ok(1), of "0xAC"] mem0_new_ok(2) by (simp add: alloc_max_def)
  then obtain s where s: "Impl_WriteByte 0xAC (ByteBufferImpl_new 2 mem0) = Some s" "bb_ok s"
    "bb_contents s = [0xAC]" by (rule holdsE)
  have l: "leb128 (unat (300 :: u32)) = [0xAC, 2]" by code_simp
  then have t: "bb_contents s = take 1 (leb128 (unat (300 :: u32)))" "1 < length (leb128 (unat (300 :: u32)))"
    using s(3) by simp_all
  show ?thesis using varint_truncated_is_consumed [OF s(2) t] s(1) t(1) by blast
qed

end
