(* ===== verification/Ship_Impl_Moves.thy ===== *)
theory Ship_Impl_Moves
  imports Ship_ByteBufferImpl
begin

text \<open>
  Every operation of \<open>ByteBufferImpl\<close> but two is a sequence of four kinds of moves: it sets the counters, stores bytes
  in the page it writes to, appends a page it has just allocated, or deletes the front page and drops it.  What the moves keep,
  the operations keep, whatever their arguments and however far the counters are off.  The two exceptions are
  \<open>Release\<close>, which ends the life of the buffer, and \<open>WriteBytesAndDelete\<close>, which takes over a page of the caller's.
\<close>

inductive page_move :: "bb_state \<Rightarrow> bb_state \<Rightarrow> bool" where
  set_counters: "page_move (m, b) (m, b\<lparr>localReaderIndex := i, localWriterIndex := j, readableBytes := n\<rparr>)"
| store_bytes: "poke (currentWriteBuffer b) off bs m = Some m1 \<Longrightarrow> page_move (m, b) (m1, b)"
| append_page: "page_move s (AppendBuffer s)"
| pop_page: "PopBuffer s = Some s1 \<Longrightarrow> page_move s s1"

abbreviation page_moves :: "bb_state \<Rightarrow> bb_state \<Rightarrow> bool" where
  "page_moves \<equiv> rtranclp page_move"

named_theorems moves_intros \<open>operations that are sequences of page moves\<close>

lemma moves_trans: "page_moves s s1 \<Longrightarrow> page_moves s1 s2 \<Longrightarrow> page_moves s s2"
  by (rule rtranclp_trans)

lemma moves_invariant:
  assumes "page_moves s s'" and "P s" and "\<And>s s'. page_move s s' \<Longrightarrow> P s \<Longrightarrow> P s'"
  shows "P s'"
  using assms(1,2) by (induction) (auto intro: assms(3))

text \<open>Setting one counter sets all three, two of them to what they are.\<close>

lemma moves_set:
  "b1 = b\<lparr>localReaderIndex := i, localWriterIndex := j, readableBytes := n\<rparr> \<Longrightarrow> page_moves (m, b) (m, b1)"
  by (simp add: set_counters r_into_rtranclp)

lemma moves_counters [moves_intros]:
  "page_moves (m, b) (m, b\<lparr>localReaderIndex := i\<rparr>)"
  "page_moves (m, b) (m, b\<lparr>localWriterIndex := j\<rparr>)"
  "page_moves (m, b) (m, b\<lparr>readableBytes := n\<rparr>)"
  "page_moves (m, b) (m, b\<lparr>localReaderIndex := i, readableBytes := n\<rparr>)"
  "page_moves (m, b) (m, b\<lparr>readableBytes := n, localReaderIndex := i\<rparr>)"
  "page_moves (m, b) (m, b\<lparr>localWriterIndex := j, readableBytes := n\<rparr>)"
  "page_moves (m, b) (m, b\<lparr>readableBytes := n, localWriterIndex := j\<rparr>)"
proof -
  show "page_moves (m, b) (m, b\<lparr>localReaderIndex := i\<rparr>)"
    by (rule moves_set [where i = i and j = "localWriterIndex b" and n = "readableBytes b"]) simp
  show "page_moves (m, b) (m, b\<lparr>localWriterIndex := j\<rparr>)"
    by (rule moves_set [where i = "localReaderIndex b" and j = j and n = "readableBytes b"]) simp
  show "page_moves (m, b) (m, b\<lparr>readableBytes := n\<rparr>)"
    by (rule moves_set [where i = "localReaderIndex b" and j = "localWriterIndex b" and n = n]) simp
  show "page_moves (m, b) (m, b\<lparr>localReaderIndex := i, readableBytes := n\<rparr>)"
    "page_moves (m, b) (m, b\<lparr>readableBytes := n, localReaderIndex := i\<rparr>)"
    by (rule moves_set [where i = i and j = "localWriterIndex b" and n = n], simp)+
  show "page_moves (m, b) (m, b\<lparr>localWriterIndex := j, readableBytes := n\<rparr>)"
    "page_moves (m, b) (m, b\<lparr>readableBytes := n, localWriterIndex := j\<rparr>)"
    by (rule moves_set [where i = "localReaderIndex b" and j = j and n = n], simp)+
qed

lemma moves_store: "poke (currentWriteBuffer b) off bs m = Some m1 \<Longrightarrow> page_moves (m, b) (m1, b)"
  by (blast intro: store_bytes r_into_rtranclp)

lemma moves_AppendBuffer [moves_intros]: "page_moves s (AppendBuffer s)"
  by (blast intro: append_page r_into_rtranclp)

lemma moves_PopBuffer [moves_intros]: "PopBuffer s = Some s1 \<Longrightarrow> page_moves s s1"
  by (blast intro: pop_page r_into_rtranclp)

lemma moves_TryRefreshWriterBuffer [moves_intros]: "page_moves s (TryRefreshWriterBuffer s)"
  by (simp add: TryRefreshWriterBuffer_def moves_AppendBuffer)

lemma moves_TryRefreshReaderBuffer [moves_intros]: "TryRefreshReaderBuffer s = Some s1 \<Longrightarrow> page_moves s s1"
  by (auto simp: TryRefreshReaderBuffer_def moves_PopBuffer split: if_splits)

lemma moves_ResetReaderIndex [moves_intros]: "page_moves s (Impl_ResetReaderIndex s)"
  by (cases s) (simp add: Impl_ResetReaderIndex_def moves_counters)

lemma moves_ResetWriterIndex [moves_intros]: "page_moves s (Impl_ResetWriterIndex s)"
  by (cases s) (simp add: Impl_ResetWriterIndex_def moves_counters)

lemma moves_ReadByteUnsafe [moves_intros]:
  assumes "Impl_ReadByteUnsafe s = Some (x, s1)"
  shows "page_moves s s1"
proof -
  obtain m b where t: "TryRefreshReaderBuffer s = Some (m, b)"
    and s1: "s1 = (m, b\<lparr>readableBytes := sz_sub (readableBytes b) 1, localReaderIndex := sz_add (localReaderIndex b) 1\<rparr>)"
    using assms by (auto simp: Impl_ReadByteUnsafe_def split: bind_splits)
  show ?thesis unfolding s1 using moves_TryRefreshReaderBuffer [OF t] moves_counters(5) by (rule moves_trans)
qed

lemma moves_WriteByte [moves_intros]:
  assumes "Impl_WriteByte x s = Some s1"
  shows "page_moves s s1"
proof -
  obtain m b where t: "TryRefreshWriterBuffer s = (m, b)" by (cases "TryRefreshWriterBuffer s")
  then obtain m1 where p: "poke (currentWriteBuffer b) (localWriterIndex b) [x] m = Some m1"
    and s1: "s1 = (m1, b\<lparr>readableBytes := sz_add (readableBytes b) 1, localWriterIndex := sz_add (localWriterIndex b) 1\<rparr>)"
    using assms by (auto simp: Impl_WriteByte_def split: bind_splits)
  have "page_moves s (m, b)" using moves_TryRefreshWriterBuffer [of s] t by simp
  then show ?thesis
    unfolding s1 using moves_trans [OF moves_store [OF p] moves_counters(7)] by (rule moves_trans)
qed

text \<open>Storing a chunk, setting the counters and going on in a new page.\<close>

lemma moves_full_page:
  assumes "poke (currentWriteBuffer b) off bs m = Some m1"
    and "AppendBuffer (m1, b\<lparr>readableBytes := n, localWriterIndex := j\<rparr>) = s2"
  shows "page_moves (m, b) s2"
  using moves_store [OF assms(1)] moves_counters(7) [where m = m1 and b = b and n = n and j = j]
    moves_AppendBuffer [of "(m1, b\<lparr>readableBytes := n, localWriterIndex := j\<rparr>)"]
  unfolding assms(2) by simp

lemma moves_WriteBytes_loop:
  "WriteBytes_loop input i sz m b = Some r \<Longrightarrow> page_moves (m, b) (snd (snd r))"
proof (induction rule: WriteBytes_loop.raw_induct [rotated, consumes 1, case_names step])
  case (step loop input i sz m b r)
  show ?case
  proof (cases "singleCapacity b < sz")
    case False
    then show ?thesis using step(2) by auto
  next
    case True
    then obtain chunk m1 m2 b2 where s: "poke (currentWriteBuffer b) (localWriterIndex b) chunk m = Some m1"
      "AppendBuffer (m1, b\<lparr>readableBytes := sz_add (readableBytes b) (singleCapacity b), localWriterIndex := 0\<rparr>) = (m2, b2)"
      "loop input (sz_add i (singleCapacity b)) (sz_sub sz (singleCapacity b)) m2 b2 = Some r"
      using step(2) by (auto split: bind_splits prod.splits)
    show ?thesis using moves_full_page [OF s(1,2)] step(1) [OF s(3)] by (rule moves_trans)
  qed
qed

lemma moves_WriteBytes_tail: "WriteBytes_tail input i sz (m, b) = Some s1 \<Longrightarrow> page_moves (m, b) s1"
  using moves_counters(6) by (auto simp: WriteBytes_tail_def split: bind_splits intro: moves_trans [OF moves_store])

lemma moves_WriteBytes [moves_intros]:
  assumes "Impl_WriteBytes input sz s = Some s'"
  shows "page_moves s s'"
proof -
  obtain m b where r: "TryRefreshWriterBuffer s = (m, b)" by (cases "TryRefreshWriterBuffer s")
  then have f: "page_moves s (m, b)" using moves_TryRefreshWriterBuffer [of s] by simp
  show ?thesis
  proof (cases "sz_add (localWriterIndex b) sz > singleCapacity b")
    case False
    then have "WriteBytes_tail input 0 sz (m, b) = Some s'" using assms r by (simp add: Impl_WriteBytes_def)
    then show ?thesis using f moves_WriteBytes_tail moves_trans by blast
  next
    case True
    then obtain chunk m1 m2 b2 i sz1 m3 b3 where s:
      "poke (currentWriteBuffer b) (localWriterIndex b) chunk m = Some m1"
      "AppendBuffer (m1, b\<lparr>readableBytes := sz_add (readableBytes b) (sz_sub (singleCapacity b) (localWriterIndex b)),
          localWriterIndex := 0\<rparr>) = (m2, b2)"
      "WriteBytes_loop input (sz_sub (singleCapacity b) (localWriterIndex b))
         (sz_sub sz (sz_sub (singleCapacity b) (localWriterIndex b))) m2 b2 = Some (i, sz1, m3, b3)"
      "WriteBytes_tail input i sz1 (m3, b3) = Some s'"
      using assms r by (auto simp: Impl_WriteBytes_def split: bind_splits prod.splits)
    show ?thesis
      using f moves_full_page [OF s(1,2)] moves_WriteBytes_loop [OF s(3)] moves_WriteBytes_tail [OF s(4)]
      by simp
  qed
qed

lemma moves_drop_page:
  assumes "PopBuffer (m, b\<lparr>readableBytes := n, localReaderIndex := i\<rparr>) = Some s2"
  shows "page_moves (m, b) s2"
  using moves_counters(5) moves_PopBuffer [OF assms] by (rule moves_trans)

lemma moves_ReadBytes_loop:
  "ReadBytes_loop out i sz m b = Some r \<Longrightarrow> page_moves (m, b) (snd (snd (snd r)))"
proof (induction rule: ReadBytes_loop.raw_induct [rotated, consumes 1, case_names step])
  case (step loop out i sz m b r)
  show ?case
  proof (cases "singleCapacity b < sz")
    case False
    then show ?thesis using step(2) by auto
  next
    case True
    then obtain out1 m2 b2 where s:
      "PopBuffer (m, b\<lparr>readableBytes := sz_sub (readableBytes b) (singleCapacity b), localReaderIndex := 0\<rparr>) = Some (m2, b2)"
      "loop out1 (i + of_nat (singleCapacity b)) (sz_sub sz (singleCapacity b)) m2 b2 = Some r"
      using step(2) by (auto split: bind_splits prod.splits)
    show ?thesis using moves_drop_page [OF s(1)] step(1) [OF s(2)] by (rule moves_trans)
  qed
qed

lemma moves_ReadBytes_tail: "ReadBytes_tail out i sz (m, b) = Some (e, s1) \<Longrightarrow> page_moves (m, b) s1"
  using moves_counters(4) by (auto simp: ReadBytes_tail_def split: bind_splits)

lemma moves_ReadBytes [moves_intros]:
  assumes "Impl_ReadBytes out sz s = Some (e, s')"
  shows "page_moves s s'"
proof (cases "Impl_GetReadableBytes s < sz")
  case True
  then show ?thesis using assms by (simp add: Impl_ReadBytes_def)
next
  case ge: False
  then obtain m b where r: "TryRefreshReaderBuffer s = Some (m, b)"
    using assms by (auto simp: Impl_ReadBytes_def split: bind_splits)
  have f: "page_moves s (m, b)" using r by (rule moves_TryRefreshReaderBuffer)
  show ?thesis
  proof (cases "sz_add (localReaderIndex b) sz > singleCapacity b")
    case False
    then have "ReadBytes_tail out 0 sz (m, b) = Some (e, s')" using assms r ge by (simp add: Impl_ReadBytes_def)
    then show ?thesis using f moves_ReadBytes_tail moves_trans by blast
  next
    case True
    then obtain out1 out2 m2 b2 i j sz1 sz2 m3 b3 where s:
      "PopBuffer (m, b\<lparr>readableBytes := sz_sub (readableBytes b) (sz_sub (singleCapacity b) (localReaderIndex b)),
          localReaderIndex := 0\<rparr>) = Some (m2, b2)"
      "ReadBytes_loop out1 i sz1 m2 b2 = Some (out2, j, sz2, m3, b3)"
      "ReadBytes_tail out2 j sz2 (m3, b3) = Some (e, s')"
      using assms r ge by (auto simp: Impl_ReadBytes_def split: bind_splits prod.splits)
    show ?thesis
      using f moves_drop_page [OF s(1)] moves_ReadBytes_loop [OF s(2)] moves_ReadBytes_tail [OF s(3)]
      by simp
  qed
qed

lemma moves_SkipReadBytes_loop:
  "SkipReadBytes_loop count m b = Some r \<Longrightarrow> page_moves (m, b) (snd r)"
proof (induction rule: SkipReadBytes_loop.raw_induct [rotated, consumes 1, case_names step])
  case (step loop count m b r)
  show ?case
  proof (cases "sz_sub (singleCapacity b) (localReaderIndex b) < count")
    case False
    then show ?thesis using step(2) by auto
  next
    case True
    then obtain m1 b1 k where s: "PopBuffer (m, b) = Some (m1, b1)" "loop k m1 b1 = Some r"
      using step(2) by (auto split: bind_splits prod.splits)
    show ?thesis using moves_PopBuffer [OF s(1)] step(1) [OF s(2)] by (rule moves_trans)
  qed
qed

lemma moves_SkipReadBytes [moves_intros]:
  assumes "Impl_SkipReadBytes count s = Some (e, s')"
  shows "page_moves s s'"
proof (cases s)
  case (Pair m b)
  show ?thesis
  proof (cases "count > readableBytes b")
    case True
    then show ?thesis using assms Pair by (simp add: Impl_SkipReadBytes_def)
  next
    case False
    then obtain k m1 b1 where s:
      "SkipReadBytes_loop count m (b\<lparr>readableBytes := sz_sub (readableBytes b) count\<rparr>) = Some (k, m1, b1)"
      "TryRefreshReaderBuffer (m1, b1\<lparr>localReaderIndex := k\<rparr>) = Some s'"
      using assms Pair by (auto simp: Impl_SkipReadBytes_def split: bind_splits)
    show ?thesis
      unfolding Pair
      using moves_trans [OF moves_counters(3) moves_SkipReadBytes_loop [OF s(1)]]
      moves_trans [OF moves_counters(1) moves_TryRefreshReaderBuffer [OF s(2)]]
      by simp
  qed
qed

lemma moves_SkipWriteBytes_loop:
  "SkipWriteBytes_loop count m b = Some r \<Longrightarrow> page_moves (m, b) (snd r)"
proof (induction rule: SkipWriteBytes_loop.raw_induct [rotated, consumes 1, case_names step])
  case (step loop count m b r)
  show ?case
  proof (cases "sz_sub (singleCapacity b) (localWriterIndex b) < count")
    case False
    then show ?thesis using step(2) by auto
  next
    case True
    then obtain m1 b1 k where s: "AppendBuffer (m, b) = (m1, b1)" "loop k m1 b1 = Some r"
      using step(2) by (auto split: bind_splits prod.splits)
    have "page_moves (m, b) (m1, b1)" using moves_AppendBuffer [of "(m, b)"] s(1) by simp
    then show ?thesis using step(1) [OF s(2)] by (rule moves_trans)
  qed
qed

lemma moves_SkipWriteBytes [moves_intros]:
  assumes "Impl_SkipWriteBytes count s = Some (k, s')"
  shows "page_moves s s'"
proof (cases s)
  case (Pair m b)
  obtain m1 b1 where s:
    "SkipWriteBytes_loop count m (b\<lparr>readableBytes := sz_add (readableBytes b) count\<rparr>) = Some (k, m1, b1)"
    "s' = TryRefreshWriterBuffer (m1, b1\<lparr>localWriterIndex := k\<rparr>)"
    using assms Pair by (auto simp: Impl_SkipWriteBytes_def split: bind_splits)
  show ?thesis
    unfolding Pair s(2)
    using moves_trans [OF moves_counters(3) moves_SkipWriteBytes_loop [OF s(1)]]
      moves_trans [OF moves_counters(2) moves_TryRefreshWriterBuffer, of m1 b1 k]
    by simp
qed

section \<open>What a write leaves alone\<close>

definition same_reader :: "bb_state \<Rightarrow> bb_state \<Rightarrow> bool" where
  "same_reader s s1 \<longleftrightarrow> localReaderIndex (snd s1) = localReaderIndex (snd s) \<and>
     singleCapacity (snd s1) = singleCapacity (snd s)"

lemma same_reader_append: "same_reader s (AppendBuffer s)" "same_reader s (TryRefreshWriterBuffer s)"
  by (cases s; simp add: same_reader_def TryRefreshWriterBuffer_def AppendBuffer_def new_page_def)+

lemma same_reader_loop: "WriteBytes_loop input i sz m b = Some r \<Longrightarrow> same_reader (m, b) (snd (snd r))"
proof (induction rule: WriteBytes_loop.raw_induct [rotated, consumes 1, case_names step])
  case (step loop input i sz m b r)
  show ?case
  proof (cases "singleCapacity b < sz")
    case False
    then show ?thesis using step(2) by (auto simp: same_reader_def)
  next
    case True
    then obtain m1 m2 b2 i2 sz2 where s: "loop input i2 sz2 m2 b2 = Some r"
      "AppendBuffer (m1, b\<lparr>readableBytes := sz_add (readableBytes b) (singleCapacity b), localWriterIndex := 0\<rparr>) = (m2, b2)"
      using step(2) by (auto split: bind_splits prod.splits)
    then have "same_reader (m, b) (m2, b2)"
      using same_reader_append(1) [of "(m1, b\<lparr>readableBytes := sz_add (readableBytes b) (singleCapacity b), localWriterIndex := 0\<rparr>)"]
      by (simp add: same_reader_def s(2))
    then show ?thesis using step(1) [OF s(1)] by (simp add: same_reader_def)
  qed
qed

lemma same_reader_WriteBytes:
  assumes "Impl_WriteBytes input sz s = Some s1"
  shows "same_reader s s1"
proof -
  have tail: "WriteBytes_tail input i n t = Some s1 \<Longrightarrow> same_reader t s1" for i n t
    by (cases t) (auto simp: WriteBytes_tail_def same_reader_def split: bind_splits)
  obtain m b where r: "TryRefreshWriterBuffer s = (m, b)" by (cases "TryRefreshWriterBuffer s")
  then have f: "same_reader s (m, b)" using same_reader_append(2) [of s] by simp
  show ?thesis
  proof (cases "sz_add (localWriterIndex b) sz > singleCapacity b")
    case False
    then have "WriteBytes_tail input 0 sz (m, b) = Some s1" using assms r by (simp add: Impl_WriteBytes_def)
    then show ?thesis using f tail by (fastforce simp: same_reader_def)
  next
    case True
    let ?n = "sz_sub (singleCapacity b) (localWriterIndex b)"
    obtain m1 m2 b2 i sz1 s3 where s: "AppendBuffer (m1, b\<lparr>readableBytes := sz_add (readableBytes b) ?n, localWriterIndex := 0\<rparr>) = (m2, b2)"
      "WriteBytes_loop input ?n (sz_sub sz ?n) m2 b2 = Some (i, sz1, s3)" "WriteBytes_tail input i sz1 s3 = Some s1"
      using assms r True by (auto simp: Impl_WriteBytes_def split: bind_splits prod.splits)
    have "same_reader (m, b) (m2, b2)"
      using same_reader_append(1) [of "(m1, b\<lparr>readableBytes := sz_add (readableBytes b) ?n, localWriterIndex := 0\<rparr>)"]
      by (simp add: same_reader_def s(1))
    then show ?thesis using f same_reader_loop [OF s(2)] tail [OF s(3)] by (simp add: same_reader_def)
  qed
qed

end
