(* ===== verification/Ship_Impl_Frame.thy ===== *)
theory Ship_Impl_Frame
  imports Ship_Impl_Props Ship_Impl_Moves
begin

text \<open>
  What an operation on one \<open>ByteBufferImpl\<close> leaves alone: pages that belong to others (the set \<open>A\<close>) keep
  their contents, and the buffer never gets hold of them.  With this an operation on one buffer is
  seen not to disturb another one, and \<open>WriteBytes(ByteBuffer*, size_t)\<close> can be proved.
\<close>

definition sep :: "nat set \<Rightarrow> bb_state \<Rightarrow> bool" where
  "sep A s \<longleftrightarrow> A \<inter> set (buffers (snd s)) = {} \<and> currentWriteBuffer (snd s) \<notin> A \<and>
     (\<forall>a \<in> A. a < next_page (fst s)) \<and> mem_ok (fst s)"

definition agree :: "nat set \<Rightarrow> memory \<Rightarrow> memory \<Rightarrow> bool" where
  "agree A m m' \<longleftrightarrow> (\<forall>a \<in> A. pages m' a = pages m a) \<and> next_page m \<le> next_page m' \<and>
     byteBufferWriteBuffer m' = byteBufferWriteBuffer m \<and> junk m' = junk m"

definition frame :: "nat set \<Rightarrow> bb_state \<Rightarrow> bb_state \<Rightarrow> bool" where
  "frame A s s' \<longleftrightarrow> (sep A s \<longrightarrow> sep A s' \<and> agree A (fst s) (fst s'))"

lemma frame_refl [simp]: "frame A s s"
  by (simp add: frame_def agree_def)

lemma frame_trans: "frame A s s1 \<Longrightarrow> frame A s1 s2 \<Longrightarrow> frame A s s2"
  by (auto simp: frame_def agree_def)

lemma frameD: "frame A s s' \<Longrightarrow> sep A s \<Longrightarrow> sep A s' \<and> agree A (fst s) (fst s')"
  by (simp add: frame_def)

text \<open>Every kind of move has this, so every operation has.\<close>

lemma mem_ok_iff: "mem_ok m \<longleftrightarrow> (\<forall>a p. pages m a = Some p \<longrightarrow> a < next_page m)"
  by (auto simp: mem_ok_def)

lemma frame_move: "page_move s s' \<Longrightarrow> frame A s s'"
proof (induction rule: page_move.induct)
  case (set_counters m b i j n)
  then show ?case by (simp add: frame_def sep_def agree_def)
next
  case (store_bytes b off bs m m1)
  then show ?case
    by (auto simp: frame_def sep_def agree_def poke_def mem_ok_iff split: bind_splits if_splits)
next
  case (append_page s)
  then show ?case
    by (cases s) (auto simp: frame_def sep_def agree_def AppendBuffer_def new_page_def mem_ok_def less_Suc_eq)
next
  case (pop_page s s1)
  then show ?case
    by (cases s) (auto simp: frame_def sep_def agree_def PopBuffer_def delete_page_def mem_ok_iff
        split: list.splits bind_splits option.splits if_splits)
qed

lemma frame_moves: "page_moves s s' \<Longrightarrow> frame A s s'"
  by (induction rule: rtranclp_induct) (auto intro: frame_trans frame_move)

lemmas frame_Impl_WriteBytes = frame_moves [OF moves_WriteBytes]
lemmas frame_Impl_ReadBytes = frame_moves [OF moves_ReadBytes]

section \<open>Two buffers in one memory\<close>

definition apart :: "byte_buffer_impl \<Rightarrow> byte_buffer_impl \<Rightarrow> bool" where
  "apart b c \<longleftrightarrow> set (buffers b) \<inter> set (buffers c) = {}"

lemma apart_sym: "apart b c \<Longrightarrow> apart c b"
  by (auto simp: apart_def)

lemma bb_ok_mem_ok: "bb_ok (m, b) \<Longrightarrow> mem_ok m"
  using bb_okD(1) by (fastforce simp: pages_ok_def mem_ok_def)

lemma apart_sep:
  assumes "bb_ok (m, b)" and "bb_ok (m, c)" and "apart b c"
  shows "sep (set (buffers c)) (m, b)"
proof -
  have "currentWriteBuffer b \<in> set (buffers b)"
    using bb_okD(1) [OF assms(1)] by (auto simp: pages_ok_def)
  moreover have "a < next_page m" if "a \<in> set (buffers c)" for a
    using bb_okD(1) [OF assms(2)] that by (fastforce simp: pages_ok_def)
  ultimately show ?thesis
    using assms(3) bb_ok_mem_ok [OF assms(1)] by (auto simp: sep_def apart_def)
qed

text \<open>An operation on one buffer keeps the other one.\<close>

lemma frame_other:
  assumes "frame (set (buffers c)) (m, b) (m', b')" and "bb_ok (m, b)" and "bb_ok (m, c)" and "apart b c"
  shows "bb_ok (m', c)" and "bb_contents (m', c) = bb_contents (m, c)" and "apart b' c"
    and "byteBufferWriteBuffer m' = byteBufferWriteBuffer m"
proof -
  have *: "sep (set (buffers c)) (m', b')" "agree (set (buffers c)) m m'"
    using frameD [OF assms(1) apart_sep [OF assms(2-4)]] by simp_all
  then have "\<forall>a \<in> set (buffers c). pages m' a = pages m a" "\<forall>a \<in> dom (pages m'). a < next_page m'"
    by (auto simp: agree_def sep_def mem_ok_def)
  from bb_frame [OF assms(3) this] show "bb_ok (m', c)" "bb_contents (m', c) = bb_contents (m, c)" .
  show "apart b' c" "byteBufferWriteBuffer m' = byteBufferWriteBuffer m"
    using * by (auto simp: sep_def apart_def agree_def)
qed

lemma bb_ok_transfer_buffer [simp]:
  "bb_ok (m\<lparr>byteBufferWriteBuffer := f\<rparr>, b) = bb_ok (m, b)"
  "bb_contents (m\<lparr>byteBufferWriteBuffer := f\<rparr>, b) = bb_contents (m, b)"
  by (simp_all add: bb_ok_def pages_ok_def bb_contents_def page_list_def)

text \<open>The second half of \<open>WriteBytes(ByteBuffer*, size_t)\<close>: the transfer buffer is written.\<close>

lemma write_transferred:
  assumes "bb_ok (m, self)" and "bb_ok (m, input)" and "apart self input"
    and "length (bb_contents (m, self)) + length xs < alloc_max"
  obtains m1 self1 where "Impl_WriteBytes xs (length xs) (m, self) = Some (m1, self1)"
    "bb_ok (m1, self1)" "bb_contents (m1, self1) = bb_contents (m, self) @ xs"
    "bb_ok (m1, input)" "bb_contents (m1, input) = bb_contents (m, input)" "apart self1 input"
    "same_reader (m, self) (m1, self1)"
proof -
  obtain m1 self1 where w: "Impl_WriteBytes xs (length xs) (m, self) = Some (m1, self1)"
    "bb_ok (m1, self1)" "bb_contents (m1, self1) = bb_contents (m, self) @ xs"
    using Impl_WriteBytes_ok [OF assms(1,4)] by (auto elim: holdsE)
  then show thesis
    using that frame_other [OF frame_Impl_WriteBytes [OF w(1)] assms(1-3)] same_reader_WriteBytes [OF w(1)] by blast
qed

lemma small_alloc: "n \<le> 100 \<Longrightarrow> n < alloc_max"
  by (simp add: alloc_max_def)

text \<open>A buffer of one page with its writer at \<open>w\<close>, and a foreign array at address 1.\<close>

definition two_pages :: "nat \<Rightarrow> bb_state" where
  "two_pages w = (mem0\<lparr>next_page := 2, pages := [0 \<mapsto> [8, 9], 1 \<mapsto> [1, 2]]\<rparr>,
     \<lparr>buffers = [0], singleCapacity = 2, currentReadBuffer = 0, currentWriteBuffer = 0,
      localReaderIndex = 0, localWriterIndex = w, readableBytes = w\<rparr>)"

lemma two_pages_ok: "w \<le> 1 \<Longrightarrow> bb_ok (two_pages w)"
  by (auto simp: two_pages_def bb_ok_def pages_ok_def bb_contents_def queue_def page_list_def
      alloc_max_def size_max_def)

lemma second_page_ok:
  "bb_ok (fst (two_pages 0), ByteBufferImpl_of_page 1 2\<lparr>localWriterIndex := 2, readableBytes := 2\<rparr>)"
  "bb_contents (fst (two_pages 0), ByteBufferImpl_of_page 1 2\<lparr>localWriterIndex := 2, readableBytes := 2\<rparr>) = [1, 2]"
  by (auto simp: two_pages_def ByteBufferImpl_of_page_def bb_ok_def pages_ok_def bb_contents_def queue_def
      page_list_def alloc_max_def size_max_def)

lemma buffer_transfer:
  assumes "bb_ok (m, self)" and "bb_ok (m, input)" and "apart self input"
    and "0 < n" and "n \<le> length (bb_contents (m, input))" and "n \<le> MAX_PACKET_SIZE"
    and "length (bb_contents (m, self)) + n < alloc_max"
  shows "\<exists>m' self' input'. Impl_WriteBytes_buffer n (m, self, input) = Some (m', self', input') \<and>
    bb_ok (m', self') \<and> bb_ok (m', input') \<and> apart self' input' \<and>
    bb_contents (m', self') = bb_contents (m, self) @ take n (bb_contents (m, input)) \<and>
    bb_contents (m', input') = drop n (bb_contents (m, input)) \<and> same_reader (m, self) (m', self')"
proof -
  let ?xs = "take n (bb_contents (m, input))" and ?out = "map (byteBufferWriteBuffer m) [0..<n]"
  have "n < 2 ^ 32" using assms(6) by (simp add: MAX_PACKET_SIZE_def)
  with Impl_ReadBytes_ok [OF assms(2,4,5), of ?out] obtain m1 input1 where
    r: "Impl_ReadBytes ?out n (m, input) = Some (SuccessErrorable ?xs, (m1, input1))" "bb_ok (m1, input1)"
      "bb_contents (m1, input1) = drop n (bb_contents (m, input))"
    by (auto elim: givesE)
  note f = frame_other [OF frame_Impl_ReadBytes [OF r(1)] assms(2,1) apart_sym [OF assms(3)]]
  obtain m2 where m2: "m2 = m1\<lparr>byteBufferWriteBuffer := (\<lambda>i. if i < n
      then GetValue (SuccessErrorable ?xs) ! i else byteBufferWriteBuffer m1 i)\<rparr>"
    by simp
  have lx: "length ?xs = n" using assms(5) by simp
  have xs: "map (\<lambda>i. if i < n then GetValue (SuccessErrorable ?xs) ! i else byteBufferWriteBuffer m1 i) [0..<n] = ?xs"
    using lx by (intro nth_equalityI) simp_all
  have ok2: "bb_ok (m2, self)" "bb_ok (m2, input1)" "bb_contents (m2, self) = bb_contents (m, self)"
    "bb_contents (m2, input1) = bb_contents (m1, input1)"
    using r(2) f(1,2) by (simp_all add: m2)
  have l: "length (bb_contents (m2, self)) + length ?xs < alloc_max"
    using assms(7) lx ok2(3) by simp
  obtain m3 self1 where w: "Impl_WriteBytes ?xs (length ?xs) (m2, self) = Some (m3, self1)"
    "bb_ok (m3, self1)" "bb_contents (m3, self1) = bb_contents (m2, self) @ ?xs"
    "bb_ok (m3, input1)" "bb_contents (m3, input1) = bb_contents (m2, input1)" "apart self1 input1"
    "same_reader (m2, self) (m3, self1)"
    using write_transferred [OF ok2(1,2) apart_sym [OF f(3)] l] by metis
  have "Impl_WriteBytes_buffer n (m, self, input) = Some (m3, self1, input1)"
    using assms(6) r(1) w(1) lx
    by (simp add: Impl_WriteBytes_buffer_def m2 [symmetric] xs del: map_eq_conv)
  then show ?thesis using w r(3) ok2(3,4) by (auto simp: same_reader_def)
qed



text \<open>When the source has too few bytes the error of the read is ignored: the target receives that many bytes of
  what the thread's transfer buffer happens to hold, and the source keeps its bytes.\<close>

lemma write_buffer_stale:
  assumes "bb_ok (m, self)" and "bb_ok (m, input)" and "apart self input"
    and "length (bb_contents (m, input)) < n" and "n \<le> MAX_PACKET_SIZE"
    and "length (bb_contents (m, self)) + n < alloc_max"
  shows "\<exists>m' self'. Impl_WriteBytes_buffer n (m, self, input) = Some (m', self', input) \<and>
    bb_ok (m', self') \<and> bb_contents (m', input) = bb_contents (m, input) \<and>
    bb_contents (m', self') = bb_contents (m, self) @ map (byteBufferWriteBuffer m) [0..<n]"
proof -
  let ?xs = "map (byteBufferWriteBuffer m) [0..<n]"
  have l: "length (bb_contents (m, self)) + length ?xs < alloc_max" using assms(6) by simp
  obtain m1 self1 where w: "Impl_WriteBytes ?xs (length ?xs) (m, self) = Some (m1, self1)"
    "bb_ok (m1, self1)" "bb_contents (m1, self1) = bb_contents (m, self) @ ?xs"
    "bb_ok (m1, input)" "bb_contents (m1, input) = bb_contents (m, input)"
    using write_transferred [OF assms(1-3) l] by metis
  have "Impl_WriteBytes_buffer n (m, self, input) = Some (m1, self1, input)"
    using assms(5) w(1) Impl_ReadBytes_short [OF assms(2,4), of ?xs]
    by (simp add: Impl_WriteBytes_buffer_def)
  then show ?thesis using w by auto
qed

lemma write_buffer_stale_witness:
  "\<exists>m' self' input'. Impl_WriteBytes_buffer 3 (fst (two_pages 0), snd (two_pages 0),
      ByteBufferImpl_of_page 1 2\<lparr>localWriterIndex := 2, readableBytes := 2\<rparr>) = Some (m', self', input') \<and>
    bb_contents (m', self') = [0xBB, 0xBB, 0xBB] \<and> bb_contents (m', input') = [1, 2]"
proof -
  have upt3: "map (byteBufferWriteBuffer (fst (two_pages 0))) [0..<3] = [0xBB, 0xBB, 0xBB]"
    by (simp add: two_pages_def mem0_def upt_rec)
  have c: "bb_contents (two_pages 0) = []"
    by (simp add: two_pages_def bb_contents_def queue_def page_list_def)
  have a: "apart (snd (two_pages 0)) (ByteBufferImpl_of_page 1 2\<lparr>localWriterIndex := 2, readableBytes := 2\<rparr>)"
    by (simp add: apart_def two_pages_def ByteBufferImpl_of_page_def)
  have "bb_ok (fst (two_pages 0), snd (two_pages 0))" using two_pages_ok [of 0] by simp
  from write_buffer_stale [OF this second_page_ok(1) a, of 3]
  show ?thesis using c second_page_ok(2) upt3 by (fastforce simp: MAX_PACKET_SIZE_def small_alloc)
qed

end
