(* ===== verification/Ship_Impl_Edges.thy ===== *)
theory Ship_Impl_Edges
  imports Ship_Impl_Frame
begin

text \<open>
  The operations of \<open>ByteBufferImpl\<close> the contract of a byte buffer leaves out: skipping, handing over
  pages, empty blocks, byte arrays and releasing.  Here the exact conditions under which they act as
  their names say are stated.
\<close>

section \<open>A buffer filled byte by byte\<close>

lemma Impl_WriteByte_reader:
  "Impl_WriteByte x s = Some s' \<Longrightarrow>
     localReaderIndex (snd s') = localReaderIndex (snd s) \<and> singleCapacity (snd s') = singleCapacity (snd s)"
  by (auto simp: Impl_WriteByte_def TryRefreshWriterBuffer_def AppendBuffer_def Let_def
      split: prod.splits if_splits bind_splits)

lemma put_list_reader:
  "put_list Impl_WriteByte xs s = Some s' \<Longrightarrow>
     localReaderIndex (snd s') = localReaderIndex (snd s) \<and> singleCapacity (snd s') = singleCapacity (snd s)"
  by (induction xs arbitrary: s) (auto simp: Impl_WriteByte_reader split: bind_splits)

lemma mem0_sizes: "0 < (2 :: nat)" "2 \<le> alloc_max" "0 < (4 :: nat)" "4 \<le> alloc_max" "length [a, b, c] < alloc_max"
  by (simp_all add: alloc_max_def)

lemma reader_le_total:
  assumes "bb_ok (m, b)"
  shows "localReaderIndex b \<le> (length (buffers b) - 1) * singleCapacity b + localWriterIndex b"
proof (cases "length (buffers b) = 1")
  case True
  then show ?thesis using assms by (simp add: bb_ok_def)
next
  case False
  then obtain k where "length (buffers b) - 1 = Suc k"
    using bb_okD(1) [OF assms] by (cases "buffers b"; cases "tl (buffers b)") (auto simp: pages_ok_def)
  then show ?thesis using bb_okD(4) [OF assms] by simp
qed

lemma readable_total:
  assumes "bb_ok (m, b)"
  shows "readableBytes b + localReaderIndex b = (length (buffers b) - 1) * singleCapacity b + localWriterIndex b"
  using reader_le_total [OF assms] bb_okD(6) [OF assms] length_bb_contents [OF bb_okD(1,5) [OF assms]]
  by simp

lemma new_put_list:
  assumes "0 < cap" and "cap \<le> alloc_max" and "length xs < alloc_max"
  obtains m b where "put_list Impl_WriteByte xs (ByteBufferImpl_new cap mem0) = Some (m, b)"
    "bb_ok (m, b)" "bb_contents (m, b) = xs" "localReaderIndex b = 0" "readableBytes b = length xs"
    "singleCapacity b = cap"
proof -
  note new = ByteBufferImpl_new_ok [OF mem0_ok assms(1,2)]
  have "holds bb_ok bb_contents (put_list Impl_WriteByte xs (ByteBufferImpl_new cap mem0)) xs"
    using impl.put_list_law [OF new(1), of xs] new(2) assms(3) by simp
  then obtain m b where s: "put_list Impl_WriteByte xs (ByteBufferImpl_new cap mem0) = Some (m, b)"
    "bb_ok (m, b)" "bb_contents (m, b) = xs" by (auto elim: holdsE)
  moreover have "localReaderIndex b = 0" "singleCapacity b = cap"
    using put_list_reader [OF s(1)] by (simp_all add: ByteBufferImpl_new_def new_page_def)
  ultimately show thesis using that bb_okD(6) [OF s(2)] by simp
qed

section \<open>Skipping at the reader\<close>

lemma PopBuffer_counters:
  "PopBuffer (m, b\<lparr>readableBytes := r\<rparr>) =
     map_option (\<lambda>(m1, b1). (m1, b1\<lparr>readableBytes := r\<rparr>)) (PopBuffer (m, b))"
  "PopBuffer (m, b\<lparr>localReaderIndex := i\<rparr>) = PopBuffer (m, b)"
  by (auto simp: PopBuffer_def split: list.splits option.splits bind_splits)

lemma PopBuffer_writer:
  "PopBuffer (m, b) = Some (m1, b1) \<Longrightarrow> localWriterIndex b1 = localWriterIndex b"
  by (auto simp: PopBuffer_def split: list.splits bind_splits)

lemma SkipReadBytes_loop_ok:
  assumes "bb_ok (m, b)" and "localReaderIndex b = 0" and "count \<le> readableBytes b"
  shows "\<exists>count' m' b'. SkipReadBytes_loop count m (b\<lparr>readableBytes := rd\<rparr>)
      = Some (count', (m', b'\<lparr>readableBytes := rd\<rparr>)) \<and>
    bb_ok (m', b') \<and> localReaderIndex b' = 0 \<and> singleCapacity b' = singleCapacity b \<and>
    count' \<le> singleCapacity b \<and> count' \<le> count \<and> readableBytes b' = readableBytes b - (count - count') \<and>
    localWriterIndex b' = localWriterIndex b \<and>
    bb_contents (m', b') = drop (count - count') (bb_contents (m, b))"
  using assms
proof (induction count arbitrary: m b rule: less_induct)
  case (less count)
  let ?c = "singleCapacity b"
  have c: "sz_sub ?c 0 = ?c" "?c < size_max"
    using bb_okD(3) [OF less.prems(1)] by (simp_all add: alloc_max_def size_max_def)
  show ?case
  proof (cases "?c < count")
    case False
    then show ?thesis using less.prems c
      by (intro exI [of _ count] exI [of _ m] exI [of _ b]) (simp add: SkipReadBytes_loop.simps)
  next
    case True
    have cpos: "0 < ?c" using less.prems(1) by (rule bb_okD)
    have k: "?c = ?c - localReaderIndex b" "?c < readableBytes b" using less.prems True by simp_all
    obtain m2 b2 where st:
      "PopBuffer (m, b\<lparr>readableBytes := readableBytes b - ?c, localReaderIndex := 0\<rparr>) = Some (m2, b2)"
      "bb_ok (m2, b2)" "bb_contents (m2, b2) = drop ?c (bb_contents (m, b))"
      "localReaderIndex b2 = 0" "singleCapacity b2 = ?c" "readableBytes b2 = readableBytes b - ?c"
      using load_page_ok [OF less.prems(1) k] by metis
    have pop: "PopBuffer (m, b\<lparr>readableBytes := rd\<rparr>) = Some (m2, b2\<lparr>readableBytes := rd\<rparr>)"
      using st(1) by (auto simp: PopBuffer_counters)
    have ssz: "sz_sub count ?c = count - ?c"
      using less.prems(3) True bb_okD(7) [OF less.prems(1)] by (intro sz_sub_exact) simp_all
    have "SkipReadBytes_loop count m (b\<lparr>readableBytes := rd\<rparr>)
        = SkipReadBytes_loop (count - ?c) m2 (b2\<lparr>readableBytes := rd\<rparr>)"
      using True c ssz less.prems(2) st(4,5) pop
      by (subst SkipReadBytes_loop.simps) simp
    moreover have pre: "count - ?c < count" "count - ?c \<le> readableBytes b2"
      using less.prems(3) True cpos st(6) by simp_all
    moreover obtain count' m' b' where
      "SkipReadBytes_loop (count - ?c) m2 (b2\<lparr>readableBytes := rd\<rparr>) = Some (count', (m', b'\<lparr>readableBytes := rd\<rparr>))"
      "bb_ok (m', b')" "localReaderIndex b' = 0" "singleCapacity b' = singleCapacity b2"
      "count' \<le> singleCapacity b2" "count' \<le> count - ?c"
      "readableBytes b' = readableBytes b2 - (count - ?c - count')" "localWriterIndex b' = localWriterIndex b2"
      "bb_contents (m', b') = drop (count - ?c - count') (bb_contents (m2, b2))"
      using less.IH [OF pre(1) st(2,4) pre(2)] by blast
    moreover have "localWriterIndex b2 = localWriterIndex b" using PopBuffer_writer [OF st(1)] by simp
    ultimately show ?thesis using st True
      by (intro exI [of _ count'] exI [of _ m'] exI [of _ b']) (simp add: add.commute)
  qed
qed

text \<open>The end of the skip: the reader is put at \<open>count\<close> in the current front page.\<close>

lemma skip_finish:
  assumes "bb_ok (m, b)" and "localReaderIndex b = 0" and "count \<le> singleCapacity b"
    and "count \<le> readableBytes b" and "count < readableBytes b \<or> localWriterIndex b < singleCapacity b"
  shows "\<exists>s. TryRefreshReaderBuffer (m, b\<lparr>localReaderIndex := count, readableBytes := readableBytes b - count\<rparr>) = Some s
    \<and> bb_ok s \<and> bb_contents s = drop count (bb_contents (m, b))"
proof -
  let ?b1 = "b\<lparr>localReaderIndex := count, readableBytes := readableBytes b - count\<rparr>"
  have le: "localReaderIndex b + count \<le> singleCapacity b" using assms(2,3) by simp
  have p: "bb_ok (m, ?b1)" "bb_contents (m, ?b1) = drop count (bb_contents (m, b))"
    using peek_ok(2,3) [OF assms(1) le assms(4)] assms(2) by simp_all
  show ?thesis
  proof (cases "count = singleCapacity b")
    case False
    then show ?thesis using p assms(3) by (auto simp: TryRefreshReaderBuffer_def)
  next
    case True
    have "tl (buffers b) \<noteq> []"
    proof
      assume "tl (buffers b) = []"
      then have "length (buffers b) = 1"
        using bb_okD(1) [OF assms(1)] by (cases "buffers b") (auto simp: pages_ok_def)
      then have "readableBytes b = localWriterIndex b"
        using bb_okD(6) [OF assms(1)] length_bb_contents [OF bb_okD(1,5) [OF assms(1)]] assms(2) by simp
      then show False using assms(4,5) True bb_okD(5) [OF assms(1)] by simp
    qed
    then have tl: "tl (buffers ?b1) \<noteq> []" and full: "localReaderIndex ?b1 = singleCapacity ?b1"
      using True by simp_all
    obtain m1 b1 where "PopBuffer (m, ?b1) = Some (m1, b1)" "bb_ok (m1, b1)"
      "bb_contents (m1, b1) = bb_contents (m, ?b1)"
      using PopBuffer_ok [OF p(1) full tl] by metis
    then show ?thesis using p(2) True by (simp add: TryRefreshReaderBuffer_def)
  qed
qed

lemma skip_from_start:
  assumes "bb_ok (m, b)" and "localReaderIndex b = 0" and "count \<le> readableBytes b"
    and "count < readableBytes b \<or> localWriterIndex b < singleCapacity b"
  shows "\<exists>v s m1 b1. SkipReadBytes_loop count m (b\<lparr>readableBytes := readableBytes b - count\<rparr>) = Some (v, (m1, b1)) \<and>
    TryRefreshReaderBuffer (m1, b1\<lparr>localReaderIndex := v\<rparr>) = Some s \<and>
    bb_ok s \<and> bb_contents s = drop count (bb_contents (m, b))"
proof -
  let ?rd = "readableBytes b - count"
  obtain v m1 b1 where l:
    "SkipReadBytes_loop count m (b\<lparr>readableBytes := ?rd\<rparr>) = Some (v, (m1, b1\<lparr>readableBytes := ?rd\<rparr>))"
    "bb_ok (m1, b1)" "localReaderIndex b1 = 0" "singleCapacity b1 = singleCapacity b"
    "v \<le> singleCapacity b" "v \<le> count" "readableBytes b1 = readableBytes b - (count - v)"
    "localWriterIndex b1 = localWriterIndex b"
    "bb_contents (m1, b1) = drop (count - v) (bb_contents (m, b))"
    using SkipReadBytes_loop_ok [OF assms(1-3), of ?rd] by blast
  have rd: "?rd = readableBytes b1 - v" using l(6,7) assms(3) by simp
  have "\<exists>s. TryRefreshReaderBuffer (m1, b1\<lparr>localReaderIndex := v, readableBytes := readableBytes b1 - v\<rparr>) = Some s
      \<and> bb_ok s \<and> bb_contents s = drop v (bb_contents (m1, b1))"
    using l assms(3,4) by (intro skip_finish) auto
  then show ?thesis using l(1,6,9) rd by (auto simp: add.commute)
qed

text \<open>C36.  \<open>SkipReadBytes\<close> drops the given number of bytes from the queue when the reader stands at the start of
  a page or the skip leaves the current page, provided it does not exhaust a completely filled last page.\<close>

theorem skip_read_correct:
  assumes "bb_ok (m, b)" and "count \<le> readableBytes b"
    and "localReaderIndex b = 0 \<or> singleCapacity b - localReaderIndex b < count"
    and "count < readableBytes b \<or> localWriterIndex b < singleCapacity b"
  shows "\<exists>v. gives bb_ok bb_contents (Impl_SkipReadBytes count (m, b)) (SuccessErrorable v)
    (drop count (bb_contents (m, b)))"
proof -
  have sz: "sz_sub (readableBytes b) count = readableBytes b - count"
    using assms(2) bb_okD(7) [OF assms(1)] by (intro sz_sub_exact) simp_all
  have "\<exists>v s m1 b1. SkipReadBytes_loop count m (b\<lparr>readableBytes := readableBytes b - count\<rparr>) = Some (v, (m1, b1)) \<and>
    TryRefreshReaderBuffer (m1, b1\<lparr>localReaderIndex := v\<rparr>) = Some s \<and>
    bb_ok s \<and> bb_contents s = drop count (bb_contents (m, b))"
  proof (cases "localReaderIndex b = 0")
    case True
    then show ?thesis using skip_from_start assms by metis
  next
    case False
    obtain k where k: "k = singleCapacity b - localReaderIndex b" by simp
    then have kc: "k < count" "k < readableBytes b" using assms(2,3) False by simp_all
    have ck: "sz_sub (singleCapacity b) (localReaderIndex b) = k"
      using bb_okD(3,4) [OF assms(1)] k by (simp add: alloc_max_def size_max_def)
    have cs: "sz_sub count k = count - k"
      using assms(2) kc bb_okD(7) [OF assms(1)] by (intro sz_sub_exact) simp_all
    obtain m2 b2 where st:
      "PopBuffer (m, b\<lparr>readableBytes := readableBytes b - k, localReaderIndex := 0\<rparr>) = Some (m2, b2)"
      "bb_ok (m2, b2)" "bb_contents (m2, b2) = drop k (bb_contents (m, b))"
      "localReaderIndex b2 = 0" "singleCapacity b2 = singleCapacity b" "readableBytes b2 = readableBytes b - k"
      using load_page_ok [OF assms(1) k kc(2)] by metis
    let ?rd = "readableBytes b - count"
    have pop: "PopBuffer (m, b\<lparr>readableBytes := ?rd\<rparr>) = Some (m2, b2\<lparr>readableBytes := ?rd\<rparr>)"
      using st(1) by (auto simp: PopBuffer_counters)
    have step: "SkipReadBytes_loop count m (b\<lparr>readableBytes := ?rd\<rparr>)
        = SkipReadBytes_loop (count - k) m2 (b2\<lparr>readableBytes := readableBytes b2 - (count - k)\<rparr>)"
      using kc pop ck cs st(6) by (subst SkipReadBytes_loop.simps) simp
    have "localWriterIndex b2 = localWriterIndex b" using PopBuffer_writer [OF st(1)] by simp
    then have "count - k \<le> readableBytes b2"
      "count - k < readableBytes b2 \<or> localWriterIndex b2 < singleCapacity b2"
      using assms(2,4) kc st(5,6) by auto
    from skip_from_start [OF st(2,4) this] show ?thesis
      unfolding step using kc st(3) by (simp add: add.commute)
  qed
  then show ?thesis
    using assms(2) sz by (auto simp: Impl_SkipReadBytes_def gives_def)
qed

theorem skip_read_correct_witness:
  "\<exists>s v. put_list Impl_WriteByte [1, 2, 3] (ByteBufferImpl_new 2 mem0) = Some s \<and>
     gives bb_ok bb_contents (Impl_SkipReadBytes 2 s) (SuccessErrorable v) [3]"
proof -
  obtain m b where s: "put_list Impl_WriteByte [1, 2, 3] (ByteBufferImpl_new 2 mem0) = Some (m, b)"
    "bb_ok (m, b)" "bb_contents (m, b) = [1, 2, 3]" "localReaderIndex b = 0" "readableBytes b = length [1, 2, 3 :: u8]"
    using new_put_list [of 2 "[1, 2, 3]"] by (metis mem0_sizes)
  have "\<exists>v. gives bb_ok bb_contents (Impl_SkipReadBytes 2 (m, b)) (SuccessErrorable v) (drop 2 [1, 2, 3])"
    using skip_read_correct [OF s(2), of 2] s(3-5) by (simp only: length_Cons list.size) simp
  then show ?thesis using s(1) by auto
qed

text \<open>Inside a page the reader is put at \<open>count\<close> instead of moved by it: such a skip leaves a
  well-formed buffer only if the reader stood at the start of the page; otherwise \<open>readableBytes\<close> no longer counts the
  bytes between the indices.\<close>

lemma skip_read_inside_page:
  assumes "bb_ok (m, b)" and "count \<le> readableBytes b"
    and "count \<le> singleCapacity b - localReaderIndex b" and "count < singleCapacity b"
  shows "\<exists>b'. Impl_SkipReadBytes count (m, b) = Some (SuccessErrorable count, (m, b')) \<and>
    localReaderIndex b' = count \<and> readableBytes b' = readableBytes b - count \<and>
    (bb_ok (m, b') \<longleftrightarrow> localReaderIndex b = 0)"
proof -
  let ?b1 = "b\<lparr>localReaderIndex := count, readableBytes := readableBytes b - count\<rparr>"
  have sz: "sz_sub (readableBytes b) count = readableBytes b - count"
    using assms(2) bb_okD(7) [OF assms(1)] by (intro sz_sub_exact) simp_all
  have c: "sz_sub (singleCapacity b) (localReaderIndex b) = singleCapacity b - localReaderIndex b"
    using bb_okD(3,4) [OF assms(1)] by (simp add: alloc_max_def size_max_def)
  have eq: "Impl_SkipReadBytes count (m, b) = Some (SuccessErrorable count, (m, ?b1))"
    using assms(2-4) sz c
    by (simp add: Impl_SkipReadBytes_def SkipReadBytes_loop.simps TryRefreshReaderBuffer_def)
  have "bb_ok (m, ?b1)" if "localReaderIndex b = 0"
    using peek_ok(2) [OF assms(1), of count] that assms(2,3) by simp
  moreover have "localReaderIndex b = 0" if ok: "bb_ok (m, ?b1)"
  proof -
    show ?thesis using readable_total [OF ok] readable_total [OF assms(1)] assms(2) by simp
  qed
  ultimately show ?thesis using eq by auto
qed

lemma skip_read_inside_page_witness:
  "\<exists>m b b'. bb_ok (m, b) \<and> bb_contents (m, b) = [2, 3] \<and>
     Impl_SkipReadBytes 1 (m, b) = Some (SuccessErrorable 1, (m, b')) \<and>
     localReaderIndex b' = 1 \<and> \<not> bb_ok (m, b')"
proof -
  obtain m b where s: "bb_ok (m, b)" "bb_contents (m, b) = [1, 2, 3]" "localReaderIndex b = 0"
    "readableBytes b = length [1, 2, 3 :: u8]" "singleCapacity b = 4"
    using new_put_list [of 4 "[1, 2, 3]"] by (metis mem0_sizes)
  let ?b = "b\<lparr>localReaderIndex := 0 + 1, readableBytes := 3 - 1\<rparr>"
  have "bb_ok (m, ?b)" "bb_contents (m, ?b) = drop 1 [1, 2, 3]"
    using peek_ok(2,3) [OF s(1), of 1] s by (simp_all add: numeral_2_eq_2)
  moreover from this obtain b' where "Impl_SkipReadBytes 1 (m, ?b) = Some (SuccessErrorable 1, (m, b'))"
    "localReaderIndex b' = 1" "bb_ok (m, b') \<longleftrightarrow> localReaderIndex ?b = 0"
    using skip_read_inside_page [of m ?b 1] s(5) by auto
  ultimately show ?thesis by (intro exI [of _ m] exI [of _ ?b] exI [of _ b']) simp
qed

section \<open>Skipping at the writer\<close>

text \<open>\<open>SkipWriteBytes\<close> puts the writer at \<open>count\<close> instead of moving it by \<open>count\<close>: inside a page the
  result is well formed only if the writer stood at the start of the page.  A skip that leaves a partly filled page
  with a \<open>count\<close> below the page size subtracts a whole page from it and
  continues with the wrapped-around count.\<close>

lemma skip_write_misplaced:
  assumes "bb_ok (m, b)" and "readableBytes b + count < size_max" and "count < singleCapacity b"
  shows "if count \<le> singleCapacity b - localWriterIndex b
    then \<exists>b'. Impl_SkipWriteBytes count (m, b) = Some (count, (m, b')) \<and> localWriterIndex b' = count \<and>
           (bb_ok (m, b') \<longrightarrow> count = 0 \<or> localWriterIndex b = 0)
    else SkipWriteBytes_loop count m b =
           (case AppendBuffer (m, b) of (m1, b1) \<Rightarrow>
              SkipWriteBytes_loop (size_max - (singleCapacity b - count)) m1 b1)"
proof -
  have c: "sz_sub (singleCapacity b) (localWriterIndex b) = singleCapacity b - localWriterIndex b"
    using bb_okD(3,5) [OF assms(1)] by (simp add: alloc_max_def size_max_def)
  have ad: "sz_add (readableBytes b) count = readableBytes b + count"
    using assms(2) by simp
  show ?thesis
  proof (cases "count \<le> singleCapacity b - localWriterIndex b")
    case True
    let ?b1 = "b\<lparr>localWriterIndex := count, readableBytes := readableBytes b + count\<rparr>"
    have "Impl_SkipWriteBytes count (m, b) = Some (count, (m, ?b1))"
      using True assms(3) c ad
      by (simp add: Impl_SkipWriteBytes_def SkipWriteBytes_loop.simps TryRefreshWriterBuffer_def)
    moreover have "count = 0 \<or> localWriterIndex b = 0" if ok: "bb_ok (m, ?b1)"
      using readable_total [OF ok] readable_total [OF assms(1)] by simp
    ultimately show ?thesis using True by auto
  next
    case False
    have "singleCapacity b < size_max" using bb_okD(3) [OF assms(1)] by (simp add: alloc_max_def size_max_def)
    then have "sz_sub count (singleCapacity b) = size_max - (singleCapacity b - count)"
      using assms(3) by (simp add: sz_sub_def)
    then show ?thesis
      using False c by (subst SkipWriteBytes_loop.simps) (simp add: case_prod_unfold)
  qed
qed

lemma skip_write_misplaced_witness:
  "\<exists>m b. bb_ok (m, b) \<and> bb_contents (m, b) = [1, 2, 3] \<and>
     SkipWriteBytes_loop 2 m b =
       (case AppendBuffer (m, b) of (m1, b1) \<Rightarrow> SkipWriteBytes_loop (size_max - (4 - 2)) m1 b1)"
proof -
  obtain m b where s: "bb_ok (m, b)" "bb_contents (m, b) = [1, 2, 3]" "localReaderIndex b = 0"
    "readableBytes b = length [1, 2, 3 :: u8]" "singleCapacity b = 4"
    using new_put_list [of 4 "[1, 2, 3]"] by (metis mem0_sizes)
  have "length (buffers b) - 1 = 0" "localWriterIndex b = 3"
    using readable_total [OF s(1)] s(3-5) by (cases "length (buffers b) - 1"; simp)+
  moreover have "readableBytes b + 2 < size_max" using s(4) by (simp add: size_max_def)
  ultimately have "SkipWriteBytes_loop 2 m b =
      (case AppendBuffer (m, b) of (m1, b1) \<Rightarrow> SkipWriteBytes_loop (size_max - (4 - 2)) m1 b1)"
    using skip_write_misplaced [OF s(1), of 2] s(5) by (simp only: if_False)
  then show ?thesis using s(1,2) by blast
qed

section \<open>Empty blocks\<close>

text \<open>Reading no bytes at all is undefined exactly when the reader stands at the end of the last page:
  the refresh drops the only page and takes the front of the empty deque.\<close>

lemma read_nothing_undefined_iff:
  assumes "bb_ok (m, b)"
  shows "Impl_ReadBytes [] 0 (m, b) = None \<longleftrightarrow>
    localReaderIndex b = singleCapacity b \<and> tl (buffers b) = []"
proof (cases "localReaderIndex b = singleCapacity b")
  case False
  then have "localReaderIndex b < singleCapacity b" using bb_okD(4) [OF assms] by simp
  then have "TryRefreshReaderBuffer (m, b) = Some (m, b)" "sz_add (localReaderIndex b) 0 = localReaderIndex b"
    using bb_okD(3) [OF assms] by (simp_all add: TryRefreshReaderBuffer_def alloc_max_def size_max_def)
  moreover have "peek (currentReadBuffer b) (localReaderIndex b) 0 m = Some []"
    using peek_ok(1) [OF assms, of 0] bb_okD(4) [OF assms] by simp
  ultimately show ?thesis
    using False bb_okD(4) [OF assms]
    by (simp add: Impl_ReadBytes_def ReadBytes_tail_def overwrite_def)
next
  case full: True
  show ?thesis
  proof (cases "tl (buffers b) = []")
    case True
    have "TryRefreshReaderBuffer (m, b) = None"
      using full True by (auto simp: TryRefreshReaderBuffer_def PopBuffer_def split: list.splits bind_splits)
    then show ?thesis using full True by (simp add: Impl_ReadBytes_def)
  next
    case False
    obtain m1 b1 where r: "PopBuffer (m, b) = Some (m1, b1)" "bb_ok (m1, b1)" "localReaderIndex b1 = 0"
      using PopBuffer_ok [OF assms full False] by metis
    moreover have "peek (currentReadBuffer b1) 0 0 m1 = Some []"
      using peek_ok(1) [OF r(2), of 0] r(3) by simp
    moreover have "sz_add 0 0 = 0" by (simp add: size_max_def)
    ultimately show ?thesis
      using full False
      by (simp add: Impl_ReadBytes_def ReadBytes_tail_def overwrite_def TryRefreshReaderBuffer_def)
  qed
qed

lemma full_page_example:
  "Option.bind (Impl_WriteByte 1 (ByteBufferImpl_new 2 mem0)) (Impl_WriteByte 2) =
     Some (mem0\<lparr>next_page := 1, pages := [0 \<mapsto> [1, 2]]\<rparr>,
       \<lparr>buffers = [0], singleCapacity = 2, currentReadBuffer = 0, currentWriteBuffer = 0,
        localReaderIndex = 0, localWriterIndex = 2, readableBytes = 2\<rparr>)"
proof -
  have "(2 :: nat) < size_max" by (simp add: size_max_def)
  then show ?thesis
    by (simp add: ByteBufferImpl_new_def new_page_def Impl_WriteByte_def TryRefreshWriterBuffer_def
        poke_def overwrite_def new_array_def mem0_def upt_rec numeral_2_eq_2)
qed

lemma read_nothing_undefined_iff_witness:
  "\<exists>m b. bb_ok (m, b) \<and> bb_contents (m, b) = [] \<and> Impl_ReadBytes [] 0 (m, b) = None"
proof -
  let ?m = "mem0\<lparr>next_page := 1, pages := [0 \<mapsto> [1, 2]]\<rparr>"
  let ?b = "\<lparr>buffers = [0], singleCapacity = 2, currentReadBuffer = 0, currentWriteBuffer = 0,
        localReaderIndex = 2, localWriterIndex = 2, readableBytes = 0\<rparr>"
  have c: "bb_contents (?m, ?b) = []" by (simp add: bb_contents_def queue_def page_list_def)
  then have "bb_ok (?m, ?b)" by (simp add: bb_ok_def pages_ok_def alloc_max_def size_max_def)
  then show ?thesis using read_nothing_undefined_iff [of ?m ?b] c by auto
qed

section \<open>Handing over a page\<close>

lemma WriteBytesAndDelete_copies:
  assumes "bb_ok (m, b)" and "pages m a = Some xs" and "a \<notin> set (buffers b)"
    and "readableBytes b + length xs < alloc_max"
    and "\<not> (localWriterIndex b = 0 \<and> length xs = singleCapacity b)"
  shows "\<exists>m1 b1. Impl_WriteBytesAndDelete a (length xs) (m, b) = Some (m1, b1) \<and>
    bb_ok (m1, b1) \<and> bb_contents (m1, b1) = bb_contents (m, b) @ xs \<and> pages m1 a = None"
proof -
  have "length (bb_contents (m, b)) + length xs < alloc_max"
    using assms(4) bb_okD(6) [OF assms(1)] by simp
  from Impl_WriteBytes_ok [OF assms(1) this] obtain m1 b1 where w:
    "Impl_WriteBytes xs (length xs) (m, b) = Some (m1, b1)" "bb_ok (m1, b1)"
    "bb_contents (m1, b1) = bb_contents (m, b) @ xs" by (auto elim: holdsE)
  have "a < next_page m" "currentWriteBuffer b \<noteq> a"
    using assms(2,3) bb_okD(1) [OF assms(1)] by (auto simp: pages_ok_def)
  then have "sep {a} (m, b)"
    using assms(3) bb_ok_mem_ok [OF assms(1)] by (simp add: sep_def)
  then have a: "pages m1 a = Some xs" "a \<notin> set (buffers b1)"
    using frameD [OF frame_Impl_WriteBytes [OF w(1), of "{a}"]] assms(2) by (simp_all add: agree_def sep_def)
  let ?m2 = "m1\<lparr>pages := (pages m1)(a := None)\<rparr>"
  have "bb_ok (?m2, b1)" "bb_contents (?m2, b1) = bb_contents (m1, b1)"
    using bb_ok_mem_ok [OF w(2)] a(2)
    by (auto intro!: bb_frame [OF w(2)] simp: mem_ok_def split: if_splits)
  moreover have "Impl_WriteBytesAndDelete a (length xs) (m, b) = Some (?m2, b1)"
    using assms(2,5) w(1) a(1) by (auto simp: Impl_WriteBytesAndDelete_def delete_page_def)
  ultimately show ?thesis using w(3) by auto
qed

text \<open>C37.  \<open>WriteBytesAndDelete\<close> appends the bytes and frees their array, except when a page-sized array
  meets an untouched page: then the array takes the place of the page in the deque, but no byte becomes readable,
  the writer keeps writing to the page that was dropped, and that page is never freed.\<close>

theorem write_and_delete:
  assumes "bb_ok (m, b)" and "pages m a = Some xs" and "a \<notin> set (buffers b)"
    and "readableBytes b + length xs < alloc_max"
  shows "if localWriterIndex b = 0 \<and> length xs = singleCapacity b
    then \<exists>b'. Impl_WriteBytesAndDelete a (length xs) (m, b) = Some (m, b') \<and>
           buffers b' = butlast (buffers b) @ [a] \<and> readableBytes b' = readableBytes b \<and>
           currentWriteBuffer b' \<notin> set (buffers b') \<and> pages m (currentWriteBuffer b') \<noteq> None
    else \<exists>m1 b1. Impl_WriteBytesAndDelete a (length xs) (m, b) = Some (m1, b1) \<and>
           bb_ok (m1, b1) \<and> bb_contents (m1, b1) = bb_contents (m, b) @ xs \<and> pages m1 a = None"
proof (cases "localWriterIndex b = 0 \<and> length xs = singleCapacity b")
  case True
  let ?b' = "b\<lparr>buffers := butlast (buffers b) @ [a]\<rparr>"
  have ok: "buffers b \<noteq> []" "currentWriteBuffer b = last (buffers b)" "distinct (buffers b)"
    "pages m (last (buffers b)) \<noteq> None"
    using bb_okD(1) [OF assms(1)] by (auto simp: pages_ok_def)
  then have "last (buffers b) \<notin> set (butlast (buffers b))"
    by (metis append_butlast_last_id distinct_append disjoint_iff list.set_intros(1))
  moreover have "last (buffers b) \<noteq> a" using ok(1) assms(3) last_in_set by metis
  ultimately show ?thesis using True ok
    by (simp add: Impl_WriteBytesAndDelete_def)
next
  case False
  show ?thesis unfolding if_not_P [OF False] by (rule WriteBytesAndDelete_copies [OF assms False])
qed

theorem write_and_delete_witness:
  "\<exists>b'. Impl_WriteBytesAndDelete 1 2 (two_pages 0) = Some (fst (two_pages 0), b') \<and>
     readableBytes b' = 0 \<and> currentWriteBuffer b' \<notin> set (buffers b')"
  using write_and_delete [of "fst (two_pages 0)" "snd (two_pages 0)" 1 "[1, 2]"] two_pages_ok [of 0]
  by (auto simp: two_pages_def small_alloc numeral_2_eq_2)

section \<open>Byte arrays\<close>

text \<open>The array \<open>ReadBytes\<close> allocated becomes the only page of the new buffer.\<close>

definition Impl_adopt :: "u8 list \<Rightarrow> nat \<Rightarrow> bb_state \<Rightarrow> byte_buffer_impl \<times> bb_state" where
  "Impl_adopt bytes n s =
     (case s of (m, b) \<Rightarrow>
        (ByteBufferImpl_of_page (next_page m) n,
         (m\<lparr>next_page := next_page m + 1, pages := (pages m)(next_page m \<mapsto> bytes)\<rparr>, b)))"

text \<open>\<open>ReadByteArray\<close> consumes a length-prefixed payload and returns a buffer whose only page holds it, but
  that buffer reports no readable byte: the constructor leaves \<open>readableBytes\<close> at 0, so none of the checked readers
  gets at the payload.\<close>

lemma read_byte_array_reports_empty:
  assumes "bb_ok (m, b)" and "bb_contents (m, b) = leb128 (length payload) @ payload @ rest"
    and "payload \<noteq> []" and "length payload < 2 ^ 32"
  shows "\<exists>nb m' b'. ReadByteArray Impl_ReadByteUnsafe Impl_GetReadableBytes Impl_ReadBytes j Impl_adopt (m, b)
      = Some (SuccessErrorable (Some nb), (m', b')) \<and>
    bb_ok (m', b') \<and> bb_contents (m', b') = rest \<and>
    pages m' (currentReadBuffer nb) = Some payload \<and> Impl_GetReadableBytes (m', nb) = 0"
proof -
  let ?n = "of_nat (length payload) :: u32"
  have n: "unat ?n = length payload" using assms(4) by (rule u32_exact)
  have "gives bb_ok bb_contents (ReadVarInt Impl_ReadByteUnsafe Impl_GetReadableBytes (m, b))
      (SuccessErrorable ?n) (payload @ rest)"
    using assms(1,2) n by (intro impl.ReadVarInt_at) simp_all
  then obtain s1 where s1: "ReadVarInt Impl_ReadByteUnsafe Impl_GetReadableBytes (m, b) = Some (SuccessErrorable ?n, s1)"
    "bb_ok s1" "bb_contents s1 = payload @ rest" by (rule givesE)
  have "gives bb_ok bb_contents (Impl_ReadBytes (new_array j (length payload)) (length payload) s1)
      (SuccessErrorable (take (length payload) (bb_contents s1))) (drop (length payload) (bb_contents s1))"
    using s1 assms(3,4) by (intro Impl_ReadBytes_ok) simp_all
  then obtain m2 b2 where s2: "Impl_ReadBytes (new_array j (length payload)) (length payload) s1
      = Some (SuccessErrorable payload, (m2, b2))" "bb_ok (m2, b2)" "bb_contents (m2, b2) = rest"
    using s1(3) by (auto elim: givesE)
  let ?m3 = "m2\<lparr>next_page := next_page m2 + 1, pages := (pages m2)(next_page m2 \<mapsto> payload)\<rparr>"
  have same: "\<forall>a \<in> set (buffers b2). pages ?m3 a = pages m2 a"
    using bb_okD(1) [OF s2(2)] by (fastforce simp: pages_ok_def)
  have dom: "\<forall>a \<in> dom (pages ?m3). a < next_page ?m3"
    using bb_ok_mem_ok [OF s2(2)] by (auto simp: mem_ok_def less_Suc_eq)
  from bb_frame [OF s2(2) same dom] have "bb_ok (?m3, b2)" "bb_contents (?m3, b2) = rest"
    using s2(3) by simp_all
  moreover have "ReadByteArray Impl_ReadByteUnsafe Impl_GetReadableBytes Impl_ReadBytes j Impl_adopt (m, b)
      = Some (SuccessErrorable (Some (ByteBufferImpl_of_page (next_page m2) (length payload))), (?m3, b2))"
    using s1(1) s2(1) n by (simp add: ReadByteArray_def ReadBytes_def Impl_adopt_def)
  ultimately show ?thesis
    by (auto simp: ByteBufferImpl_of_page_def Impl_GetReadableBytes_def)
qed

lemma read_byte_array_reports_empty_witness:
  "\<exists>s nb m' b'. put_list Impl_WriteByte [2, 7, 8] (ByteBufferImpl_new 4 mem0) = Some s \<and>
     ReadByteArray Impl_ReadByteUnsafe Impl_GetReadableBytes Impl_ReadBytes (\<lambda>_. 0) Impl_adopt s
       = Some (SuccessErrorable (Some nb), (m', b')) \<and>
     pages m' (currentReadBuffer nb) = Some [7, 8] \<and> Impl_GetReadableBytes (m', nb) = 0"
proof -
  obtain m b where s: "put_list Impl_WriteByte [2, 7, 8] (ByteBufferImpl_new 4 mem0) = Some (m, b)"
    "bb_ok (m, b)" "bb_contents (m, b) = [2, 7, 8]"
    using new_put_list [of 4 "[2, 7, 8]"] by (metis mem0_sizes)
  have "bb_contents (m, b) = leb128 (length [7, 8 :: u8]) @ [7, 8] @ []"
    using s(3) by (simp add: leb128_small)
  then show ?thesis
    using read_byte_array_reports_empty [OF s(2), of "[7, 8]" "[]" "\<lambda>_. 0"] s(1) by fastforce
qed

section \<open>Releasing\<close>

lemma release_pages_ok:
  "distinct as \<Longrightarrow> set as \<subseteq> dom (pages m) \<Longrightarrow>
   release_pages as m = Some (m\<lparr>pages := pages m |` (- set as)\<rparr>)"
proof (induction as arbitrary: m)
  case Nil
  then show ?case by simp
next
  case (Cons a as)
  then obtain p where p: "pages m a = Some p" by auto
  let ?m1 = "m\<lparr>pages := (pages m)(a := None)\<rparr>"
  have "release_pages as ?m1 = Some (?m1\<lparr>pages := pages ?m1 |` (- set as)\<rparr>)"
    using Cons.prems by (intro Cons.IH) auto
  moreover have "pages ?m1 |` (- set as) = pages m |` (- set (a # as))"
    by (rule ext) (simp add: restrict_map_def)
  ultimately show ?case using p by (simp add: delete_page_def)
qed

text \<open>\<open>Release\<close> frees exactly the pages of the buffer and empties its deque, so that a second \<open>Release\<close>
  (the destructor's) does nothing; but a copy made by the copying constructor shares the pages, and releasing it
  as well frees them twice, which is undefined.\<close>

lemma release_frees_pages_once:
  assumes "bb_ok (m, b)"
  shows "\<exists>m1 b1. Impl_Release (m, b) = Some (m1, b1) \<and>
    dom (pages m1) = dom (pages m) - set (buffers b) \<and>
    Impl_Release (m1, b1) = Some (m1, b1) \<and>
    Impl_Release (m1, ByteBufferImpl_copy (m, b)) = None"
proof -
  have ok: "distinct (buffers b)" "set (buffers b) \<subseteq> dom (pages m)" "buffers b \<noteq> []"
    using bb_okD(1) [OF assms] by (auto simp: pages_ok_def)
  let ?m1 = "m\<lparr>pages := pages m |` (- set (buffers b))\<rparr>"
  have "Impl_Release (m, b) = Some (?m1, b\<lparr>buffers := []\<rparr>)"
    using release_pages_ok [OF ok(1,2)] by (simp add: Impl_Release_def)
  moreover have "Impl_Release (?m1, ByteBufferImpl_copy (m, b)) = None"
    using ok(3) by (cases "buffers b")
      (simp_all add: Impl_Release_def ByteBufferImpl_copy_def Impl_GetDirectBuffers_def delete_page_def)
  ultimately show ?thesis by (auto simp: Impl_Release_def)
qed

lemma release_frees_pages_once_witness:
  "\<exists>m1 b1. Impl_Release (ByteBufferImpl_new 2 mem0) = Some (m1, b1) \<and> dom (pages m1) = {} \<and>
     Impl_Release (m1, ByteBufferImpl_copy (ByteBufferImpl_new 2 mem0)) = None"
proof -
  obtain m b where s: "ByteBufferImpl_new 2 mem0 = (m, b)" by (cases "ByteBufferImpl_new 2 mem0")
  then have "dom (pages m) - set (buffers b) = {}"
    by (auto simp: ByteBufferImpl_new_def new_page_def mem0_def split: if_splits)
  moreover have "bb_ok (m, b)" using mem0_new_ok(1) s by simp
  ultimately show ?thesis using release_frees_pages_once [of m b] s by metis
qed

section \<open>Pages without bytes\<close>

text \<open>\<open>ReadByteArray\<close> of an empty array makes a buffer of capacity 0 (\<open>new ByteBufferImpl(bytes, 0)\<close>).\<close>

lemma WriteBytes_loop_no_pages:
  "WriteBytes_loop input i sz m b = Some r \<Longrightarrow> singleCapacity b = 0 \<longrightarrow> 0 < sz \<longrightarrow> size_max \<le> sz"
proof (induction rule: WriteBytes_loop.raw_induct [rotated, consumes 1, case_names step])
  case (step loop input i sz m b r)
  show ?case
  proof (intro impI, rule ccontr)
    assume cap: "singleCapacity b = 0" and sz: "0 < sz" "\<not> size_max \<le> sz"
    then have "sz_sub sz (singleCapacity b) = sz" by simp
    then obtain m1 m2 b2 where s: "AppendBuffer (m1, b\<lparr>readableBytes := sz_add (readableBytes b) 0, localWriterIndex := 0\<rparr>) = (m2, b2)"
      "loop input (sz_add i 0) sz m2 b2 = Some r"
      using step(2) cap sz by (auto split: bind_splits prod.splits)
    have "singleCapacity b2 = 0" using s(1) cap by (auto simp: AppendBuffer_def new_page_def)
    then show False using step(1) [OF s(2)] sz by simp
  qed
qed

text \<open>A buffer whose pages hold no bytes, such as the one \<open>ReadByteArray\<close> makes of an empty array, cannot be
  written to: writing one byte stores it behind the end of a new page, and writing a block never returns.\<close>

lemma empty_array_unwritable:
  assumes "buffer = ByteBufferImpl_of_page a 0" and "0 < sz" and "sz < size_max"
  shows "Impl_WriteByte x (m, buffer) = None \<and> Impl_WriteBytes input sz (m, buffer) = None"
proof
  show "Impl_WriteByte x (m, buffer) = None"
    by (simp add: assms(1) ByteBufferImpl_of_page_def Impl_WriteByte_def TryRefreshWriterBuffer_def AppendBuffer_def
        new_page_def poke_def overwrite_def new_array_def)
  show "Impl_WriteBytes input sz (m, buffer) = None"
  proof (rule ccontr)
    assume "Impl_WriteBytes input sz (m, buffer) \<noteq> None"
    then obtain m1 b1 i r where r: "WriteBytes_loop input i sz m1 b1 = Some r" "singleCapacity b1 = 0"
      using assms by (auto simp: Impl_WriteBytes_def ByteBufferImpl_of_page_def TryRefreshWriterBuffer_def AppendBuffer_def
          new_page_def sz_sub_def split: bind_splits prod.splits)
    then show False using WriteBytes_loop_no_pages [OF r(1)] assms(2,3) by simp
  qed
qed

lemma empty_array_unwritable_witness:
  "Impl_WriteByte 7 (mem0, ByteBufferImpl_of_page 0 0) = None \<and> Impl_WriteBytes [7, 8] 2 (mem0, ByteBufferImpl_of_page 0 0) = None"
  by (rule empty_array_unwritable) (simp_all add: size_max_def)

end
