(* ===== verification/Ship_Angle.thy ===== *)
theory Ship_Angle
  imports Ship_Impl_Edges
begin

text \<open>
  \<open>ByteBuffer::WriteAngle\<close> and \<open>ReadAngle\<close> (\<open>protocol/ByteBuffer.cpp\<close>): an angle in degrees, a \<open>float\<close>, travels as a
  256th of a turn in one byte.  A \<open>float\<close> is its binary32 bit pattern, as everywhere in the development; here its
  value counts, so the theory holds the part of IEEE 754 the two methods use: the value of a pattern, rounding to
  nearest with ties to even, multiplication, division, and the conversions from and to \<open>uint8_t\<close>.  All of it computes.
\<close>

section \<open>Binary32\<close>

text \<open>\<open>Finite32 s m e\<close> is \<open>m * 2 ^ e\<close>, negated when \<open>s\<close>.\<close>

datatype float32 =
    NaN32
  | Infinite32 bool
  | Finite32 bool int int

fun float_parts :: "bool \<Rightarrow> int \<Rightarrow> int \<Rightarrow> float32" where
  "float_parts s e f =
     (if e = 255 then if f = 0 then Infinite32 s else NaN32
      else if e = 0 then Finite32 s f (- 149)
      else Finite32 s (f + 0x800000) (e - 150))"

definition float_value :: "u32 \<Rightarrow> float32" where
  "float_value bits =
     float_parts (bit bits 31) (uint (drop_bit 23 bits AND 0xFF)) (uint (bits AND 0x7FFFFF))"

definition float_sign :: "bool \<Rightarrow> u32" where
  "float_sign s = (if s then 0x80000000 else 0)"

definition float_nan :: u32 where "float_nan = 0x7FC00000"
definition float_inf :: "bool \<Rightarrow> u32" where "float_inf s = float_sign s OR 0x7F800000"

function digits :: "int \<Rightarrow> int" where
  "digits n = (if n \<le> 0 then 0 else 1 + digits (n div 2))"
  by pat_completeness auto

termination
  by (relation "measure nat") auto

fun round_up :: "int \<Rightarrow> int \<Rightarrow> int \<Rightarrow> bool" where
  "round_up q r d \<longleftrightarrow> 2 * r > d \<or> (2 * r = d \<and> odd q)"

definition nearest_even :: "int \<Rightarrow> int \<Rightarrow> int" where
  "nearest_even n d = n div d + (if round_up (n div d) (n mod d) d then 1 else 0)"

definition pow2 :: "int \<Rightarrow> int" where
  "pow2 e = 2 ^ nat e"

text \<open>The exponent of the leading binary digit of \<open>n / d\<close>.\<close>

fun leading_at :: "int \<Rightarrow> int \<Rightarrow> int \<Rightarrow> int" where
  "leading_at n d e = (if n * pow2 (- e) \<ge> d * pow2 e then e else e - 1)"

definition leading :: "int \<Rightarrow> int \<Rightarrow> int" where
  "leading n d = leading_at n d (digits n - digits d)"

text \<open>
  The pattern of \<open>k * 2 ^ u\<close> with \<open>u\<close> the exponent of the last kept digit: a carry out of the significand moves into
  the exponent field by itself, and out of the exponent field to infinity.
\<close>

fun float_pattern :: "bool \<Rightarrow> int \<Rightarrow> u32" where
  "float_pattern s bits = (if bits \<ge> 0x7F800000 then float_inf s else float_sign s OR word_of_int bits)"

fun float_round_at :: "bool \<Rightarrow> int \<Rightarrow> int \<Rightarrow> int \<Rightarrow> u32" where
  "float_round_at s n d u =
     float_pattern s ((u + 149) * 0x800000 + nearest_even (n * pow2 (- u)) (d * pow2 u))"

text \<open>The pattern nearest to \<open>n / d\<close>.\<close>

definition float_round :: "bool \<Rightarrow> int \<Rightarrow> int \<Rightarrow> u32" where
  "float_round s n d =
     (if n = 0 then float_sign s else float_round_at s n d (max (leading n d - 23) (- 149)))"

definition float_mult :: "u32 \<Rightarrow> u32 \<Rightarrow> u32" where
  "float_mult a b =
     (case (float_value a, float_value b) of
        (Finite32 s m e, Finite32 t n f) \<Rightarrow> float_round (s \<noteq> t) (m * n * pow2 (e + f)) (pow2 (- (e + f)))
      | (Infinite32 s, Infinite32 t) \<Rightarrow> float_inf (s \<noteq> t)
      | (Infinite32 s, Finite32 t n f) \<Rightarrow> if n = 0 then float_nan else float_inf (s \<noteq> t)
      | (Finite32 s m e, Infinite32 t) \<Rightarrow> if m = 0 then float_nan else float_inf (s \<noteq> t)
      | _ \<Rightarrow> float_nan)"

definition float_div :: "u32 \<Rightarrow> u32 \<Rightarrow> u32" where
  "float_div a b =
     (case (float_value a, float_value b) of
        (Finite32 s m e, Finite32 t n f) \<Rightarrow>
          if n = 0 then if m = 0 then float_nan else float_inf (s \<noteq> t)
          else float_round (s \<noteq> t) (m * pow2 (e - f)) (n * pow2 (f - e))
      | (Infinite32 s, Finite32 t n f) \<Rightarrow> float_inf (s \<noteq> t)
      | (Finite32 s m e, Infinite32 t) \<Rightarrow> float_sign (s \<noteq> t)
      | _ \<Rightarrow> float_nan)"

definition float_of_int :: "int \<Rightarrow> u32" where
  "float_of_int n = float_round (n < 0) \<bar>n\<bar> 1"

text \<open>
  \<open>(uint8_t) x\<close>: the fraction is dropped; when the whole part is not a \<open>uint8_t\<close>, and for an infinity or a NaN, the
  conversion is undefined.
\<close>

definition whole_part :: "int \<Rightarrow> int \<Rightarrow> int" where
  "whole_part m e = m * pow2 e div pow2 (- e)"

definition u8_of_float :: "u32 \<Rightarrow> u8 option" where
  "u8_of_float x =
     (case float_value x of
        Finite32 s m e \<Rightarrow>
          if whole_part m e < 256 \<and> (s \<longrightarrow> whole_part m e = 0) then Some (word_of_int (whole_part m e)) else None
      | _ \<Rightarrow> None)"

section \<open>Angles\<close>

text \<open>The constant \<open>256.0F / 360.0F\<close>.\<close>

definition angle_unit :: u32 where
  "angle_unit = float_div (float_of_int 256) (float_of_int 360)"

definition WriteAngle :: "(u8 \<Rightarrow> 's \<Rightarrow> 's option) \<Rightarrow> u32 \<Rightarrow> 's \<Rightarrow> 's option" where
  "WriteAngle wb input s = do { b \<leftarrow> u8_of_float (float_mult input angle_unit); wb b s }"

definition ReadAngle :: "('s \<Rightarrow> (u8 \<times> 's) option) \<Rightarrow> ('s \<Rightarrow> nat) \<Rightarrow> 's \<Rightarrow> (u32 errorable \<times> 's) option" where
  "ReadAngle rb avail s =
     do { (e, s1) \<leftarrow> ReadByte rb avail s;
          ProceedErrorable e (InvalidArgumentErrorable IncompleteAngle_T 0 (of_nat (avail s1)))
            (\<lambda>v. Some (SuccessErrorable (float_div (float_of_int (uint v)) angle_unit), s1)) s1 }"

definition angle_of :: "u8 \<Rightarrow> u32" where
  "angle_of b = float_div (float_of_int (uint b)) angle_unit"

lemma angle_unit_bits: "angle_unit = 0x3F360B61"
  by code_simp

section \<open>Every byte survives\<close>

text \<open>
  Division by the constant and multiplication with it both round, and the conversion back drops the fraction, so a
  product just below a whole number would lose one.  No byte meets one: the 256 cases are computed.
\<close>

fun survives :: "int \<Rightarrow> bool" where
  "survives n \<longleftrightarrow> u8_of_float (float_mult (float_div (float_of_int n) 0x3F360B61) 0x3F360B61) = Some (word_of_int n)"

lemma survives_0: "list_all survives [0..31]"
  by code_simp

lemma survives_1: "list_all survives [32..63]"
  by code_simp

lemma survives_2: "list_all survives [64..95]"
  by code_simp

lemma survives_3: "list_all survives [96..127]"
  by code_simp

lemma survives_4: "list_all survives [128..159]"
  by code_simp

lemma survives_5: "list_all survives [160..191]"
  by code_simp

lemma survives_6: "list_all survives [192..223]"
  by code_simp

lemma survives_7: "list_all survives [224..255]"
  by code_simp

lemma survives_byte: "survives (uint (b :: u8))"
proof -
  have "n \<in> {0..255} \<Longrightarrow> survives n" for n
    using survives_0 survives_1 survives_2 survives_3 survives_4 survives_5 survives_6 survives_7
    unfolding list_all_iff set_upto by (elim ballE [where x = n]) auto
  moreover have "uint b \<in> {0..255}" using uint_ge_0 [of b] uint_bounded [of b] by simp
  ultimately show ?thesis by blast
qed

lemma angle_of_byte: "u8_of_float (float_mult (angle_of b) angle_unit) = Some b"
  using survives_byte [of b] by (simp only: survives.simps angle_of_def angle_unit_bits word_of_int_uint)

lemma WriteAngle_angle_of: "WriteAngle wb (angle_of b) s = wb b s"
  by (simp add: WriteAngle_def angle_of_byte)

context byte_source
begin

lemma ReadAngle_full:
  "ok s \<Longrightarrow> contents s = b # rest \<Longrightarrow> gives ok contents (ReadAngle rb avail s) (SuccessErrorable (angle_of b)) rest"
  unfolding ReadAngle_def
  by (rule gives_bind, erule (1) ReadByte_full) (simp add: gives_def angle_of_def)

lemma ReadAngle_short:
  "ok s \<Longrightarrow> contents s = [] \<Longrightarrow>
   ReadAngle rb avail s = Some (InvalidArgumentErrorable IncompleteAngle_T 0 0, s)"
  by (simp add: ReadAngle_def short_reads avail_law)

end

text \<open>C34.  A byte read as an angle and written again is the same byte, for all 256 of them; the two float roundings
  and the truncation in between lose nothing.\<close>

theorem angle_roundtrip:
  assumes "bb_ok s" and "bb_contents s = b # rest"
    and "bb_ok t" and "length (bb_contents t) + 1 < alloc_max"
  shows "\<exists>a s1 t1. ReadAngle Impl_ReadByteUnsafe Impl_GetReadableBytes s = Some (SuccessErrorable a, s1) \<and>
    bb_ok s1 \<and> bb_contents s1 = rest \<and>
    WriteAngle Impl_WriteByte a t = Some t1 \<and> bb_ok t1 \<and> bb_contents t1 = bb_contents t @ [b]"
proof -
  obtain s1 where "ReadAngle Impl_ReadByteUnsafe Impl_GetReadableBytes s = Some (SuccessErrorable (angle_of b), s1)"
    "bb_ok s1" "bb_contents s1 = rest"
    using impl.ReadAngle_full [OF assms(1,2)] by (rule givesE)
  moreover obtain t1 where "Impl_WriteByte b t = Some t1" "bb_ok t1" "bb_contents t1 = bb_contents t @ [b]"
    using impl.put_law [OF assms(3,4)] by (rule holdsE)
  ultimately show ?thesis unfolding WriteAngle_angle_of [symmetric] by blast
qed

theorem angle_roundtrip_witness:
  "\<exists>s a s1 t1. Impl_WriteByte 77 (ByteBufferImpl_new 2 mem0) = Some s \<and>
    ReadAngle Impl_ReadByteUnsafe Impl_GetReadableBytes s = Some (SuccessErrorable a, s1) \<and> bb_contents s1 = [] \<and>
    WriteAngle Impl_WriteByte a (ByteBufferImpl_new 2 mem0) = Some t1 \<and> bb_contents t1 = [77]"
proof -
  have room: "length (bb_contents (ByteBufferImpl_new 2 mem0)) + 1 < alloc_max"
    by (simp add: mem0_new_ok alloc_max_def)
  obtain s where s: "Impl_WriteByte 77 (ByteBufferImpl_new 2 mem0) = Some s" "bb_ok s" "bb_contents s = [77]"
    using impl.put_law [OF mem0_new_ok(1) room, of 77] by (auto simp: mem0_new_ok elim: holdsE)
  show ?thesis
    using angle_roundtrip [OF s(2,3) mem0_new_ok(1) room] s(1) mem0_new_ok(2) by auto
qed

text \<open>A full turn, a negative angle, an infinite one and a NaN have no byte: the conversion is undefined.  Just below
  a full turn, and down to a fraction of a unit below zero, there is one.\<close>

lemma WriteAngle_edges:
  "WriteAngle wb 0x43B40000 s = None" "WriteAngle wb 0xC2340000 s = None"
  "WriteAngle wb 0x7F800000 s = None" "WriteAngle wb 0x7FC00000 s = None"
  "WriteAngle wb 0x43B3FFFF s = wb 255 s" "WriteAngle wb 0xBF800000 s = wb 0 s"
proof -
  have "u8_of_float (float_mult 0x43B40000 0x3F360B61) = None" "u8_of_float (float_mult 0xC2340000 0x3F360B61) = None"
    "u8_of_float (float_mult 0x7F800000 0x3F360B61) = None" "u8_of_float (float_mult 0x7FC00000 0x3F360B61) = None"
    "u8_of_float (float_mult 0x43B3FFFF 0x3F360B61) = Some 255" "u8_of_float (float_mult 0xBF800000 0x3F360B61) = Some 0"
    by code_simp+
  then show "WriteAngle wb 0x43B40000 s = None" "WriteAngle wb 0xC2340000 s = None"
    "WriteAngle wb 0x7F800000 s = None" "WriteAngle wb 0x7FC00000 s = None"
    "WriteAngle wb 0x43B3FFFF s = wb 255 s" "WriteAngle wb 0xBF800000 s = wb 0 s"
    by (simp_all add: WriteAngle_def angle_unit_bits)
qed

end
