(* ===== verification/Ship_Closer.thy ===== *)
theory Ship_Closer
  imports Ship_Impl_Edges
begin

text \<open>
  \<open>UnixReadWriteCloser\<close> (\<open>network/readwritecloser\<close>): the socket end of a connection.  The system calls are
  arguments on the kernel's state \<open>'k\<close>: \<open>sys_write\<close> gives the number of bytes taken (or -1) and \<open>errno\<close>, \<open>sys_read\<close> also the bytes.
\<close>

section \<open>State\<close>

record unix_closer =
  socketFileDescriptor :: int
  closed :: bool

type_synonym 'k sys_write = "int \<Rightarrow> u8 list \<Rightarrow> 'k \<Rightarrow> int \<times> int \<times> 'k"
type_synonym 'k sys_read = "int \<Rightarrow> nat \<Rightarrow> 'k \<Rightarrow> int \<times> int \<times> u8 list \<times> 'k"
type_synonym 'k sys_close = "int \<Rightarrow> 'k \<Rightarrow> 'k"

definition ECONNRESET :: int where
  "ECONNRESET = 104"

definition UnixReadWriteCloser_new :: "int \<Rightarrow> unix_closer" where
  "UnixReadWriteCloser_new socket_file_descriptor =
     \<lparr>socketFileDescriptor = socket_file_descriptor, closed = False\<rparr>"

text \<open>The base class.\<close>

definition ReadWriteCloser_Write :: "'s \<Rightarrow> int errorable \<times> 's" where
  "ReadWriteCloser_Write s = (SuccessErrorable (-1), s)"

definition ReadWriteCloser_Read :: "'s \<Rightarrow> int errorable \<times> 's" where
  "ReadWriteCloser_Read s = (SuccessErrorable (-1), s)"

definition ReadWriteCloser_Close :: "'s \<Rightarrow> 's" where
  "ReadWriteCloser_Close s = s"

section \<open>Closing and reading\<close>

definition unixClose :: "'k sys_close \<Rightarrow> unix_closer \<times> 'k \<Rightarrow> unix_closer \<times> 'k" where
  "unixClose sc s =
     (case s of (c, k) \<Rightarrow>
        if \<not> closed c then (c\<lparr>closed := True\<rparr>, sc (socketFileDescriptor c) k) else (c, k))"

definition Unix_Close :: "'k sys_close \<Rightarrow> unix_closer \<times> 'k \<Rightarrow> unix_closer \<times> 'k" where
  "Unix_Close sc s = unixClose sc s"

definition Unix_delete :: "'k sys_close \<Rightarrow> unix_closer \<times> 'k \<Rightarrow> 'k" where
  "Unix_delete sc s = snd (unixClose sc s)"

text \<open>The bytes are those put at the start of the caller's array.\<close>

definition Unix_Read ::
  "'k sys_read \<Rightarrow> nat \<Rightarrow> unix_closer \<times> 'k \<Rightarrow> int errorable \<times> u8 list \<times> unix_closer \<times> 'k" where
  "Unix_Read sr buffer_size s =
     (case s of (c, k) \<Rightarrow>
        if \<not> closed c
        then (let (bytesRead, errno, bytes, k1) = sr (socketFileDescriptor c) buffer_size k in
              if bytesRead = -1 then (ErrnoErrorable 0 (of_int errno), bytes, c, k1)
              else (SuccessErrorable bytesRead, bytes, c, k1))
        else (SuccessErrorable 0, [], c, k))"

section \<open>Writing\<close>

text \<open>
  The body the two loops of \<open>Write\<close> have in common: offer \<open>n\<close> bytes from the reader's address, return on an
  error (\<open>Some\<close> errorable), otherwise skip what was taken.
\<close>

definition write_chunk ::
  "'k sys_write \<Rightarrow> 'k sys_close \<Rightarrow> nat \<Rightarrow> int \<Rightarrow> unix_closer \<times> 'k \<Rightarrow> bb_state \<Rightarrow>
   (int errorable option \<times> int \<times> (unix_closer \<times> 'k) \<times> bb_state) option" where
  "write_chunk sw sc n totalBytesWritten u s =
     do { bytes \<leftarrow> peek (fst (Impl_GetDirectReadAddress s)) (snd (Impl_GetDirectReadAddress s)) n (fst s);
          let (bytesWritten, errno, k1) = sw (socketFileDescriptor (fst u)) bytes (snd u);
          if bytesWritten = -1
          then (if errno = ECONNRESET
                then Some (Some (SuccessErrorable totalBytesWritten), totalBytesWritten,
                           Unix_Close sc (fst u, k1), s)
                else Some (Some (ErrnoErrorable 0 (of_int errno)), totalBytesWritten, (fst u, k1), s))
          else do { (_, s1) \<leftarrow> Impl_SkipReadBytes (nat (bytesWritten mod int size_max)) s;
                    Some (None, totalBytesWritten + bytesWritten, (fst u, k1), s1) } }"

partial_function (option) write_pages ::
  "'k sys_write \<Rightarrow> 'k sys_close \<Rightarrow> nat \<Rightarrow> int \<Rightarrow> unix_closer \<times> 'k \<Rightarrow> bb_state \<Rightarrow>
   (int errorable option \<times> int \<times> (unix_closer \<times> 'k) \<times> bb_state) option" where
  "write_pages sw sc cap written u s =
     (if Impl_GetReadableBytes s \<ge> sz_sub cap (Impl_GetReaderIndex s)
      then do { (returned, written1, u1, s1) \<leftarrow> write_chunk sw sc (sz_sub cap (Impl_GetReaderIndex s)) written u s;
                (case returned of Some e \<Rightarrow> Some (Some e, written1, u1, s1)
                 | None \<Rightarrow> write_pages sw sc cap written1 u1 s1) }
      else Some (None, written, u, s))"

partial_function (option) write_rest ::
  "'k sys_write \<Rightarrow> 'k sys_close \<Rightarrow> int \<Rightarrow> unix_closer \<times> 'k \<Rightarrow> bb_state \<Rightarrow>
   (int errorable option \<times> int \<times> (unix_closer \<times> 'k) \<times> bb_state) option" where
  "write_rest sw sc written u s =
     (if Impl_GetReadableBytes s \<noteq> 0
      then do { (returned, written1, u1, s1) \<leftarrow> write_chunk sw sc (Impl_GetReadableBytes s) written u s;
                (case returned of Some e \<Rightarrow> Some (Some e, written1, u1, s1)
                 | None \<Rightarrow> write_rest sw sc written1 u1 s1) }
      else Some (None, written, u, s))"

definition Unix_Write ::
  "'k sys_write \<Rightarrow> 'k sys_close \<Rightarrow> unix_closer \<times> 'k \<Rightarrow> bb_state \<Rightarrow>
   (int errorable \<times> (unix_closer \<times> 'k) \<times> bb_state) option" where
  "Unix_Write sw sc u s =
     (if closed (fst u) then Some (SuccessErrorable 0, u, s)
      else do { (returned, written, u1, s1) \<leftarrow> write_pages sw sc (Impl_GetSingleCapacity s) 0 u s;
                (case returned of Some e \<Rightarrow> Some (e, u1, s1)
                 | None \<Rightarrow>
                     do { (returned2, written2, u2, s2) \<leftarrow> write_rest sw sc written u1 s1;
                          (case returned2 of Some e \<Rightarrow> Some (e, u2, s2)
                           | None \<Rightarrow> Some (SuccessErrorable written2, u2, s2)) }) })"

section \<open>A kernel that takes everything\<close>

definition take_all :: "u8 list sys_write" where
  "take_all fd bytes sent = (int (length bytes), 0, sent @ bytes)"

lemma write_chunk_all:
  assumes "peek (currentReadBuffer (snd s)) (localReaderIndex (snd s)) n (fst s) = Some bytes"
    and "Impl_SkipReadBytes n s = Some (e, s1)" and "n < size_max" and "length bytes = n"
  shows "write_chunk take_all sc n written u s = Some (None, written + int n, (fst u, snd u @ bytes), s1)"
proof -
  have "nat (int n mod int size_max) = n" using assms(3) by (simp add: zmod_int [symmetric])
  then show ?thesis
    using assms(1,2,4) by (simp add: write_chunk_def Impl_GetDirectReadAddress_def take_all_def)
qed

text \<open>A whole page, with more behind it, and the rest of the last page, when the reader is at the start of a page.\<close>

lemma skip_page:
  assumes "bb_ok (m, b)" and "localReaderIndex b = 0" and "singleCapacity b \<le> readableBytes b"
    and "length (buffers b) \<noteq> 1"
  obtains m1 b1 where "Impl_SkipReadBytes (singleCapacity b) (m, b) = Some (SuccessErrorable (singleCapacity b), (m1, b1))"
    "peek (currentReadBuffer b) 0 (singleCapacity b) m = Some (take (singleCapacity b) (bb_contents (m, b)))"
    "bb_ok (m1, b1)" "bb_contents (m1, b1) = drop (singleCapacity b) (bb_contents (m, b))"
    "localReaderIndex b1 = 0" "singleCapacity b1 = singleCapacity b" "localWriterIndex b1 = localWriterIndex b"
    "readableBytes b1 = readableBytes b - singleCapacity b"
proof -
  let ?c = "singleCapacity b"
  let ?b1 = "b\<lparr>localReaderIndex := ?c, readableBytes := readableBytes b - ?c\<rparr>"
  have c: "sz_sub ?c 0 = ?c" "sz_sub (readableBytes b) ?c = readableBytes b - ?c"
    using bb_okD(3,7) [OF assms(1)] assms(3) by (simp_all add: alloc_max_def size_max_def)
  have le: "localReaderIndex b + ?c \<le> ?c" using assms(2) by simp
  note p = peek_ok [OF assms(1) le assms(3), unfolded assms(2) add_0_left]
  have tl: "tl (buffers ?b1) \<noteq> []"
    using assms(4) bb_okD(1) [OF assms(1)] by (cases "buffers b"; cases "tl (buffers b)") (auto simp: pages_ok_def)
  have lr: "localReaderIndex ?b1 = singleCapacity ?b1" by simp
  obtain m2 b2 where st: "PopBuffer (m, ?b1) = Some (m2, b2)" "bb_ok (m2, b2)"
    "bb_contents (m2, b2) = bb_contents (m, ?b1)" "localReaderIndex b2 = 0"
    "singleCapacity b2 = singleCapacity ?b1" "readableBytes b2 = readableBytes ?b1"
    using PopBuffer_ok [OF p(2) lr tl] by metis
  have "localWriterIndex b2 = localWriterIndex b" using PopBuffer_writer [OF st(1)] by simp
  moreover have "Impl_SkipReadBytes ?c (m, b) = Some (SuccessErrorable ?c, (m2, b2))"
    using st(1) assms(2,3) c by (simp add: Impl_SkipReadBytes_def SkipReadBytes_loop.simps TryRefreshReaderBuffer_def)
  ultimately show thesis using that st p by simp
qed

lemma skip_rest:
  assumes "bb_ok (m, b)" and "localReaderIndex b = 0" and "readableBytes b < singleCapacity b"
  shows "Impl_SkipReadBytes (readableBytes b) (m, b) =
      Some (SuccessErrorable (readableBytes b), (m, b\<lparr>readableBytes := 0, localReaderIndex := readableBytes b\<rparr>))"
    and "peek (currentReadBuffer b) 0 (readableBytes b) m = Some (bb_contents (m, b))"
    and "bb_ok (m, b\<lparr>readableBytes := 0, localReaderIndex := readableBytes b\<rparr>)"
    and "bb_contents (m, b\<lparr>readableBytes := 0, localReaderIndex := readableBytes b\<rparr>) = []"
proof -
  have c: "sz_sub (singleCapacity b) 0 = singleCapacity b" "sz_sub (readableBytes b) (readableBytes b) = 0"
    using bb_okD(3,7) [OF assms(1)] by (simp_all add: alloc_max_def size_max_def)
  show "Impl_SkipReadBytes (readableBytes b) (m, b) =
      Some (SuccessErrorable (readableBytes b), (m, b\<lparr>readableBytes := 0, localReaderIndex := readableBytes b\<rparr>))"
    using assms(2,3) c by (simp add: Impl_SkipReadBytes_def SkipReadBytes_loop.simps TryRefreshReaderBuffer_def)
  have le: "localReaderIndex b + readableBytes b \<le> singleCapacity b" using assms(2,3) by simp
  note p = peek_ok [OF assms(1) le order_refl]
  have n: "length (bb_contents (m, b)) = readableBytes b" using bb_okD(6) [OF assms(1)] by simp
  show "peek (currentReadBuffer b) 0 (readableBytes b) m = Some (bb_contents (m, b))"
    "bb_ok (m, b\<lparr>readableBytes := 0, localReaderIndex := readableBytes b\<rparr>)"
    "bb_contents (m, b\<lparr>readableBytes := 0, localReaderIndex := readableBytes b\<rparr>) = []"
    using p assms(2) n by simp_all
qed

lemma pages_at_start:
  assumes "bb_ok (m, b)" and "localReaderIndex b = 0"
  shows "length (buffers b) = 1 \<Longrightarrow> readableBytes b = localWriterIndex b"
    and "length (buffers b) \<noteq> 1 \<Longrightarrow> singleCapacity b \<le> readableBytes b"
proof -
  have total: "readableBytes b = (length (buffers b) - 1) * singleCapacity b + localWriterIndex b"
    using readable_total [OF assms(1)] assms(2) by simp
  show "length (buffers b) = 1 \<Longrightarrow> readableBytes b = localWriterIndex b" using total by simp
  assume "length (buffers b) \<noteq> 1"
  then obtain k where "length (buffers b) - 1 = Suc k"
    using bb_okD(1) [OF assms(1)] by (cases "buffers b"; cases "tl (buffers b)") (auto simp: pages_ok_def)
  then show "singleCapacity b \<le> readableBytes b" using total by simp
qed

lemma write_pages_all:
  assumes "bb_ok (m, b)" and "localReaderIndex b = 0"
  shows "if localWriterIndex b < singleCapacity b
    then \<exists>m1 b1 front. write_pages take_all sc (singleCapacity b) t u (m, b) =
        Some (None, t + int (length front), (fst u, snd u @ front), (m1, b1)) \<and>
      bb_ok (m1, b1) \<and> localReaderIndex b1 = 0 \<and> readableBytes b1 < singleCapacity b1 \<and>
      bb_contents (m, b) = front @ bb_contents (m1, b1)
    else write_pages take_all sc (singleCapacity b) t u (m, b) = None"
  using assms
proof (induction "readableBytes b" arbitrary: m b t u rule: less_induct)
  case less
  let ?c = "singleCapacity b"
  have c: "sz_sub ?c 0 = ?c" "?c < size_max" "0 < ?c"
    using bb_okD(2,3) [OF less.prems(1)] by (simp_all add: alloc_max_def size_max_def)
  have n: "length (bb_contents (m, b)) = readableBytes b" using bb_okD(6) [OF less.prems(1)] by simp
  note unfold = write_pages.simps [of take_all sc ?c t u "(m, b)"]
  show ?case
  proof (cases "length (buffers b) = 1")
    case True
    note rd = pages_at_start(1) [OF less.prems True]
    show ?thesis
    proof (cases "localWriterIndex b < ?c")
      case w: True
      then have "write_pages take_all sc ?c t u (m, b) = Some (None, t, u, (m, b))"
        using c less.prems(2) rd by (simp add: unfold Impl_GetReadableBytes_def Impl_GetReaderIndex_def)
      then show ?thesis using less.prems w rd
        by simp
    next
      case w: False
      then have full: "readableBytes b = ?c" using rd bb_okD(5) [OF less.prems(1)] by simp
      obtain a where a: "buffers b = [a]" using True by (cases "buffers b") auto
      have "Impl_SkipReadBytes ?c (m, b) = None"
        using full c less.prems(2)
        by (simp add: Impl_SkipReadBytes_def SkipReadBytes_loop.simps TryRefreshReaderBuffer_def PopBuffer_def a
            del: sz_sub_exact split: bind_splits)
      moreover have "peek (currentReadBuffer b) 0 ?c m = Some (bb_contents (m, b))"
        using peek_ok(1) [OF less.prems(1), of ?c] less.prems(2) full n by simp
      ultimately have "write_chunk take_all sc ?c t u (m, b) = None"
        using n full c(2) less.prems(2)
        by (simp add: write_chunk_def take_all_def Impl_GetDirectReadAddress_def zmod_int [symmetric])
      then show ?thesis using w c less.prems(2) full
        by (simp add: unfold Impl_GetReadableBytes_def Impl_GetReaderIndex_def)
    qed
  next
    case False
    note rd = pages_at_start(2) [OF less.prems False]
    obtain m1 b1 where st: "Impl_SkipReadBytes ?c (m, b) = Some (SuccessErrorable ?c, (m1, b1))"
      "peek (currentReadBuffer b) 0 ?c m = Some (take ?c (bb_contents (m, b)))"
      "bb_ok (m1, b1)" "bb_contents (m1, b1) = drop ?c (bb_contents (m, b))"
      "localReaderIndex b1 = 0" "singleCapacity b1 = ?c" "localWriterIndex b1 = localWriterIndex b"
      "readableBytes b1 = readableBytes b - ?c"
      using skip_page [OF less.prems rd False] by metis
    let ?page = "take ?c (bb_contents (m, b))"
    have chunk: "write_chunk take_all sc ?c t u (m, b) = Some (None, t + int ?c, (fst u, snd u @ ?page), (m1, b1))"
      using st(1,2) c(2) n rd less.prems(2) by (intro write_chunk_all) simp_all
    have step: "write_pages take_all sc ?c t u (m, b) =
        write_pages take_all sc (singleCapacity b1) (t + int ?c) (fst u, snd u @ ?page) (m1, b1)"
      using chunk c(1) rd less.prems(2) st(6) by (simp add: unfold Impl_GetReadableBytes_def Impl_GetReaderIndex_def)
    have less': "readableBytes b1 < readableBytes b" using st(8) rd c(3) by simp
    note ih = less.hyps [OF less' st(3,5), of "t + int ?c" "(fst u, snd u @ ?page)"]
    show ?thesis
    proof (cases "localWriterIndex b < ?c")
      case True
      with ih st(6,7) obtain m2 b2 front where r:
        "write_pages take_all sc (singleCapacity b1) (t + int ?c) (fst u, snd u @ ?page) (m1, b1) =
          Some (None, t + int ?c + int (length front), (fst u, (snd u @ ?page) @ front), (m2, b2))"
        "bb_ok (m2, b2)" "localReaderIndex b2 = 0" "readableBytes b2 < singleCapacity b2"
        "bb_contents (m1, b1) = front @ bb_contents (m2, b2)" by auto
      have "bb_contents (m, b) = (?page @ front) @ bb_contents (m2, b2)"
        using r(5) st(4) by (metis append.assoc append_take_drop_id)
      moreover have "int (length (?page @ front)) = int ?c + int (length front)" using n rd by simp
      ultimately show ?thesis using True r step
        by simp
    next
      case False
      then show ?thesis using ih st(6,7) step by simp
    qed
  qed
qed

lemma write_rest_done: "Impl_GetReadableBytes s = 0 \<Longrightarrow> write_rest sw sc w u s = Some (None, w, u, s)"
  by (simp add: write_rest.simps)

lemma flush_all:
  assumes "bb_ok (m, b)" and "localReaderIndex b = 0" and "\<not> closed c"
  shows "if localWriterIndex b < singleCapacity b
    then \<exists>s. Unix_Write take_all sc (c, sent) (m, b) =
        Some (SuccessErrorable (int (readableBytes b)), (c, sent @ bb_contents (m, b)), s) \<and> bb_ok s \<and> bb_contents s = []
    else Unix_Write take_all sc (c, sent) (m, b) = None"
proof (cases "localWriterIndex b < singleCapacity b")
  case False
  then show ?thesis using write_pages_all [OF assms(1,2), of sc 0 "(c, sent)"] assms(3)
    by (simp add: Unix_Write_def Impl_GetSingleCapacity_def)
next
  case True
  then obtain m1 b1 front where p: "write_pages take_all sc (singleCapacity b) 0 (c, sent) (m, b) =
        Some (None, int (length front), (c, sent @ front), (m1, b1))"
    "bb_ok (m1, b1)" "localReaderIndex b1 = 0" "readableBytes b1 < singleCapacity b1"
    "bb_contents (m, b) = front @ bb_contents (m1, b1)"
    using write_pages_all [OF assms(1,2), of sc 0 "(c, sent)"] by auto
  have n: "length (bb_contents (m, b)) = readableBytes b" "length (bb_contents (m1, b1)) = readableBytes b1"
    using bb_okD(6) [OF assms(1)] bb_okD(6) [OF p(2)] by simp_all
  let ?s = "(m1, b1\<lparr>readableBytes := 0, localReaderIndex := readableBytes b1\<rparr>)"
  note rest = skip_rest [OF p(2-4)]
  have "write_rest take_all sc (int (length front)) (c, sent @ front) (m1, b1) =
    Some (None, int (readableBytes b), (c, sent @ bb_contents (m, b)), if readableBytes b1 = 0 then (m1, b1) else ?s)"
  proof (cases "readableBytes b1 = 0")
    case True
    then show ?thesis using p(5) n by (simp add: write_rest.simps Impl_GetReadableBytes_def)
  next
    case False
    have "write_chunk take_all sc (readableBytes b1) (int (length front)) (c, sent @ front) (m1, b1) =
      Some (None, int (length front) + int (readableBytes b1), (c, sent @ front @ bb_contents (m1, b1)), ?s)"
      using write_chunk_all [of "(m1, b1)" "readableBytes b1" "bb_contents (m1, b1)" _ ?s sc "int (length front)" "(c, sent @ front)"]
        rest(1,2) p(3) n(2) bb_okD(7) [OF p(2)] by simp
    moreover have "length front + readableBytes b1 = readableBytes b" using n p(5) by simp
    ultimately show ?thesis using False p(5)
      by (simp add: write_rest.simps [of take_all sc "int (length front)"] Impl_GetReadableBytes_def
          write_rest_done of_nat_add [symmetric] del: of_nat_add)
  qed
  moreover have "bb_ok (if readableBytes b1 = 0 then (m1, b1) else ?s)"
    "bb_contents (if readableBytes b1 = 0 then (m1, b1) else ?s) = []"
    using rest(3,4) p(2) n(2) by auto
  ultimately show ?thesis using True p(1) assms(3)
    by (simp add: Unix_Write_def Impl_GetSingleCapacity_def)
qed



section \<open>Flushing again and again\<close>

text \<open>A buffer of one page \<open>p\<close> with its reader at \<open>r\<close> and its writer at \<open>w\<close>.\<close>

definition one_page :: "nat \<Rightarrow> nat \<Rightarrow> u8 list \<Rightarrow> nat \<Rightarrow> nat \<Rightarrow> nat \<Rightarrow> bb_state \<Rightarrow> bool" where
  "one_page a cap p r w n s \<longleftrightarrow> pages (fst s) a = Some p \<and> length p = cap \<and> cap < alloc_max \<and>
     snd s = \<lparr>buffers = [a], singleCapacity = cap, currentReadBuffer = a, currentWriteBuffer = a,
              localReaderIndex = r, localWriterIndex = w, readableBytes = n\<rparr>"

lemma one_page_write:
  assumes "one_page a cap p r w 0 s" and "w + length xs < cap"
  shows "\<exists>s'. Impl_WriteBytes xs (length xs) s = Some s' \<and>
    one_page a cap (take w p @ xs @ drop (w + length xs) p) r (w + length xs) (length xs) s'"
proof -
  have "cap < size_max" using assms(1) by (simp add: one_page_def alloc_max_less)
  then have "w + length xs < size_max" "length xs < size_max" using assms(2) by linarith+
  then show ?thesis using assms
    by (cases s) (auto simp: one_page_def Impl_WriteBytes_def TryRefreshWriterBuffer_def WriteBytes_tail_def poke_def)
qed

lemma one_page_flush:
  assumes "one_page a cap p r w n s" and "0 < n" and "r + n < cap" and "\<not> closed c"
  shows "\<exists>s'. Unix_Write take_all sc (c, sent) s =
      Some (SuccessErrorable (int n), (c, sent @ take n (drop r p)), s') \<and> one_page a cap p n w 0 s'"
proof -
  obtain m b where s: "s = (m, b)" by (cases s)
  have sz: "sz_sub cap r = cap - r" "sz_sub n n = 0" "n < size_max"
    using assms(1,3) by (auto simp: one_page_def alloc_max_def size_max_def)
  let ?s' = "(m, b\<lparr>localReaderIndex := n, readableBytes := 0\<rparr>)"
  have one: "one_page a cap p n w 0 ?s'" using assms(1) s by (simp add: one_page_def)
  have more: "\<not> cap - r \<le> n" "\<not> cap - r < n" "\<not> cap \<le> n" using assms(3) by linarith+
  have pages: "write_pages take_all sc cap 0 (c, sent) s = Some (None, 0, (c, sent), s)"
    using assms(1) more sz s by (subst write_pages.simps)
      (simp add: one_page_def Impl_GetReadableBytes_def Impl_GetReaderIndex_def)
  have skip: "Impl_SkipReadBytes n s = Some (SuccessErrorable n, ?s')"
    using assms(1) more sz s by (simp add: one_page_def Impl_SkipReadBytes_def SkipReadBytes_loop.simps TryRefreshReaderBuffer_def)
  have "peek (currentReadBuffer (snd s)) (localReaderIndex (snd s)) n (fst s) = Some (take n (drop r p))"
    "length (take n (drop r p)) = n"
    using assms(1,3) s by (auto simp: one_page_def peek_def)
  then have chunk: "write_chunk take_all sc n 0 (c, sent) s = Some (None, int n, (c, sent @ take n (drop r p)), ?s')"
    using write_chunk_all [OF _ skip sz(3)] by simp
  have "write_rest take_all sc 0 (c, sent) s = Some (None, int n, (c, sent @ take n (drop r p)), ?s')"
    using assms(1,2) chunk s by (subst write_rest.simps) (simp add: one_page_def Impl_GetReadableBytes_def write_rest_done)
  then show ?thesis using pages assms(1,4) one s
    by (simp add: Unix_Write_def Impl_GetSingleCapacity_def one_page_def)
qed

text \<open>The bytes of each message are written and flushed.\<close>

fun flush_messages ::
  "'k sys_write \<Rightarrow> 'k sys_close \<Rightarrow> u8 list list \<Rightarrow> unix_closer \<times> 'k \<Rightarrow> bb_state \<Rightarrow> ((unix_closer \<times> 'k) \<times> bb_state) option" where
  "flush_messages sw sc [] u s = Some (u, s)"
| "flush_messages sw sc (x # xs) u s =
     do { s1 \<leftarrow> Impl_WriteBytes x (length x) s;
          (_, u1, s2) \<leftarrow> Unix_Write sw sc u s1;
          flush_messages sw sc xs u1 s2 }"

text \<open>C12.  Three messages flushed one after the other through a new buffer that has room for all of them: the third flush
  sends again what stands behind the first \<open>|y|\<close> bytes of the page, because the flush of \<open>y\<close> put the reader
  at its own length instead of advancing it, so that the receiver does not get \<open>z\<close>.\<close>

theorem third_flush_sends_old_bytes:
  assumes "mem_ok m" and "length x + length y + length z < cap" and "cap < alloc_max"
    and "x \<noteq> []" and "y \<noteq> []" and "z \<noteq> []" and "\<not> closed c"
  shows "\<exists>s. flush_messages take_all sc [x, y, z] (c, []) (ByteBufferImpl_new cap m) =
    Some ((c, x @ y @ take (length z) (drop (length y) (x @ y @ z))), s)"
proof -
  let ?p0 = "new_array (junk m) cap"
  have "one_page (next_page m) cap ?p0 0 0 0 (ByteBufferImpl_new cap m)"
    using assms(3) by (simp add: one_page_def ByteBufferImpl_new_def new_page_def)
  from one_page_write [OF this, of x] assms(2) obtain s1 where s1:
    "Impl_WriteBytes x (length x) (ByteBufferImpl_new cap m) = Some s1"
    "one_page (next_page m) cap (x @ drop (length x) ?p0) 0 (length x) (length x) s1" by auto
  from one_page_flush [OF s1(2) _ _ assms(7), of sc "[]"] assms(2,4) obtain s2 where s2:
    "Unix_Write take_all sc (c, []) s1 = Some (SuccessErrorable (int (length x)), (c, x), s2)"
    "one_page (next_page m) cap (x @ drop (length x) ?p0) (length x) (length x) 0 s2" by auto
  from one_page_write [OF s2(2), of y] assms(2) obtain s3 where s3:
    "Impl_WriteBytes y (length y) s2 = Some s3"
    "one_page (next_page m) cap (x @ y @ drop (length x + length y) ?p0) (length x) (length x + length y) (length y) s3"
    by (auto simp: add.commute)
  from one_page_flush [OF s3(2) _ _ assms(7), of sc x] assms(2,5) obtain s4 where s4:
    "Unix_Write take_all sc (c, x) s3 = Some (SuccessErrorable (int (length y)), (c, x @ y), s4)"
    "one_page (next_page m) cap (x @ y @ drop (length x + length y) ?p0) (length y) (length x + length y) 0 s4" by auto
  from one_page_write [OF s4(2), of z] assms(2) obtain s5 where s5:
    "Impl_WriteBytes z (length z) s4 = Some s5"
    "one_page (next_page m) cap (x @ y @ z @ drop (length x + length y + length z) ?p0) (length y)
       (length x + length y + length z) (length z) s5"
    by (auto simp: add.commute add.left_commute)
  have "take (length z) (drop (length y) (x @ y @ z @ q)) = take (length z) (drop (length y) (x @ y @ z))" for q
    by simp
  with one_page_flush [OF s5(2) _ _ assms(7), of sc "x @ y"] assms(2,6) obtain s6 where s6:
    "Unix_Write take_all sc (c, x @ y) s5 = Some (SuccessErrorable (int (length z)),
       (c, x @ y @ take (length z) (drop (length y) (x @ y @ z))), s6)" by auto
  show ?thesis using s1(1) s2(1) s3(1) s4(1) s5(1) s6 by simp
qed

theorem third_flush_sends_old_bytes_witness:
  "\<exists>s. flush_messages take_all (\<lambda>_ k. k) [[1, 2], [3], [4]] (UnixReadWriteCloser_new 5, []) (ByteBufferImpl_new 8 mem0) =
    Some ((UnixReadWriteCloser_new 5, [1, 2, 3, 2]), s)"
proof -
  have c: "\<not> closed (UnixReadWriteCloser_new 5)" by (simp add: UnixReadWriteCloser_new_def)
  have sizes: "length [1, 2 :: u8] + length [3 :: u8] + length [4 :: u8] < 8" "(8 :: nat) < alloc_max"
    by (simp_all add: small_alloc)
  show ?thesis
    using third_flush_sends_old_bytes [OF mem0_ok sizes list.distinct(2) list.distinct(2) list.distinct(2) c, of "\<lambda>_ k. k"]
    by simp
qed

end
