(* ===== verification/Ship_Closer_Protocol.thy ===== *)
theory Ship_Closer_Protocol
  imports Ship_Closer
begin

text \<open>
  What \<open>UnixReadWriteCloser\<close> does with its descriptor, whatever the kernel answers.  \<open>fd_step\<close> is the specification: while it is
  open the descriptor is written, read, or closed.  Each method is a sequence of such steps, and the calls the
  kernel sees over the life of a closer are reads and writes followed by one \<open>close\<close>.
\<close>

section \<open>The specification\<close>

inductive fd_step :: "'k sys_write \<Rightarrow> 'k sys_read \<Rightarrow> 'k sys_close \<Rightarrow> unix_closer \<times> 'k \<Rightarrow> unix_closer \<times> 'k \<Rightarrow> bool"
  for sw sr sc where
  fd_write: "\<not> closed c \<Longrightarrow> sw (socketFileDescriptor c) bytes k = (r, e, k1) \<Longrightarrow> fd_step sw sr sc (c, k) (c, k1)"
| fd_read: "\<not> closed c \<Longrightarrow> sr (socketFileDescriptor c) n k = (r, e, bytes, k1) \<Longrightarrow> fd_step sw sr sc (c, k) (c, k1)"
| fd_close: "\<not> closed c \<Longrightarrow> fd_step sw sr sc (c, k) (c\<lparr>closed := True\<rparr>, sc (socketFileDescriptor c) k)"

abbreviation fd_steps :: "'k sys_write \<Rightarrow> 'k sys_read \<Rightarrow> 'k sys_close \<Rightarrow> unix_closer \<times> 'k \<Rightarrow> unix_closer \<times> 'k \<Rightarrow> bool" where
  "fd_steps sw sr sc \<equiv> rtranclp (fd_step sw sr sc)"

section \<open>The methods\<close>

lemma Close_steps: "fd_steps sw sr sc u (Unix_Close sc u)"
  by (cases u) (auto simp: Unix_Close_def unixClose_def intro: fd_close)

lemma Read_steps: "Unix_Read sr n (c, k) = (e, bytes, u1) \<Longrightarrow> fd_steps sw sr sc (c, k) u1"
  by (auto simp: Unix_Read_def Let_def split: if_splits prod.splits intro: fd_read)

text \<open>What a part of \<open>Write\<close> leaves behind: when it has not returned, the closer is still open.\<close>

definition goes_on :: "'k sys_write \<Rightarrow> 'k sys_read \<Rightarrow> 'k sys_close \<Rightarrow> unix_closer \<times> 'k \<Rightarrow>
    int errorable option \<times> int \<times> (unix_closer \<times> 'k) \<times> bb_state \<Rightarrow> bool" where
  "goes_on sw sr sc u r \<longleftrightarrow> (case r of (returned, w1, u1, s1) \<Rightarrow>
     fd_steps sw sr sc u u1 \<and> (returned = None \<longrightarrow> \<not> closed (fst u1)))"

lemma write_chunk_steps:
  assumes "write_chunk sw sc n w u s = Some r" and "\<not> closed (fst u)"
  shows "goes_on sw sr sc u r"
proof -
  obtain c k where u: "u = (c, k)" by (cases u)
  obtain returned w1 u1 s1 where r: "r = (returned, w1, u1, s1)" by (cases r)
  obtain bytes x e k1 where b: "sw (socketFileDescriptor c) bytes k = (x, e, k1)"
    and u1: "u1 = (c, k1) \<or> returned \<noteq> None \<and> u1 = Unix_Close sc (c, k1)"
    using assms(1) by (auto simp: u r write_chunk_def split: bind_splits if_splits prod.splits)
  have open_c: "\<not> closed c" using assms(2) u by simp
  have "fd_steps sw sr sc u (c, k1)"
    unfolding u using fd_write [where sw = sw and sr = sr and sc = sc and c = c and k = k, OF open_c b] by blast
  then show ?thesis using u1 open_c Close_steps [of sw sr sc "(c, k1)"] by (auto simp: goes_on_def r)
qed

text \<open>One turn of either loop: a chunk, and the rest of the loop when that has not returned.\<close>

lemma chunk_then_rest:
  assumes run: "do { (returned, w1, u1, s1) \<leftarrow> write_chunk sw sc n w u s;
      (case returned of Some e \<Rightarrow> Some (Some e, w1, u1, s1) | None \<Rightarrow> f w1 u1 s1) } = Some r"
    and "\<not> closed (fst u)"
    and rest: "\<And>w1 u1 s1. f w1 u1 s1 = Some r \<Longrightarrow> \<not> closed (fst u1) \<Longrightarrow> goes_on sw sr sc u1 r"
  shows "goes_on sw sr sc u r"
proof -
  obtain returned w1 u1 s1 where ch: "write_chunk sw sc n w u s = Some (returned, w1, u1, s1)"
    and r: "(case returned of Some e \<Rightarrow> Some (Some e, w1, u1, s1) | None \<Rightarrow> f w1 u1 s1) = Some r"
    using run by (auto split: bind_splits)
  have c: "goes_on sw sr sc u (returned, w1, u1, s1)" using ch assms(2) by (rule write_chunk_steps)
  show ?thesis
  proof (cases returned)
    case None
    then have "goes_on sw sr sc u1 r" using r c by (intro rest) (auto simp: goes_on_def)
    then show ?thesis using c by (auto simp: goes_on_def)
  next
    case (Some e)
    then show ?thesis using r c by (auto simp: goes_on_def)
  qed
qed

lemma goes_on_nothing: "\<not> closed (fst u) \<Longrightarrow> goes_on sw sr sc u (None, w, u, s)"
  by (simp add: goes_on_def)

lemma write_pages_steps:
  "write_pages sw' sc' cap w u s = Some r \<Longrightarrow> sw' = sw \<longrightarrow> sc' = sc \<longrightarrow> \<not> closed (fst u) \<longrightarrow> goes_on sw sr sc u r"
proof (induction rule: write_pages.raw_induct [rotated, consumes 1, case_names step])
  case (step loop sw' sc' cap w u s r)
  show ?case
  proof (intro impI)
    assume e: "sw' = sw" "sc' = sc" and u: "\<not> closed (fst u)"
    show "goes_on sw sr sc u r"
    proof (cases "Impl_GetReadableBytes s \<ge> sz_sub cap (Impl_GetReaderIndex s)")
      case True
      then have "do { (returned, w1, u1, s1) \<leftarrow> write_chunk sw sc (sz_sub cap (Impl_GetReaderIndex s)) w u s;
          (case returned of Some e \<Rightarrow> Some (Some e, w1, u1, s1) | None \<Rightarrow> loop sw sc cap w1 u1 s1) } = Some r"
        using step(2) unfolding e by simp
      then show ?thesis using u by (rule chunk_then_rest) (use step(1) in blast)
    next
      case False
      then show ?thesis using step(2) u by (auto intro: goes_on_nothing)
    qed
  qed
qed

lemma write_rest_steps:
  "write_rest sw' sc' w u s = Some r \<Longrightarrow> sw' = sw \<longrightarrow> sc' = sc \<longrightarrow> \<not> closed (fst u) \<longrightarrow> goes_on sw sr sc u r"
proof (induction rule: write_rest.raw_induct [rotated, consumes 1, case_names step])
  case (step loop sw' sc' w u s r)
  show ?case
  proof (intro impI)
    assume e: "sw' = sw" "sc' = sc" and u: "\<not> closed (fst u)"
    show "goes_on sw sr sc u r"
    proof (cases "Impl_GetReadableBytes s \<noteq> 0")
      case True
      then have "do { (returned, w1, u1, s1) \<leftarrow> write_chunk sw sc (Impl_GetReadableBytes s) w u s;
          (case returned of Some e \<Rightarrow> Some (Some e, w1, u1, s1) | None \<Rightarrow> loop sw sc w1 u1 s1) } = Some r"
        using step(2) unfolding e by simp
      then show ?thesis using u by (rule chunk_then_rest) (use step(1) in blast)
    next
      case False
      then show ?thesis using step(2) u by (auto intro: goes_on_nothing)
    qed
  qed
qed

lemma Write_steps:
  assumes "Unix_Write sw sc u s = Some (e, u1, s1)"
  shows "fd_steps sw sr sc u u1"
proof (cases "closed (fst u)")
  case True
  then show ?thesis using assms by (simp add: Unix_Write_def)
next
  case False
  then obtain ret w u2 s2 where p: "write_pages sw sc (Impl_GetSingleCapacity s) 0 u s = Some (ret, w, u2, s2)"
    and rest: "ret = None \<and> (\<exists>ret2 w2. write_rest sw sc w u2 s2 = Some (ret2, w2, u1, s1)) \<or> u2 = u1"
    using assms by (auto simp: Unix_Write_def split: bind_splits option.splits)
  have pages: "goes_on sw sr sc u (ret, w, u2, s2)" using write_pages_steps [OF p] False by blast
  from rest show ?thesis
  proof (elim disjE conjE exE)
    fix ret2 w2
    assume "ret = None" and r: "write_rest sw sc w u2 s2 = Some (ret2, w2, u1, s1)"
    then have "goes_on sw sr sc u2 (ret2, w2, u1, s1)" using pages write_rest_steps [OF r] by (auto simp: goes_on_def)
    then show ?thesis using pages by (auto simp: goes_on_def)
  next
    assume "u2 = u1"
    then show ?thesis using pages by (auto simp: goes_on_def)
  qed
qed

section \<open>The life of a closer\<close>

inductive closer_step :: "'k sys_write \<Rightarrow> 'k sys_read \<Rightarrow> 'k sys_close \<Rightarrow> unix_closer \<times> 'k \<Rightarrow> unix_closer \<times> 'k \<Rightarrow> bool"
  for sw sr sc where
  step_Write: "Unix_Write sw sc u s = Some (e, u1, s1) \<Longrightarrow> closer_step sw sr sc u u1"
| step_Read: "Unix_Read sr n u = (e, bytes, u1) \<Longrightarrow> closer_step sw sr sc u u1"
| step_Close: "closer_step sw sr sc u (Unix_Close sc u)"

lemma closer_step_refines: "closer_step sw sr sc u u1 \<Longrightarrow> fd_steps sw sr sc u u1"
  by (induction rule: closer_step.induct) (auto intro: Write_steps Read_steps Close_steps)

lemma closer_steps_refine: "rtranclp (closer_step sw sr sc) u u1 \<Longrightarrow> fd_steps sw sr sc u u1"
  by (induction rule: rtranclp_induct) (auto dest: closer_step_refines)

text \<open>A kernel that keeps a log of the calls on descriptors.\<close>

datatype fd_call = Reads int | Writes int | Closes int

definition logs_calls :: "('k \<Rightarrow> fd_call list) \<Rightarrow> 'k sys_write \<Rightarrow> 'k sys_read \<Rightarrow> 'k sys_close \<Rightarrow> bool" where
  "logs_calls log sw sr sc \<longleftrightarrow>
     (\<forall>fd bs k r e k1. sw fd bs k = (r, e, k1) \<longrightarrow> log k1 = log k @ [Writes fd]) \<and>
     (\<forall>fd n k r e bs k1. sr fd n k = (r, e, bs, k1) \<longrightarrow> log k1 = log k @ [Reads fd]) \<and>
     (\<forall>fd k. log (sc fd k) = log k @ [Closes fd])"

definition log_ok :: "('k \<Rightarrow> fd_call list) \<Rightarrow> int \<Rightarrow> fd_call list \<Rightarrow> unix_closer \<times> 'k \<Rightarrow> bool" where
  "log_ok log fd before u \<longleftrightarrow> (case u of (c, k) \<Rightarrow> socketFileDescriptor c = fd \<and>
     (\<exists>calls. set calls \<subseteq> {Reads fd, Writes fd} \<and> log k = before @ calls @ (if closed c then [Closes fd] else [])))"

lemma fd_step_log:
  "fd_step sw sr sc u u1 \<Longrightarrow> logs_calls log sw sr sc \<Longrightarrow> log_ok log fd before u \<Longrightarrow> log_ok log fd before u1"
proof (induction rule: fd_step.induct)
  case (fd_write c bytes k r e k1)
  then obtain calls where "set calls \<subseteq> {Reads fd, Writes fd}" "log k = before @ calls" "socketFileDescriptor c = fd"
    by (auto simp: log_ok_def)
  then show ?case using fd_write by (auto simp: log_ok_def logs_calls_def intro!: exI [of _ "calls @ [Writes fd]"])
next
  case (fd_read c n k r e bytes k1)
  then obtain calls where "set calls \<subseteq> {Reads fd, Writes fd}" "log k = before @ calls" "socketFileDescriptor c = fd"
    by (auto simp: log_ok_def)
  then show ?case using fd_read by (auto simp: log_ok_def logs_calls_def intro!: exI [of _ "calls @ [Reads fd]"])
next
  case (fd_close c k)
  then show ?case by (auto simp: log_ok_def logs_calls_def)
qed

lemma fd_steps_log:
  "fd_steps sw sr sc u u1 \<Longrightarrow> logs_calls log sw sr sc \<Longrightarrow> log_ok log fd before u \<Longrightarrow> log_ok log fd before u1"
  by (induction rule: rtranclp_induct) (auto intro: fd_step_log)

text \<open>C8.  Over the life of a closer, whatever the kernel answers and in whatever order \<open>Write\<close>, \<open>Read\<close> and \<open>Close\<close> are
  called, its descriptor is read and written any number of times, then closed exactly once, and never touched again; the
  destructor closes it when \<open>Close\<close> or a reset connection has not.\<close>

theorem closer_protocol:
  assumes "logs_calls log sw sr sc" and "rtranclp (closer_step sw sr sc) (UnixReadWriteCloser_new fd, k0) u"
  shows "\<exists>calls. set calls \<subseteq> {Reads fd, Writes fd} \<and> log (Unix_delete sc u) = log k0 @ calls @ [Closes fd]"
proof -
  have start: "log_ok log fd (log k0) (UnixReadWriteCloser_new fd, k0)"
    by (simp add: log_ok_def UnixReadWriteCloser_new_def)
  have "fd_steps sw sr sc (UnixReadWriteCloser_new fd, k0) (Unix_Close sc u)"
    using closer_steps_refine [OF assms(2)] Close_steps by (rule rtranclp_trans)
  then have "log_ok log fd (log k0) (Unix_Close sc u)" using assms(1) start by (rule fd_steps_log)
  moreover have "closed (fst (Unix_Close sc u))" by (cases u) (simp add: Unix_Close_def unixClose_def)
  ultimately show ?thesis by (auto simp: log_ok_def Unix_delete_def Unix_Close_def)
qed

text \<open>A connection that is reset while it is written to, then closed, then deleted: one \<open>close\<close>.\<close>

theorem closer_protocol_witness:
  "\<exists>e u s1 calls. Unix_Write (\<lambda>fd _ k. (-1, ECONNRESET, k @ [Writes fd])) (\<lambda>fd k. k @ [Closes fd])
      (UnixReadWriteCloser_new 5, []) (the (Impl_WriteByte 7 (ByteBufferImpl_new 2 mem0))) = Some (e, u, s1) \<and>
    closed (fst u) \<and> set calls \<subseteq> {Reads 5, Writes 5} \<and>
    Unix_delete (\<lambda>fd k. k @ [Closes fd]) (Unix_Close (\<lambda>fd k. k @ [Closes fd]) u) = calls @ [Closes 5]"
proof -
  let ?sw = "\<lambda>fd (_ :: u8 list) k. (-1 :: int, ECONNRESET, k @ [Writes fd])" and ?sc = "\<lambda>fd k. k @ [Closes fd]"
  let ?sr = "\<lambda>fd (_ :: nat) k. (0 :: int, 0 :: int, [] :: u8 list, k @ [Reads fd])"
  let ?u0 = "(UnixReadWriteCloser_new 5, [])" and ?s = "the (Impl_WriteByte 7 (ByteBufferImpl_new 2 mem0))"
  have logs: "logs_calls (\<lambda>k. k) ?sw ?sr ?sc" by (auto simp: logs_calls_def)
  obtain e u s1 where w: "Unix_Write ?sw ?sc ?u0 ?s = Some (e, u, s1)" "closed (fst u)"
    by (simp add: Unix_Write_def UnixReadWriteCloser_new_def write_pages.simps write_rest.simps write_chunk_def Unix_Close_def
        unixClose_def ByteBufferImpl_new_def new_page_def Impl_WriteByte_def TryRefreshWriterBuffer_def poke_def peek_def mem0_def
        Impl_GetReadableBytes_def Impl_GetReaderIndex_def Impl_GetSingleCapacity_def Impl_GetDirectReadAddress_def
        overwrite_def new_array_def sz_sub_def sz_add_def size_max_def)
  have "rtranclp (closer_step ?sw ?sr ?sc) ?u0 (Unix_Close ?sc u)"
    using step_Write [OF w(1)] step_Close by (rule rtranclp.rtrancl_into_rtrancl [OF r_into_rtranclp])
  from closer_protocol [OF logs this] show ?thesis using w by auto
qed

end
