(* ===== verification/Ship_Versions.thy ===== *)
theory Ship_Versions
  imports Ship_Errorables
begin

text \<open>
  \<open>ProtocolVersion\<close> and \<open>ProtocolVersions\<close> (\<open>protocol/ProtocolVersion.cpp\<close>): the versions of a protocol, each with
  an ordinal and a protocol id, and the two arrays that find a version by either number.  The code compares
  pointers with \<open>&ProtocolVersion::UNKNOWN\<close>, so a pointer is either that one or one to a
  version; what is stored there is \<open>deref_version\<close>.
\<close>

record ProtocolVersion =
  version_ordinal :: u32
  protocolID :: u32
  displayVersion :: string

definition ProtocolVersion_new :: "u32 \<Rightarrow> u32 \<Rightarrow> string \<Rightarrow> ProtocolVersion" where
  "ProtocolVersion_new ord protocol_id display_version =
     \<lparr>version_ordinal = ord, protocolID = protocol_id, displayVersion = display_version\<rparr>"

definition ProtocolVersion_default :: ProtocolVersion where
  "ProtocolVersion_default = ProtocolVersion_new 0xFFFFFFFF 0xFFFFFFFF ''Unknown''"

definition UNKNOWN :: ProtocolVersion where
  "UNKNOWN = ProtocolVersion_default"

definition GetVersionOrdinal :: "ProtocolVersion \<Rightarrow> u32" where
  "GetVersionOrdinal v = version_ordinal v"

definition GetProtocolID :: "ProtocolVersion \<Rightarrow> u32" where
  "GetProtocolID v = protocolID v"

definition GetDisplayVersion :: "ProtocolVersion \<Rightarrow> string" where
  "GetDisplayVersion v = displayVersion v"

definition version_less :: "ProtocolVersion \<Rightarrow> ProtocolVersion \<Rightarrow> bool" where
  "version_less v w \<longleftrightarrow> protocolID v < protocolID w"

definition version_greater :: "ProtocolVersion \<Rightarrow> ProtocolVersion \<Rightarrow> bool" where
  "version_greater v w \<longleftrightarrow> protocolID v > protocolID w"

definition version_less_eq :: "ProtocolVersion \<Rightarrow> ProtocolVersion \<Rightarrow> bool" where
  "version_less_eq v w \<longleftrightarrow> protocolID v \<le> protocolID w"

definition version_greater_eq :: "ProtocolVersion \<Rightarrow> ProtocolVersion \<Rightarrow> bool" where
  "version_greater_eq v w \<longleftrightarrow> protocolID v \<ge> protocolID w"

definition version_equal :: "ProtocolVersion \<Rightarrow> ProtocolVersion \<Rightarrow> bool" where
  "version_equal v w \<longleftrightarrow> protocolID v = protocolID w"

text \<open>The operators are those of a preorder: versions with one protocol id are equivalent, whatever their ordinals and names.\<close>

instantiation ProtocolVersion_ext :: (type) preorder
begin

definition less_eq_ProtocolVersion_ext :: "'a ProtocolVersion_ext \<Rightarrow> 'a ProtocolVersion_ext \<Rightarrow> bool" where
  "less_eq_ProtocolVersion_ext v w \<longleftrightarrow> protocolID v \<le> protocolID w"

definition less_ProtocolVersion_ext :: "'a ProtocolVersion_ext \<Rightarrow> 'a ProtocolVersion_ext \<Rightarrow> bool" where
  "less_ProtocolVersion_ext v w \<longleftrightarrow> protocolID v < protocolID w"

instance
  by standard (auto simp: less_eq_ProtocolVersion_ext_def less_ProtocolVersion_ext_def)

end

lemma version_operators:
  "version_less v w \<longleftrightarrow> v < w" "version_less_eq v w \<longleftrightarrow> v \<le> w"
  "version_greater v w \<longleftrightarrow> w < v" "version_greater_eq v w \<longleftrightarrow> w \<le> v"
  "version_equal v w \<longleftrightarrow> v \<le> w \<and> w \<le> v"
  by (auto simp: version_less_def version_less_eq_def version_greater_def version_greater_eq_def version_equal_def
      less_eq_ProtocolVersion_ext_def less_ProtocolVersion_ext_def)

lemma version_trichotomy: "version_less v w \<or> version_equal v w \<or> version_greater v w"
  by (auto simp: version_less_def version_equal_def version_greater_def)

datatype version_ptr = AddrUnknown | AddrOf ProtocolVersion

fun deref_version :: "version_ptr \<Rightarrow> ProtocolVersion" where
  "deref_version AddrUnknown = UNKNOWN"
| "deref_version (AddrOf v) = v"

text \<open>The operators that take a pointer compare with the version behind it.\<close>

definition version_less_ptr :: "ProtocolVersion \<Rightarrow> version_ptr \<Rightarrow> bool" where
  "version_less_ptr v other \<longleftrightarrow> protocolID v < protocolID (deref_version other)"

definition version_greater_ptr :: "ProtocolVersion \<Rightarrow> version_ptr \<Rightarrow> bool" where
  "version_greater_ptr v other \<longleftrightarrow> protocolID v > protocolID (deref_version other)"

definition version_less_eq_ptr :: "ProtocolVersion \<Rightarrow> version_ptr \<Rightarrow> bool" where
  "version_less_eq_ptr v other \<longleftrightarrow> protocolID v \<le> protocolID (deref_version other)"

definition version_greater_eq_ptr :: "ProtocolVersion \<Rightarrow> version_ptr \<Rightarrow> bool" where
  "version_greater_eq_ptr v other \<longleftrightarrow> protocolID v \<ge> protocolID (deref_version other)"

definition version_equal_ptr :: "ProtocolVersion \<Rightarrow> version_ptr \<Rightarrow> bool" where
  "version_equal_ptr v other \<longleftrightarrow> protocolID v = protocolID (deref_version other)"

lemma version_ptr_operators:
  "version_less_ptr v p \<longleftrightarrow> v < deref_version p" "version_greater_ptr v p \<longleftrightarrow> deref_version p < v"
  "version_less_eq_ptr v p \<longleftrightarrow> v \<le> deref_version p" "version_greater_eq_ptr v p \<longleftrightarrow> deref_version p \<le> v"
  "version_equal_ptr v p \<longleftrightarrow> v \<le> deref_version p \<and> deref_version p \<le> v"
  by (auto simp: version_less_ptr_def version_greater_ptr_def version_less_eq_ptr_def version_greater_eq_ptr_def
      version_equal_ptr_def less_eq_ProtocolVersion_ext_def less_ProtocolVersion_ext_def)

section \<open>The tables\<close>

record ProtocolVersions =
  minimumVersion :: ProtocolVersion
  maximumVersion :: ProtocolVersion
  idToVersionMap :: "ProtocolVersion list"
  ordinalToVersionMap :: "ProtocolVersion list"

definition minimumProtocolVersion :: "ProtocolVersions \<Rightarrow> u32" where
  "minimumProtocolVersion vs = protocolID (minimumVersion vs)"

definition maximumProtocolVersion :: "ProtocolVersions \<Rightarrow> u32" where
  "maximumProtocolVersion vs = protocolID (maximumVersion vs)"

definition minimumOrdinal :: "ProtocolVersions \<Rightarrow> u32" where
  "minimumOrdinal vs = version_ordinal (minimumVersion vs)"

definition maximumOrdinal :: "ProtocolVersions \<Rightarrow> u32" where
  "maximumOrdinal vs = version_ordinal (maximumVersion vs)"

fun fill_versions ::
  "ProtocolVersion list \<Rightarrow> ProtocolVersion list \<Rightarrow> ProtocolVersion list
   \<Rightarrow> (ProtocolVersion list \<times> ProtocolVersion list) option" where
  "fill_versions [] ids ords = Some (ids, ords)"
| "fill_versions (v # vs) ids ords =
     do { ids1 \<leftarrow> store_at (unat (protocolID v)) v ids;
          ords1 \<leftarrow> store_at (unat (version_ordinal v)) v ords;
          fill_versions vs ids1 ords1 }"

text \<open>
  The sizes of the arrays are computed in \<open>uint32_t\<close>.  \<open>front()\<close> and \<open>back()\<close> of the empty list and stores beyond
  an array are undefined.
\<close>

definition ProtocolVersions_new :: "ProtocolVersion list \<Rightarrow> ProtocolVersions option" where
  "ProtocolVersions_new versions =
     (if versions = [] then None
      else do { (ids, ords) \<leftarrow> fill_versions versions
                  (replicate (unat (protocolID (last versions) + 1)) ProtocolVersion_default)
                  (replicate (unat (version_ordinal (last versions) + 1)) ProtocolVersion_default);
                Some \<lparr>minimumVersion = hd versions, maximumVersion = last versions,
                      idToVersionMap = ids, ordinalToVersionMap = ords\<rparr> })"

definition FromProtocolID :: "ProtocolVersions \<Rightarrow> u32 \<Rightarrow> version_ptr option" where
  "FromProtocolID vs protocol_id =
     (if protocol_id < minimumProtocolVersion vs \<or> protocol_id > maximumProtocolVersion vs
      then Some AddrUnknown
      else map_option AddrOf (load_at (unat protocol_id) (idToVersionMap vs)))"

definition FromOrdinal :: "ProtocolVersions \<Rightarrow> u32 \<Rightarrow> version_ptr option" where
  "FromOrdinal vs ord =
     (if ord < minimumOrdinal vs \<or> ord > maximumOrdinal vs
      then Some AddrUnknown
      else map_option AddrOf (load_at (unat ord) (ordinalToVersionMap vs)))"

definition GetMinimumVersion :: "ProtocolVersions \<Rightarrow> ProtocolVersion" where
  "GetMinimumVersion vs = minimumVersion vs"

definition GetMaximumVersion :: "ProtocolVersions \<Rightarrow> ProtocolVersion" where
  "GetMaximumVersion vs = maximumVersion vs"

section \<open>Lookups\<close>

text \<open>A list of versions as the constructor wants it: sorted by protocol id and by ordinal, the numbers below \<open>UINT32_MAX\<close>.\<close>

definition versions_ok :: "ProtocolVersion list \<Rightarrow> bool" where
  "versions_ok vs \<longleftrightarrow> vs \<noteq> [] \<and> sorted_wrt (\<lambda>v w. protocolID v < protocolID w) vs \<and>
     sorted_wrt (\<lambda>v w. version_ordinal v < version_ordinal w) vs \<and>
     protocolID (last vs) < 0xFFFFFFFF \<and> version_ordinal (last vs) < 0xFFFFFFFF"

lemma versions_ok_bounds:
  assumes "versions_ok vs" and "v \<in> set vs"
  shows "protocolID (hd vs) \<le> protocolID v" "protocolID v \<le> protocolID (last vs)"
    "version_ordinal (hd vs) \<le> version_ordinal v" "version_ordinal v \<le> version_ordinal (last vs)"
proof -
  have ends: "f (hd vs) \<le> f v \<and> f v \<le> f (last vs)"
    if "sorted_wrt (\<lambda>v w. f v < (f w :: u32)) vs" for f
  proof -
    obtain xs where cons: "vs = hd vs # xs" using assms(2) by (cases vs) auto
    obtain ys where snoc: "vs = ys @ [last vs]"
      using assms(2) by (metis append_butlast_last_id empty_iff list.set(1))
    have "v = hd vs \<or> f (hd vs) < f v" using that assms(2) cons by (metis set_ConsD sorted_wrt.simps(2))
    moreover have "v = last vs \<or> f v < f (last vs)"
      using that assms(2) snoc by (metis UnE list.set_intros(1) set_ConsD set_append sorted_wrt_append empty_iff list.set(1))
    ultimately show ?thesis by auto
  qed
  show "protocolID (hd vs) \<le> protocolID v" "protocolID v \<le> protocolID (last vs)"
    "version_ordinal (hd vs) \<le> version_ordinal v" "version_ordinal v \<le> version_ordinal (last vs)"
    using ends [of protocolID] ends [of version_ordinal] assms(1) by (simp_all add: versions_ok_def)
qed

lemma sorted_less_distinct: "sorted_wrt (\<lambda>v w. f v < (f w :: u32)) vs \<Longrightarrow> distinct (map f vs)"
  by (induction vs) auto

text \<open>The loop puts every version at its two numbers and leaves the other elements alone.\<close>

lemma fill_versions_spec:
  assumes "\<forall>v \<in> set vs. unat (protocolID v) < length ids \<and> unat (version_ordinal v) < length ords"
    and "distinct (map protocolID vs)" and "distinct (map version_ordinal vs)"
  shows "\<exists>ids' ords'. fill_versions vs ids ords = Some (ids', ords') \<and>
    length ids' = length ids \<and> length ords' = length ords \<and>
    (\<forall>v \<in> set vs. ids' ! unat (protocolID v) = v \<and> ords' ! unat (version_ordinal v) = v) \<and>
    (\<forall>i. i \<notin> (\<lambda>v. unat (protocolID v)) ` set vs \<longrightarrow> ids' ! i = ids ! i) \<and>
    (\<forall>i. i \<notin> (\<lambda>v. unat (version_ordinal v)) ` set vs \<longrightarrow> ords' ! i = ords ! i)"
  using assms
proof (induction vs arbitrary: ids ords)
  case Nil
  then show ?case by simp
next
  case (Cons v vs)
  let ?i = "unat (protocolID v)" and ?o = "unat (version_ordinal v)"
  have pre: "\<forall>w \<in> set vs. unat (protocolID w) < length (ids[?i := v]) \<and> unat (version_ordinal w) < length (ords[?o := v])"
    "distinct (map protocolID vs)" "distinct (map version_ordinal vs)"
    using Cons.prems by simp_all
  obtain ids' ords' where ih:
    "fill_versions vs (ids[?i := v]) (ords[?o := v]) = Some (ids', ords')"
    "length ids' = length (ids[?i := v])" "length ords' = length (ords[?o := v])"
    "\<forall>v \<in> set vs. ids' ! unat (protocolID v) = v \<and> ords' ! unat (version_ordinal v) = v"
    "\<forall>i. i \<notin> (\<lambda>v. unat (protocolID v)) ` set vs \<longrightarrow> ids' ! i = ids[?i := v] ! i"
    "\<forall>i. i \<notin> (\<lambda>v. unat (version_ordinal v)) ` set vs \<longrightarrow> ords' ! i = ords[?o := v] ! i"
    using Cons.IH [OF pre] by blast
  have "?i \<notin> (\<lambda>v. unat (protocolID v)) ` set vs" "?o \<notin> (\<lambda>v. unat (version_ordinal v)) ` set vs"
    using Cons.prems(2,3) by (auto simp: word_unat_eq_iff)
  then have "ids' ! ?i = v" "ords' ! ?o = v" using ih(5,6) Cons.prems(1) by simp_all
  moreover have "fill_versions (v # vs) ids ords = Some (ids', ords')"
    using ih(1) Cons.prems(1) by (simp add: store_at_def)
  ultimately show ?case using ih(2-6) by auto
qed

text \<open>What the constructor establishes.\<close>

definition built :: "ProtocolVersion list \<Rightarrow> ProtocolVersions \<Rightarrow> bool" where
  "built vs pv \<longleftrightarrow> minimumVersion pv = hd vs \<and> maximumVersion pv = last vs \<and>
     length (idToVersionMap pv) = unat (protocolID (last vs)) + 1 \<and>
     length (ordinalToVersionMap pv) = unat (version_ordinal (last vs)) + 1 \<and>
     (\<forall>v \<in> set vs. idToVersionMap pv ! unat (protocolID v) = v \<and>
                   ordinalToVersionMap pv ! unat (version_ordinal v) = v) \<and>
     (\<forall>n. n \<le> protocolID (last vs) \<and> n \<notin> protocolID ` set vs \<longrightarrow>
        idToVersionMap pv ! unat n = ProtocolVersion_default) \<and>
     (\<forall>n. n \<le> version_ordinal (last vs) \<and> n \<notin> version_ordinal ` set vs \<longrightarrow>
        ordinalToVersionMap pv ! unat n = ProtocolVersion_default)"

lemma ProtocolVersions_new_ok:
  assumes "versions_ok vs"
  shows "\<exists>pv. ProtocolVersions_new vs = Some pv \<and> built vs pv"
proof -
  have plus1: "unat (x + 1) = unat x + 1" if "x < 0xFFFFFFFF" for x :: u32
    using that unat_bounds(3) [of x] by (simp add: word_less_nat_alt unat_word_ariths)
  let ?p = "unat (protocolID (last vs)) + 1" and ?o = "unat (version_ordinal (last vs)) + 1"
  let ?ids = "replicate ?p ProtocolVersion_default" and ?ords = "replicate ?o ProtocolVersion_default"
  have len: "unat (protocolID (last vs) + 1) = ?p" "unat (version_ordinal (last vs) + 1) = ?o"
    using assms by (simp_all add: versions_ok_def plus1)
  have pre: "\<forall>v \<in> set vs. unat (protocolID v) < length ?ids \<and> unat (version_ordinal v) < length ?ords"
    using versions_ok_bounds(2,4) [OF assms] by (auto simp: word_le_nat_alt less_Suc_eq_le)
  have dist: "distinct (map protocolID vs)" "distinct (map version_ordinal vs)"
    using assms by (auto simp: versions_ok_def intro: sorted_less_distinct)
  obtain ids' ords' where f: "fill_versions vs ?ids ?ords = Some (ids', ords')"
    "length ids' = length ?ids" "length ords' = length ?ords"
    "\<forall>v \<in> set vs. ids' ! unat (protocolID v) = v \<and> ords' ! unat (version_ordinal v) = v"
    "\<forall>i. i \<notin> (\<lambda>v. unat (protocolID v)) ` set vs \<longrightarrow> ids' ! i = ?ids ! i"
    "\<forall>i. i \<notin> (\<lambda>v. unat (version_ordinal v)) ` set vs \<longrightarrow> ords' ! i = ?ords ! i"
    using fill_versions_spec [OF pre dist] by blast
  let ?pv = "\<lparr>minimumVersion = hd vs, maximumVersion = last vs, idToVersionMap = ids', ordinalToVersionMap = ords'\<rparr>"
  have "ProtocolVersions_new vs = Some ?pv"
    using assms f(1) len by (simp add: ProtocolVersions_new_def versions_ok_def)
  moreover have "idToVersionMap ?pv ! unat n = ProtocolVersion_default"
    if "n \<le> protocolID (last vs)" "n \<notin> protocolID ` set vs" for n
  proof -
    have "unat n \<notin> (\<lambda>v. unat (protocolID v)) ` set vs" using that(2) by (auto simp: word_unat_eq_iff)
    then show ?thesis using f(5) that(1) by (simp add: word_le_nat_alt nth_replicate less_Suc_eq_le del: replicate_Suc)
  qed
  moreover have "ordinalToVersionMap ?pv ! unat n = ProtocolVersion_default"
    if "n \<le> version_ordinal (last vs)" "n \<notin> version_ordinal ` set vs" for n
  proof -
    have "unat n \<notin> (\<lambda>v. unat (version_ordinal v)) ` set vs" using that(2) by (auto simp: word_unat_eq_iff)
    then show ?thesis using f(6) that(1) by (simp add: word_le_nat_alt nth_replicate less_Suc_eq_le del: replicate_Suc)
  qed
  ultimately show ?thesis using f(2-4) by (auto simp: built_def)
qed

text \<open>C39.  For a list sorted by id and by ordinal the two tables are built, both lookups return exactly the registered
  version for each of its numbers, and numbers outside the range of the list give \<open>UNKNOWN\<close>.\<close>

theorem version_lookups:
  assumes "versions_ok vs"
  shows "\<exists>pv. ProtocolVersions_new vs = Some pv \<and>
    (\<forall>v \<in> set vs. FromProtocolID pv (protocolID v) = Some (AddrOf v) \<and>
                  FromOrdinal pv (version_ordinal v) = Some (AddrOf v)) \<and>
    (\<forall>n. n < protocolID (hd vs) \<or> n > protocolID (last vs) \<longrightarrow> FromProtocolID pv n = Some AddrUnknown) \<and>
    (\<forall>n. n < version_ordinal (hd vs) \<or> n > version_ordinal (last vs) \<longrightarrow> FromOrdinal pv n = Some AddrUnknown)"
proof -
  obtain pv where pv: "ProtocolVersions_new vs = Some pv" "built vs pv"
    using ProtocolVersions_new_ok [OF assms] by blast
  have "FromProtocolID pv (protocolID v) = Some (AddrOf v) \<and> FromOrdinal pv (version_ordinal v) = Some (AddrOf v)"
    if v: "v \<in> set vs" for v
    using versions_ok_bounds [OF assms v] pv(2) v
    by (auto simp: built_def FromProtocolID_def FromOrdinal_def minimumProtocolVersion_def maximumProtocolVersion_def
        minimumOrdinal_def maximumOrdinal_def load_at_def word_le_nat_alt word_less_nat_alt)
  then show ?thesis
    using pv
    by (auto simp: built_def FromProtocolID_def FromOrdinal_def minimumProtocolVersion_def maximumProtocolVersion_def
        minimumOrdinal_def maximumOrdinal_def)
qed

definition sample_versions :: "ProtocolVersion list" where
  "sample_versions = [ProtocolVersion_new 0 47 ''1.8'', ProtocolVersion_new 1 340 ''1.12.2'']"

lemma sample_versions_ok: "versions_ok sample_versions"
  by (simp add: versions_ok_def sample_versions_def ProtocolVersion_new_def)

theorem version_lookups_witness:
  "\<exists>pv. ProtocolVersions_new sample_versions = Some pv \<and>
     FromProtocolID pv 340 = Some (AddrOf (ProtocolVersion_new 1 340 ''1.12.2'')) \<and>
     FromProtocolID pv 5 = Some AddrUnknown"
proof -
  have "ProtocolVersion_new 1 340 ''1.12.2'' \<in> set sample_versions"
    "protocolID (ProtocolVersion_new 1 340 ''1.12.2'') = 340" "(5 :: u32) < protocolID (hd sample_versions)"
    by (simp_all add: sample_versions_def ProtocolVersion_new_def)
  then show ?thesis using version_lookups [OF sample_versions_ok] by metis
qed

text \<open>A protocol id inside the range that belongs to no version does not give \<open>UNKNOWN\<close>: the lookup returns the
  address of a default element, whose ordinal is \<open>UINT32_MAX\<close> and which no comparison with \<open>&UNKNOWN\<close> recognises.\<close>

lemma version_holes_are_not_unknown:
  assumes "versions_ok vs" and "n \<notin> protocolID ` set vs"
    and "protocolID (hd vs) \<le> n" and "n \<le> protocolID (last vs)"
  shows "\<exists>pv w. ProtocolVersions_new vs = Some pv \<and> FromProtocolID pv n = Some (AddrOf w) \<and>
    AddrOf w \<noteq> AddrUnknown \<and> version_ordinal w = 0xFFFFFFFF"
proof -
  obtain pv where pv: "ProtocolVersions_new vs = Some pv" "built vs pv"
    using ProtocolVersions_new_ok [OF assms(1)] by blast
  have "FromProtocolID pv n = Some (AddrOf ProtocolVersion_default)"
    using assms(2-4) pv(2)
    by (auto simp: built_def FromProtocolID_def minimumProtocolVersion_def maximumProtocolVersion_def load_at_def
        word_le_nat_alt word_less_nat_alt)
  then show ?thesis using pv(1) by (simp add: ProtocolVersion_default_def ProtocolVersion_new_def)
qed

lemma version_holes_are_not_unknown_witness:
  "\<exists>pv w. ProtocolVersions_new sample_versions = Some pv \<and> FromProtocolID pv 100 = Some (AddrOf w) \<and>
     version_ordinal w = 0xFFFFFFFF"
proof -
  have "(100 :: u32) \<notin> protocolID ` set sample_versions" "protocolID (hd sample_versions) \<le> 100"
    "100 \<le> protocolID (last sample_versions)"
    by (simp_all add: sample_versions_def ProtocolVersion_new_def)
  then show ?thesis using version_holes_are_not_unknown [OF sample_versions_ok] by blast
qed

end
