(* ===== verification/Ship_Registries.thy ===== *)
theory Ship_Registries
  imports Ship_Versions
begin

text \<open>
  The registries under \<open>protocol/registry\<close>: \<open>VersionRegistry\<close> (packet ids of one version), \<open>VersionedRegistry\<close> (one of
  those per range of versions), \<open>EnumRegistry\<close> and \<open>ConstructorRegistry\<close>.  The two tables of a
  \<open>VersionRegistry\<close> are vectors filled through \<open>OrdinalVector\<close>, so the lemmas about them are those of the contract
  \<open>ordinal_table\<close>.
\<close>

section \<open>VersionRegistry\<close>

record version_registry =
  ordinalToIDMap :: "u32 list"
  idToOrdinalMap :: "u32 list"
  latestRegisteredID :: int

definition VersionRegistry_default :: version_registry where
  "VersionRegistry_default = \<lparr>ordinalToIDMap = [], idToOrdinalMap = [], latestRegisteredID = -1\<rparr>"

fun index_ordinals :: "u32 list \<Rightarrow> u32 \<Rightarrow> u32 list \<Rightarrow> u32 list option" where
  "index_ordinals [] index m = Some m"
| "index_ordinals (ord # ords) index m =
     do { m1 \<leftarrow> ResizeVectorAndSet 0 m ord index; index_ordinals ords (index + 1) m1 }"

definition VersionRegistry_of :: "u32 list \<Rightarrow> version_registry option" where
  "VersionRegistry_of ordinals =
     do { m \<leftarrow> index_ordinals ordinals 0 [];
          Some \<lparr>ordinalToIDMap = m, idToOrdinalMap = ordinals, latestRegisteredID = -1\<rparr> }"

text \<open>The constructor template: the elements are converted one by one, and appended.\<close>

fun push_ordinals :: "('t \<Rightarrow> u32) \<Rightarrow> 't list \<Rightarrow> u32 \<Rightarrow> version_registry \<Rightarrow> version_registry option" where
  "push_ordinals cast [] index r = Some r"
| "push_ordinals cast (ord # ords) index r =
     do { m1 \<leftarrow> ResizeVectorAndSet 0 (ordinalToIDMap r) (cast ord) index;
          push_ordinals cast ords (index + 1)
            (r\<lparr>ordinalToIDMap := m1, idToOrdinalMap := idToOrdinalMap r @ [cast ord]\<rparr>) }"

definition VersionRegistry_of_values :: "('t \<Rightarrow> u32) \<Rightarrow> 't list \<Rightarrow> version_registry option" where
  "VersionRegistry_of_values cast ordinals = push_ordinals cast ordinals 0 VersionRegistry_default"

definition Registry_GetOrdinalByID :: "version_registry \<Rightarrow> u32 \<Rightarrow> u32 errorable" where
  "Registry_GetOrdinalByID r pid =
     (if unat pid \<ge> length (idToOrdinalMap r) then InvalidArgumentErrorable InvalidPacketById_T 0 (ucast pid)
      else SuccessErrorable (idToOrdinalMap r ! unat pid))"

definition Registry_GetIDByOrdinal :: "version_registry \<Rightarrow> u32 \<Rightarrow> u32 errorable" where
  "Registry_GetIDByOrdinal r ord =
     (if unat ord \<ge> length (ordinalToIDMap r) then InvalidArgumentErrorable InvalidPacketByOrdinal_T 0 (ucast ord)
      else SuccessErrorable (ordinalToIDMap r ! unat ord))"

definition Registry_Register_at :: "u32 \<Rightarrow> u32 \<Rightarrow> version_registry \<Rightarrow> version_registry option" where
  "Registry_Register_at ord pid r =
     do { m1 \<leftarrow> ResizeVectorAndSet 0 (ordinalToIDMap r) ord pid;
          m2 \<leftarrow> ResizeVectorAndSet 0 (idToOrdinalMap r) pid ord;
          Some (r\<lparr>ordinalToIDMap := m1, idToOrdinalMap := m2\<rparr>) }"

text \<open>\<open>latestRegisteredID\<close> is an \<open>int\<close>: incrementing \<open>INT_MAX\<close> is undefined.\<close>

definition Registry_Register :: "u32 \<Rightarrow> version_registry \<Rightarrow> version_registry option" where
  "Registry_Register ord r =
     (if latestRegisteredID r = 2147483647 then None
      else Registry_Register_at ord (of_int (latestRegisteredID r + 1))
             (r\<lparr>latestRegisteredID := latestRegisteredID r + 1\<rparr>))"

section \<open>Lookups after registrations\<close>

fun register_each :: "u32 list \<Rightarrow> version_registry \<Rightarrow> version_registry option" where
  "register_each [] r = Some r"
| "register_each (ord # ords) r = do { r1 \<leftarrow> Registry_Register ord r; register_each ords r1 }"

text \<open>The ids a run of registrations hands out after \<open>k\<close> earlier ones.\<close>

definition fresh_ids :: "nat \<Rightarrow> u32 list \<Rightarrow> u32 list" where
  "fresh_ids k os = map of_nat [k..<k + length os]"

lemma fresh_ids_Cons: "fresh_ids k (ord # os) = of_nat k # fresh_ids (Suc k) os"
  by (simp add: fresh_ids_def upt_rec)

lemma register_each_stores:
  assumes "latestRegisteredID r = int k - 1" and "k + length os < 2 ^ 31"
    and "\<forall>ord \<in> set os. unat ord < 2 ^ 32 - 8"
  shows "\<exists>r'. register_each os r = Some r' \<and> latestRegisteredID r' = int (k + length os) - 1 \<and>
    store_all (\<lambda>i v xs. ResizeVectorAndSet 0 xs i v) (zip os (fresh_ids k os)) (ordinalToIDMap r) = Some (ordinalToIDMap r') \<and>
    store_all (\<lambda>i v xs. ResizeVectorAndSet 0 xs i v) (zip (fresh_ids k os) os) (idToOrdinalMap r) = Some (idToOrdinalMap r')"
  using assms
proof (induction os arbitrary: k r)
  case Nil
  then show ?case by simp
next
  case (Cons ord os)
  have k: "unat (of_nat k :: u32) < 2 ^ 32 - 8"
    using Cons.prems(2) by (simp add: unat_of_nat take_bit_nat_eq_self)
  obtain m1 where m1: "ResizeVectorAndSet 0 (ordinalToIDMap r) ord (of_nat k) = Some m1"
    using ResizeVectorAndSet_total [of ord] Cons.prems(3) by fastforce
  obtain m2 where m2: "ResizeVectorAndSet 0 (idToOrdinalMap r) (of_nat k) ord = Some m2"
    using ResizeVectorAndSet_total [OF k] by fastforce
  let ?r1 = "r\<lparr>latestRegisteredID := int k, ordinalToIDMap := m1, idToOrdinalMap := m2\<rparr>"
  have reg: "Registry_Register ord r = Some ?r1"
    using Cons.prems(1,2) m1 m2 by (simp add: Registry_Register_def Registry_Register_at_def)
  have "latestRegisteredID ?r1 = int (Suc k) - 1" "Suc k + length os < 2 ^ 31"
    "\<forall>ord \<in> set os. unat ord < 2 ^ 32 - 8"
    using Cons.prems by simp_all
  from Cons.IH [OF this] show ?case
    using reg m1 m2 by (simp add: fresh_ids_Cons)
qed

text \<open>Elements nobody stored to are value-initialised.\<close>

lemma store_all_gap:
  "store_all (\<lambda>i v xs. ResizeVectorAndSet d xs i v) kvs xs = Some ys \<Longrightarrow> j \<notin> (\<lambda>kv. unat (fst kv)) ` set kvs \<Longrightarrow>
   j < length ys \<Longrightarrow> ys ! j = (if j < length xs then xs ! j else d)"
proof (induction kvs arbitrary: xs)
  case Nil
  then show ?case by simp
next
  case (Cons kv kvs)
  obtain i v where kv: "kv = (i, v)" by (cases kv)
  obtain zs where zs: "ResizeVectorAndSet d xs i v = Some zs"
    "store_all (\<lambda>i v xs. ResizeVectorAndSet d xs i v) kvs zs = Some ys"
    using Cons.prems(1) kv by (auto elim: bind_SomeE)
  have "ys ! j = (if j < length zs then zs ! j else d)"
    using Cons.IH [OF zs(2)] Cons.prems(2,3) by simp
  moreover have "j \<noteq> unat i" using Cons.prems(2) kv by auto
  ultimately show ?case
    using ResizeVectorAndSet_Some(3,4) [OF zs(1)] by (auto split: if_splits)
qed

lemma distinct_fresh_ids: "k + length os < 2 ^ 31 \<Longrightarrow> distinct (fresh_ids k os)"
  unfolding fresh_ids_def distinct_map
  by (auto intro!: inj_onI simp: word_unat_eq_iff unat_of_nat take_bit_nat_eq_self)

lemma register_each_total:
  assumes "length os < 2 ^ 31" and "\<forall>ord \<in> set os. unat ord < 2 ^ 32 - 8"
  shows "\<exists>r. register_each os VersionRegistry_default = Some r"
  using register_each_stores [of VersionRegistry_default 0 os] assms by (auto simp: VersionRegistry_default_def)

lemma registered_lookups:
  assumes "register_each os VersionRegistry_default = Some r"
    and "distinct os" and "length os < 2 ^ 31" and "\<forall>ord \<in> set os. unat ord < 2 ^ 32 - 8" and i: "i < length os"
  shows "Registry_GetOrdinalByID r (of_nat i) = SuccessErrorable (os ! i)"
    and "Registry_GetIDByOrdinal r (os ! i) = SuccessErrorable (of_nat i)"
proof -
  let ?set = "\<lambda>i (v :: u32) xs. ResizeVectorAndSet 0 xs i v" and ?ids = "fresh_ids 0 os"
  have r: "store_all ?set (zip os ?ids) [] = Some (ordinalToIDMap r)"
    "store_all ?set (zip ?ids os) [] = Some (idToOrdinalMap r)"
    using register_each_stores [of VersionRegistry_default 0 os] assms(1,3,4)
    by (auto simp: VersionRegistry_default_def)
  have l: "length ?ids = length os" by (simp add: fresh_ids_def)
  have id: "?ids ! i = of_nat i" using i by (simp add: fresh_ids_def)
  have "(os ! i, of_nat i) \<in> set (zip os ?ids)" "(of_nat i, os ! i) \<in> set (zip ?ids os)"
    using i l id by (auto simp: in_set_conv_nth)
  then have "load_at (unat (os ! i)) (ordinalToIDMap r) = Some (of_nat i)"
    "load_at (unat (of_nat i :: u32)) (idToOrdinalMap r) = Some (os ! i)"
    using ordinal_vector.store_all_hit [OF r(1)] ordinal_vector.store_all_hit [OF r(2)]
      assms(2,3) l distinct_fresh_ids [of 0 os] by simp_all
  then show "Registry_GetOrdinalByID r (of_nat i) = SuccessErrorable (os ! i)"
    "Registry_GetIDByOrdinal r (os ! i) = SuccessErrorable (of_nat i)"
    by (simp_all add: Registry_GetOrdinalByID_def Registry_GetIDByOrdinal_def)
qed

text \<open>Packets registered one after the other get the ids 0, 1, 2, ... in that order, and both lookups of the
  \<open>VersionRegistry\<close> then find them.\<close>

lemma registered_packets_found:
  assumes "distinct os" and "length os < 2 ^ 31" and "\<forall>ord \<in> set os. unat ord < 2 ^ 32 - 8"
  shows "\<exists>r. register_each os VersionRegistry_default = Some r \<and>
    (\<forall>i < length os. Registry_GetOrdinalByID r (of_nat i) = SuccessErrorable (os ! i) \<and>
                     Registry_GetIDByOrdinal r (os ! i) = SuccessErrorable (of_nat i))"
  using register_each_total [OF assms(2,3)] registered_lookups [OF _ assms] by blast

lemma registered_packets_found_witness:
  "\<exists>r. register_each [5, 3] VersionRegistry_default = Some r \<and>
     Registry_GetOrdinalByID r 1 = SuccessErrorable 3 \<and> Registry_GetIDByOrdinal r 3 = SuccessErrorable 1"
proof -
  obtain r where "register_each [5, 3] VersionRegistry_default = Some r"
    "\<forall>i < length [5, 3 :: u32]. Registry_GetOrdinalByID r (of_nat i) = SuccessErrorable ([5, 3] ! i) \<and>
       Registry_GetIDByOrdinal r ([5, 3] ! i) = SuccessErrorable (of_nat i)"
    using registered_packets_found [of "[5, 3]"] by auto
  then show ?thesis by (intro exI [of _ r]) (auto dest: spec [of _ 1])
qed

text \<open>An ordinal that was never registered but lies below a registered one is not reported as unregistered: its
  lookup succeeds with id 0, the id of the first packet.\<close>

lemma unregistered_ordinal_gets_id_0:
  assumes "length os < 2 ^ 31" and "\<forall>ord \<in> set os. unat ord < 2 ^ 32 - 8"
    and "x \<notin> set os" and "y \<in> set os" and "x < y"
  shows "\<exists>r. register_each os VersionRegistry_default = Some r \<and>
    Registry_GetIDByOrdinal r x = SuccessErrorable 0"
proof -
  let ?set = "\<lambda>i (v :: u32) xs. ResizeVectorAndSet 0 xs i v" and ?ids = "fresh_ids 0 os"
  obtain r where r: "register_each os VersionRegistry_default = Some r"
    "store_all ?set (zip os ?ids) [] = Some (ordinalToIDMap r)"
    using register_each_stores [of VersionRegistry_default 0 os] assms(1,2)
    by (auto simp: VersionRegistry_default_def)
  have len: "length ?ids = length os" by (simp add: fresh_ids_def)
  have sz: "unat y < length zs" if "store_all ?set kvs xs = Some zs" "y \<in> fst ` set kvs \<or> unat y < length xs" for kvs xs zs
    using that
  proof (induction kvs arbitrary: xs)
    case Nil
    then show ?case by simp
  next
    case (Cons kv kvs)
    obtain i v where kv: "kv = (i, v)" by (cases kv)
    then obtain ws where ws: "ResizeVectorAndSet 0 xs i v = Some ws" "store_all ?set kvs ws = Some zs"
      using Cons.prems(1) by (auto elim: bind_SomeE)
    then show ?case
      using Cons.IH [OF ws(2)] ResizeVectorAndSet_Some(1,3) [OF ws(1)] Cons.prems(2) kv by force
  qed
  have "fst ` set (zip os ?ids) = set os" using len by (metis list.set_map map_fst_zip)
  then have "unat y < length (ordinalToIDMap r)" using sz [OF r(2)] assms(4) by simp
  then have lt: "unat x < length (ordinalToIDMap r)" using assms(5) by (simp add: word_less_nat_alt)
  have "unat x \<notin> (\<lambda>kv. unat (fst kv)) ` set (zip os ?ids)"
    using assms(3) set_zip_leftD by (fastforce simp flip: word_unat_eq_iff)
  then have "ordinalToIDMap r ! unat x = 0" using store_all_gap [OF r(2) _ lt] by simp
  then show ?thesis using r(1) lt by (simp add: Registry_GetIDByOrdinal_def)
qed

lemma unregistered_ordinal_gets_id_0_witness:
  "\<exists>r. register_each [5, 3] VersionRegistry_default = Some r \<and>
     Registry_GetIDByOrdinal r 4 = SuccessErrorable 0"
  by (rule unregistered_ordinal_gets_id_0 [where y = 5]) simp_all

text \<open>A \<open>VersionRegistry\<close> constructed from a list of ordinals does not know that their ids are taken: the first
  \<open>Register\<close> hands out id 0 again, after which two ordinals have id 0 and the packet the list gave it to
  can no longer be found by its id.\<close>

lemma register_after_list_reuses_id_0:
  assumes "VersionRegistry_of (a # os) = Some r" and "a \<notin> set os" and "x \<noteq> a" and "unat x < 2 ^ 32 - 8"
  shows "\<exists>r'. Registry_Register x r = Some r' \<and>
    Registry_GetOrdinalByID r 0 = SuccessErrorable a \<and> Registry_GetOrdinalByID r' 0 = SuccessErrorable x \<and>
    Registry_GetIDByOrdinal r' x = SuccessErrorable 0 \<and> Registry_GetIDByOrdinal r' a = SuccessErrorable 0"
proof -
  have keep: "load_at (unat a) zs = Some w"
    if "index_ordinals ks i xs = Some zs" "load_at (unat a) xs = Some w" "a \<notin> set ks" for ks i xs zs w
    using that
  proof (induction ks arbitrary: i xs)
    case Nil
    then show ?case by simp
  next
    case (Cons k ks)
    then obtain ys where ys: "ResizeVectorAndSet 0 xs k i = Some ys" "index_ordinals ks (i + 1) ys = Some zs"
      by (auto elim: bind_SomeE)
    have "load_at (unat a) ys = Some w"
      using ordinal_vector.set_keep [OF ys(1) Cons.prems(2)] Cons.prems(3) by simp
    then show ?case using Cons.IH [OF ys(2)] Cons.prems(3) by simp
  qed
  obtain m0 m where m0: "ResizeVectorAndSet 0 [] a 0 = Some m0" "index_ordinals os 1 m0 = Some m"
    and m: "r = \<lparr>ordinalToIDMap = m, idToOrdinalMap = a # os, latestRegisteredID = -1\<rparr>"
    using assms(1) by (auto simp: VersionRegistry_of_def split: bind_splits)
  have a: "load_at (unat a) m = Some 0"
    using keep [OF m0(2)] ordinal_vector.set_hit [OF m0(1)] assms(2) by simp
  obtain m1 where m1: "ResizeVectorAndSet 0 m x 0 = Some m1"
    using ResizeVectorAndSet_total [OF assms(4)] by fastforce
  obtain m2 where m2: "ResizeVectorAndSet 0 (a # os) 0 x = Some m2"
    using ResizeVectorAndSet_total [of 0] by fastforce
  have "load_at (unat a) m1 = Some 0" using ordinal_vector.set_keep [OF m1 a] assms(3) by simp
  moreover have "load_at (unat x) m1 = Some 0" using ordinal_vector.set_hit [OF m1] by simp
  moreover have "load_at 0 m2 = Some x" using ordinal_vector.set_hit [OF m2] by simp
  ultimately show ?thesis
    using m m1 m2
    by (simp add: Registry_Register_def Registry_Register_at_def Registry_GetOrdinalByID_def
        Registry_GetIDByOrdinal_def)
qed

lemma register_after_list_reuses_id_0_witness:
  "\<exists>r r'. VersionRegistry_of [7, 9] = Some r \<and> Registry_Register 4 r = Some r' \<and>
     Registry_GetOrdinalByID r' 0 = SuccessErrorable 4 \<and> Registry_GetIDByOrdinal r' 7 = SuccessErrorable 0"
proof -
  obtain m0 where m0: "ResizeVectorAndSet 0 [] (7 :: u32) (0 :: u32) = Some m0"
    using ResizeVectorAndSet_total [of 7] by fastforce
  obtain m1 where m1: "ResizeVectorAndSet 0 m0 (9 :: u32) 1 = Some m1"
    using ResizeVectorAndSet_total [of 9] by fastforce
  have "VersionRegistry_of [7, 9] = Some \<lparr>ordinalToIDMap = m1, idToOrdinalMap = [7, 9], latestRegisteredID = -1\<rparr>"
    using m0 m1 by (simp add: VersionRegistry_of_def)
  from register_after_list_reuses_id_0 [OF this, of 4] show ?thesis
    using \<open>VersionRegistry_of [7, 9] = _\<close> by auto
qed

end
