(* ===== verification/Ship_VersionedRegistry.thy ===== *)
theory Ship_VersionedRegistry
  imports Ship_Registries
begin

text \<open>
  \<open>VersionedRegistry\<close> (\<open>protocol/registry/VersionedRegistry.cpp\<close>), \<open>EnumRegistry\<close> and \<open>ConstructorRegistry\<close>.  The
  arrays come from \<open>new[]\<close> without an initialiser: an element is \<open>None\<close> until it is written, and using
  it before has no result.  A \<open>VersionRegistry*\<close> is an address; the store \<open>regs\<close> says which addresses hold a
  registry.  The set of versions is the list of its elements in the set's order.
\<close>

section \<open>State\<close>

record versioned_registry =
  vr_versions :: ProtocolVersions
  versionToOrdinalMap :: "u32 option list"
  versionRegistry :: "nat option list"

type_synonym registry_store = "nat \<rightharpoonup> version_registry"

definition VersionToOrdinal :: "versioned_registry \<Rightarrow> version_ptr \<Rightarrow> u32 option" where
  "VersionToOrdinal vr version =
     (let v = (if version = AddrUnknown then GetMaximumVersion (vr_versions vr) else deref_version version)
      in do { e \<leftarrow> load_at (unat (GetVersionOrdinal v)) (versionToOrdinalMap vr); e })"

section \<open>Construction\<close>

text \<open>
  The loop of the constructor.  \<open>versionMap.begin()++\<close> is \<open>begin()\<close>, so the first round fills
  the empty range between the first version and itself, and counts.
\<close>

fun fill_ordinals ::
  "ProtocolVersion \<Rightarrow> ProtocolVersion list \<Rightarrow> nat \<Rightarrow> u32 option list
   \<Rightarrow> (ProtocolVersion \<times> nat \<times> u32 option list) option" where
  "fill_ordinals previous [] ord m = Some (previous, ord, m)"
| "fill_ordinals previous (v # vs) ord m =
     do { m1 \<leftarrow> fill_range (unat (GetVersionOrdinal previous)) (unat (GetVersionOrdinal v)) (Some (of_nat ord)) m;
          fill_ordinals v vs (ord + 1) m1 }"

definition VersionedRegistry_new ::
  "ProtocolVersions \<Rightarrow> ProtocolVersion list \<Rightarrow> versioned_registry option" where
  "VersionedRegistry_new versions versionMap =
     (let last_ordinal = GetVersionOrdinal (GetMaximumVersion versions) in
      case versionMap of
        [] \<Rightarrow> None
      | first # _ \<Rightarrow>
          do { (previous, ord, m) \<leftarrow> fill_ordinals first versionMap 0
                 (replicate (unat (last_ordinal + 1)) None);
               m1 \<leftarrow> fill_range (unat (GetVersionOrdinal previous)) (unat last_ordinal + 1) (Some (of_nat ord)) m;
               vr \<leftarrow> Some \<lparr>vr_versions = versions, versionToOrdinalMap = m1, versionRegistry = []\<rparr>;
               n \<leftarrow> VersionToOrdinal vr (AddrOf (GetMaximumVersion versions));
               Some (vr\<lparr>versionRegistry := replicate (unat (n + 1)) None\<rparr>) })"

section \<open>Operations\<close>

definition RegisterVersion :: "version_ptr \<Rightarrow> nat \<Rightarrow> versioned_registry \<Rightarrow> versioned_registry option" where
  "RegisterVersion version registry vr =
     do { i \<leftarrow> VersionToOrdinal vr version;
          rs \<leftarrow> store_at (unat i) (Some registry) (versionRegistry vr);
          Some (vr\<lparr>versionRegistry := rs\<rparr>) }"

text \<open>The loop of \<open>FillVersionRegistry\<close>; its bound is looked up again in every round.\<close>

partial_function (option) fill_registry :: "u32 \<Rightarrow> nat \<Rightarrow> versioned_registry \<Rightarrow> versioned_registry option" where
  "fill_registry i registry vr =
     do { b \<leftarrow> VersionToOrdinal vr (AddrOf (GetMaximumVersion (vr_versions vr)));
          if i \<le> b
          then do { rs \<leftarrow> store_at (unat i) (Some registry) (versionRegistry vr);
                    fill_registry (i + 1) registry (vr\<lparr>versionRegistry := rs\<rparr>) }
          else Some vr }"

definition FillVersionRegistry :: "nat \<Rightarrow> versioned_registry \<Rightarrow> versioned_registry option" where
  "FillVersionRegistry registry vr =
     do { i \<leftarrow> VersionToOrdinal vr (AddrOf (GetMinimumVersion (vr_versions vr)));
          fill_registry i registry vr }"

definition registry_for :: "registry_store \<Rightarrow> versioned_registry \<Rightarrow> version_ptr \<Rightarrow> version_registry option" where
  "registry_for regs vr version =
     do { i \<leftarrow> VersionToOrdinal vr version;
          p \<leftarrow> load_at (unat i) (versionRegistry vr);
          a \<leftarrow> p;
          regs a }"

definition Versioned_GetOrdinalByID ::
  "registry_store \<Rightarrow> versioned_registry \<Rightarrow> version_ptr \<Rightarrow> u32 \<Rightarrow> u32 errorable option" where
  "Versioned_GetOrdinalByID regs vr version pid =
     map_option (\<lambda>r. Registry_GetOrdinalByID r pid) (registry_for regs vr version)"

definition Versioned_GetIDByOrdinal ::
  "registry_store \<Rightarrow> versioned_registry \<Rightarrow> version_ptr \<Rightarrow> u32 \<Rightarrow> u32 errorable option" where
  "Versioned_GetIDByOrdinal regs vr version ord =
     map_option (\<lambda>r. Registry_GetIDByOrdinal r ord) (registry_for regs vr version)"

text \<open>The destructor deletes every element of the array, from 0 on.\<close>

fun delete_registries :: "nat option list \<Rightarrow> registry_store \<Rightarrow> registry_store option" where
  "delete_registries [] regs = Some regs"
| "delete_registries (p # ps) regs =
     do { a \<leftarrow> p; r \<leftarrow> regs a; delete_registries ps (regs(a := None)) }"

definition VersionedRegistry_delete :: "registry_store \<Rightarrow> versioned_registry \<Rightarrow> registry_store option" where
  "VersionedRegistry_delete regs vr =
     do { b \<leftarrow> VersionToOrdinal vr (AddrOf (GetMaximumVersion (vr_versions vr)));
          ps \<leftarrow> slice_of 0 (unat (b + 1)) (versionRegistry vr);
          delete_registries ps regs }"

section \<open>The ordinals of versions\<close>

lemma u32_nat: "n < 2 ^ 32 \<Longrightarrow> unat (of_nat n :: u32) = n"
  by (simp add: unat_of_nat take_bit_nat_eq_self)

definition breakpoints_upto :: "ProtocolVersion list \<Rightarrow> nat \<Rightarrow> nat" where
  "breakpoints_upto vs i = length (filter (\<lambda>v. unat (version_ordinal v) \<le> i) vs)"

lemma fill_ordinals_spec:
  assumes "fill_ordinals p vs k m = Some (q, k', m')"
  shows "length m' = length m" and "k' = k + length vs" and "q = last (p # vs)"
    and "unat (version_ordinal p) \<le> unat (version_ordinal q)"
    and "\<forall>v \<in> set vs. unat (version_ordinal p) \<le> unat (version_ordinal v) \<and>
                       unat (version_ordinal v) \<le> unat (version_ordinal q)"
    and "unat (version_ordinal q) \<le> length m \<or> vs = []"
    and "\<forall>i < length m. m' ! i =
      (if unat (version_ordinal p) \<le> i \<and> i < unat (version_ordinal q)
       then Some (of_nat (k + breakpoints_upto vs i)) else m ! i)"
  using assms
proof (atomize (full), induction vs arbitrary: p k m)
  case Nil
  then show ?case by auto
next
  case (Cons v vs)
  obtain m1 where m1: "fill_range (unat (version_ordinal p)) (unat (version_ordinal v)) (Some (of_nat k)) m = Some m1"
    "fill_ordinals v vs (k + 1) m1 = Some (q, k', m')"
    using Cons.prems by (auto simp: GetVersionOrdinal_def elim: bind_SomeE)
  have r: "unat (version_ordinal p) \<le> unat (version_ordinal v)" "unat (version_ordinal v) \<le> length m"
    using m1(1) by (auto simp: fill_range_def split: if_splits)
  have l: "length m1 = length m" using fill_range_length [OF m1(1)] .
  note ih = Cons.IH [OF m1(2)]
  have z: "breakpoints_upto (v # vs) i = 0" if "i < unat (version_ordinal v)" for i
    using ih that by (auto simp: breakpoints_upto_def filter_empty_conv)
  have n: "\<forall>i < length m. m1 ! i = (if unat (version_ordinal p) \<le> i \<and> i < unat (version_ordinal v)
      then Some (of_nat k) else m ! i)"
    using fill_range_nth [OF m1(1)] by simp
  have el: "m' ! i = (if unat (version_ordinal p) \<le> i \<and> i < unat (version_ordinal q)
       then Some (of_nat (k + breakpoints_upto (v # vs) i)) else m ! i)" if i: "i < length m" for i
  proof (cases "i < unat (version_ordinal v)")
    case True
    then show ?thesis using ih n i l r z [OF True] by auto
  next
    case False
    then have "breakpoints_upto (v # vs) i = breakpoints_upto vs i + 1" by (simp add: breakpoints_upto_def)
    then show ?thesis using False ih n i l r by (auto simp: algebra_simps)
  qed
  have pq: "unat (version_ordinal p) \<le> unat (version_ordinal q)" using ih r(1) by linarith
  have "\<forall>w \<in> set (v # vs). unat (version_ordinal p) \<le> unat (version_ordinal w) \<and>
      unat (version_ordinal w) \<le> unat (version_ordinal q)"
    using ih r(1) pq by auto
  moreover have "unat (version_ordinal q) \<le> length m" using ih l r(2) by (cases vs) auto
  ultimately show ?case using el pq ih l by (intro conjI allI impI) simp_all
qed

lemma VersionedRegistry_new_spec:
  assumes "VersionedRegistry_new pv vm = Some vr"
  shows "vr_versions vr = pv" and "vm \<noteq> []"
    and "length (versionToOrdinalMap vr) = unat (version_ordinal (maximumVersion pv)) + 1"
    and "\<forall>i \<le> unat (version_ordinal (maximumVersion pv)). versionToOrdinalMap vr ! i =
      (if unat (version_ordinal (hd vm)) \<le> i then Some (of_nat (breakpoints_upto vm i)) else None)"
    and "\<exists>n. VersionToOrdinal vr (AddrOf (maximumVersion pv)) = Some n \<and>
      versionRegistry vr = replicate (unat (n + 1)) None"
proof -
  let ?max = "version_ordinal (maximumVersion pv)"
  show ne: "vm \<noteq> []" using assms by (auto simp: VersionedRegistry_new_def Let_def)
  then obtain v vs where vm: "vm = v # vs" by (cases vm) auto
  obtain q k m m1 n where f: "fill_ordinals v vm 0 (replicate (unat (?max + 1)) None) = Some (q, k, m)"
    "fill_range (unat (version_ordinal q)) (unat ?max + 1) (Some (of_nat k)) m = Some m1"
    "VersionToOrdinal \<lparr>vr_versions = pv, versionToOrdinalMap = m1, versionRegistry = []\<rparr> (AddrOf (maximumVersion pv)) = Some n"
    "vr = \<lparr>vr_versions = pv, versionToOrdinalMap = m1, versionRegistry = replicate (unat (n + 1)) None\<rparr>"
    using assms vm
    by (auto simp: VersionedRegistry_new_def Let_def GetVersionOrdinal_def GetMaximumVersion_def
        split: bind_splits)
  show "vr_versions vr = pv" by (simp add: f(4))
  note s = fill_ordinals_spec [OF f(1)]
  have len: "length m1 = unat (?max + 1)" using fill_range_length [OF f(2)] s(1) by simp
  have "unat ?max + 1 \<le> unat (?max + 1)"
    using f(2) s(1) by (auto simp: fill_range_def split: if_splits)
  then have max: "unat (?max + 1) = unat ?max + 1"
    using mod_less_eq_dividend [of "unat ?max + 1" "2 ^ 32"] by (simp add: unat_word_ariths)
  show "length (versionToOrdinalMap vr) = unat ?max + 1" using len max f(4) by simp
  have last: "breakpoints_upto vm i = k" if "unat (version_ordinal q) \<le> i" for i
    using s(2,5) that by (fastforce simp: breakpoints_upto_def filter_id_conv intro!: arg_cong [of _ _ length])
  show "\<forall>i \<le> unat ?max. versionToOrdinalMap vr ! i =
      (if unat (version_ordinal (hd vm)) \<le> i then Some (of_nat (breakpoints_upto vm i)) else None)"
  proof (intro allI impI)
    fix i assume i: "i \<le> unat ?max"
    have "m1 ! i = (if unat (version_ordinal q) \<le> i \<and> i < unat ?max + 1 then Some (of_nat k) else m ! i)"
      using fill_range_nth [OF f(2)] i max s(1) by simp
    then show "versionToOrdinalMap vr ! i =
      (if unat (version_ordinal (hd vm)) \<le> i then Some (of_nat (breakpoints_upto vm i)) else None)"
      using s(4,7) i max last f(4) vm by (auto simp: nth_replicate simp del: replicate_Suc)
  qed
  show "\<exists>n. VersionToOrdinal vr (AddrOf (maximumVersion pv)) = Some n \<and>
      versionRegistry vr = replicate (unat (n + 1)) None"
    using f(3,4) by (auto simp: VersionToOrdinal_def Let_def)
qed

definition effective_ordinal :: "ProtocolVersions \<Rightarrow> version_ptr \<Rightarrow> u32" where
  "effective_ordinal pv p = version_ordinal (if p = AddrUnknown then maximumVersion pv else deref_version p)"

lemma VersionToOrdinal_new:
  assumes "VersionedRegistry_new pv vm = Some vr"
  shows "VersionToOrdinal vr p =
    (if version_ordinal (hd vm) \<le> effective_ordinal pv p \<and> effective_ordinal pv p \<le> version_ordinal (maximumVersion pv)
     then Some (of_nat (breakpoints_upto vm (unat (effective_ordinal pv p)))) else None)"
proof -
  note s = VersionedRegistry_new_spec [OF assms]
  have "VersionToOrdinal vr p = (load_at (unat (effective_ordinal pv p)) (versionToOrdinalMap vr)) \<bind> (\<lambda>e. e)"
    by (simp add: VersionToOrdinal_def effective_ordinal_def GetVersionOrdinal_def GetMaximumVersion_def s(1) Let_def)
  then show ?thesis using s(3,4)
    by (auto simp: load_at_def word_le_nat_alt less_Suc_eq_le)
qed

text \<open>C40.  The ordinal of a version in a \<open>VersionedRegistry\<close> is the number of entries of the version map up to it, so that it
  starts at 1 (not at 0, which \<open>begin()++\<close> was to skip); below the first entry of the map, and above the
  highest version, it is read from memory nobody wrote.\<close>

theorem version_to_ordinal_counts:
  assumes "VersionedRegistry_new pv vm = Some vr"
  shows "VersionToOrdinal vr (AddrOf v) =
    (if version_ordinal (hd vm) \<le> version_ordinal v \<and> version_ordinal v \<le> version_ordinal (maximumVersion pv)
     then Some (of_nat (length (filter (\<lambda>w. version_ordinal w \<le> version_ordinal v) vm))) else None)"
  using VersionToOrdinal_new [OF assms, of "AddrOf v"]
  by (simp add: effective_ordinal_def breakpoints_upto_def word_le_nat_alt)

definition sample_pv :: ProtocolVersions where
  "sample_pv = the (ProtocolVersions_new sample_versions)"

lemma sample_pv_built: "built sample_versions sample_pv"
  using ProtocolVersions_new_ok [OF sample_versions_ok] by (auto simp: sample_pv_def)

lemma sample_pv_simps:
  "version_ordinal (maximumVersion sample_pv) = 1" "version_ordinal (minimumVersion sample_pv) = 0"
  "version_ordinal (hd sample_versions) = 0"
  using sample_pv_built by (simp_all add: built_def sample_versions_def ProtocolVersion_new_def)

text \<open>A version map sorted by ordinal, within the range of the versions, is accepted.\<close>

lemma fill_ordinals_total:
  "sorted_wrt (\<lambda>v w. unat (version_ordinal v) \<le> unat (version_ordinal w)) (p # vs) \<Longrightarrow>
   \<forall>v \<in> set vs. unat (version_ordinal v) \<le> length m \<Longrightarrow> \<exists>q k' m'. fill_ordinals p vs k m = Some (q, k', m')"
proof (induction vs arbitrary: p k m)
  case Nil
  then show ?case by simp
next
  case (Cons v vs)
  then obtain m1 where m1: "fill_range (unat (version_ordinal p)) (unat (version_ordinal v)) (Some (of_nat k)) m = Some m1"
    by (simp add: fill_range_def)
  then have "length m1 = length m" by (rule fill_range_length)
  then have "\<exists>q k' m'. fill_ordinals v vs (k + 1) m1 = Some (q, k', m')"
    using Cons.prems by (intro Cons.IH) simp_all
  then show ?case using m1 by (simp add: GetVersionOrdinal_def)
qed

lemma VersionedRegistry_new_total:
  assumes "vm \<noteq> []" and "sorted_wrt (\<lambda>v w. unat (version_ordinal v) \<le> unat (version_ordinal w)) vm"
    and "\<forall>v \<in> set vm. version_ordinal v \<le> version_ordinal (maximumVersion pv)"
    and "version_ordinal (maximumVersion pv) < 0xFFFFFFFF"
  shows "\<exists>vr. VersionedRegistry_new pv vm = Some vr"
proof -
  obtain v vs where vm: "vm = v # vs" using assms(1) by (cases vm) auto
  let ?max = "version_ordinal (maximumVersion pv)"
  have max: "unat (?max + 1) = unat ?max + 1"
    using assms(4) unat_bounds(3) [of ?max] by (simp add: word_less_nat_alt unat_word_ariths)
  let ?m = "replicate (unat (?max + 1)) (None :: u32 option)"
  have "sorted_wrt (\<lambda>v w. unat (version_ordinal v) \<le> unat (version_ordinal w)) (v # vm)"
    "\<forall>v \<in> set vm. unat (version_ordinal v) \<le> length ?m"
    using assms(2,3) max vm by (auto simp: word_le_nat_alt le_SucI)
  then obtain q k m where f: "fill_ordinals v vm 0 ?m = Some (q, k, m)" using fill_ordinals_total by blast
  note s = fill_ordinals_spec [OF f]
  have q: "unat (version_ordinal q) \<le> unat ?max"
    using s(3) vm assms(3) by (simp add: word_le_nat_alt split: if_splits)
  then obtain m1 where m1: "fill_range (unat (version_ordinal q)) (unat ?max + 1) (Some (of_nat k)) m = Some m1"
    using s(1) max by (simp add: fill_range_def)
  have "m1 ! unat ?max = Some (of_nat k)" "unat ?max < length m1"
    using fill_range_nth [OF m1, of "unat ?max"] fill_range_length [OF m1] q s(1) max by simp_all
  then show ?thesis
    using f m1 unfolding VersionedRegistry_new_def vm
    by (simp add: GetVersionOrdinal_def GetMaximumVersion_def VersionToOrdinal_def load_at_def Let_def
        del: fill_ordinals.simps)
qed

lemma sample_registry: "\<exists>vr. VersionedRegistry_new sample_pv sample_versions = Some vr"
  by (rule VersionedRegistry_new_total)
    (simp_all add: sample_pv_simps, simp_all add: sample_versions_def ProtocolVersion_new_def)

theorem version_to_ordinal_counts_witness:
  "\<exists>vr. VersionedRegistry_new sample_pv sample_versions = Some vr \<and>
     VersionToOrdinal vr (AddrOf (ProtocolVersion_new 0 47 ''1.8'')) = Some 1 \<and>
     VersionToOrdinal vr (AddrOf ProtocolVersion_default) = None"
proof -
  obtain vr where vr: "VersionedRegistry_new sample_pv sample_versions = Some vr" using sample_registry ..
  have "\<not> version_ordinal ProtocolVersion_default \<le> 1"
    unfolding ProtocolVersion_default_def ProtocolVersion_new_def by code_simp
  then show ?thesis
    using vr version_to_ordinal_counts [OF vr]
    by (simp add: sample_pv_simps) (simp add: sample_versions_def ProtocolVersion_new_def)
qed

section \<open>The destructor\<close>

datatype registry_call = CallRegister version_ptr nat | CallFill nat

fun run_calls :: "registry_call list \<Rightarrow> versioned_registry \<Rightarrow> versioned_registry option" where
  "run_calls [] vr = Some vr"
| "run_calls (CallRegister p a # cs) vr = do { vr1 \<leftarrow> RegisterVersion p a vr; run_calls cs vr1 }"
| "run_calls (CallFill a # cs) vr = do { vr1 \<leftarrow> FillVersionRegistry a vr; run_calls cs vr1 }"

text \<open>Nothing ever stores to element 0, because no version has the ordinal 0.\<close>

definition slot_0_unset :: "versioned_registry \<Rightarrow> bool" where
  "slot_0_unset vr \<longleftrightarrow> load_at 0 (versionRegistry vr) = Some None \<and>
     (\<forall>b. VersionToOrdinal vr (AddrOf (maximumVersion (vr_versions vr))) = Some b \<longrightarrow>
          length (versionRegistry vr) = unat (b + 1)) \<and>
     (\<forall>p i. VersionToOrdinal vr p = Some i \<longrightarrow> i \<noteq> 0)"

lemma VersionToOrdinal_registry [simp]:
  "VersionToOrdinal (vr\<lparr>versionRegistry := rs\<rparr>) p = VersionToOrdinal vr p"
  by (simp add: VersionToOrdinal_def)

text \<open>Versions, ordinals and the size of the array stay.\<close>

definition same_shape :: "versioned_registry \<Rightarrow> versioned_registry \<Rightarrow> bool" where
  "same_shape vr vr' \<longleftrightarrow> (\<exists>rs. vr' = vr\<lparr>versionRegistry := rs\<rparr> \<and> length rs = length (versionRegistry vr))"

lemma same_shape_refl [simp]: "same_shape vr vr"
  by (auto simp: same_shape_def intro: exI [of _ "versionRegistry vr"])

lemma same_shape_trans: "same_shape a b \<Longrightarrow> same_shape b c \<Longrightarrow> same_shape a c"
  by (auto simp: same_shape_def)

lemma store_slot:
  assumes "slot_0_unset vr" and "i \<noteq> 0" and "store_at (unat i) (Some a) (versionRegistry vr) = Some rs"
  shows "slot_0_unset (vr\<lparr>versionRegistry := rs\<rparr>) \<and> same_shape vr (vr\<lparr>versionRegistry := rs\<rparr>)"
proof -
  have "unat i \<noteq> 0" using assms(2) by (simp add: unat_eq_0)
  then show ?thesis
    using assms(1,3) by (auto simp: slot_0_unset_def same_shape_def store_at_def split: if_splits)
qed

lemma RegisterVersion_slot:
  "RegisterVersion p a vr = Some vr' \<Longrightarrow> slot_0_unset vr \<Longrightarrow> slot_0_unset vr' \<and> same_shape vr vr'"
  using store_slot [of vr] by (fastforce simp: RegisterVersion_def slot_0_unset_def split: bind_splits)

lemma fill_registry_slot:
  assumes "fill_registry i a vr = Some vr'"
  shows "slot_0_unset vr \<Longrightarrow> i \<noteq> 0 \<Longrightarrow> slot_0_unset vr' \<and> same_shape vr vr'"
  using assms
proof (induction rule: fill_registry.raw_induct [rotated, consumes 1, case_names step])
  case (step rec i a vr vr')
  obtain b where b: "VersionToOrdinal vr (AddrOf (GetMaximumVersion (vr_versions vr))) = Some b"
    using step(2) by (auto elim: bind_SomeE)
  show ?case
  proof (cases "i \<le> b")
    case False
    then show ?thesis using step(2,3) b by simp
  next
    case True
    then obtain rs where rs: "store_at (unat i) (Some a) (versionRegistry vr) = Some rs"
      "rec (i + 1) a (vr\<lparr>versionRegistry := rs\<rparr>) = Some vr'"
      using step(2) b by (auto elim: bind_SomeE)
    note s = store_slot [OF step(3,4) rs(1)]
    show ?thesis
    proof (cases "i + 1 = 0")
      case False
      then show ?thesis using step(1) [OF rs(2)] s same_shape_trans by blast
    next
      case True
      then have "i = - 1" by (simp add: eq_neg_iff_add_eq_0)
      then have "b = - 1" using \<open>i \<le> b\<close> by (simp add: word_order.extremum_unique)
      then have "versionRegistry vr = []" using step(3) b by (auto simp: slot_0_unset_def GetMaximumVersion_def)
      then show ?thesis using step(3) by (simp add: slot_0_unset_def load_at_def)
    qed
  qed
qed

lemma FillVersionRegistry_slot:
  assumes "FillVersionRegistry a vr = Some vr'" and "slot_0_unset vr"
  shows "slot_0_unset vr' \<and> same_shape vr vr'"
proof -
  obtain i where i: "VersionToOrdinal vr (AddrOf (GetMinimumVersion (vr_versions vr))) = Some i"
    "fill_registry i a vr = Some vr'"
    using assms(1) by (auto simp: FillVersionRegistry_def elim: bind_SomeE)
  then have "i \<noteq> 0" using assms(2) by (simp add: slot_0_unset_def)
  then show ?thesis using fill_registry_slot [OF i(2) assms(2)] by simp
qed

lemma run_calls_slot:
  "run_calls cs vr = Some vr' \<Longrightarrow> slot_0_unset vr \<Longrightarrow> slot_0_unset vr' \<and> same_shape vr vr'"
proof (induction cs arbitrary: vr)
  case Nil
  then show ?case by simp
next
  case (Cons c cs)
  obtain vr1 where "slot_0_unset vr1 \<and> same_shape vr vr1" "run_calls cs vr1 = Some vr'"
  proof (cases c)
    case (CallRegister p a)
    then obtain vr1 where "RegisterVersion p a vr = Some vr1" "run_calls cs vr1 = Some vr'"
      using Cons.prems(1) by (auto elim: bind_SomeE)
    then show thesis using that RegisterVersion_slot Cons.prems(2) by blast
  next
    case (CallFill a)
    then obtain vr1 where "FillVersionRegistry a vr = Some vr1" "run_calls cs vr1 = Some vr'"
      using Cons.prems(1) by (auto elim: bind_SomeE)
    then show thesis using that FillVersionRegistry_slot Cons.prems(2) by blast
  qed
  then show ?case using Cons.IH same_shape_trans by blast
qed

lemma VersionedRegistry_new_slot:
  assumes "VersionedRegistry_new pv vm = Some vr" and "length vm < 2 ^ 32 - 1"
  shows "slot_0_unset vr"
proof -
  note s = VersionedRegistry_new_spec [OF assms(1)]
  have pos: "i \<noteq> 0 \<and> i + 1 \<noteq> 0" if "VersionToOrdinal vr p = Some i" for p i
  proof -
    let ?o = "unat (effective_ordinal pv p)"
    have i: "i = of_nat (breakpoints_upto vm ?o)" "unat (version_ordinal (hd vm)) \<le> ?o"
      using that VersionToOrdinal_new [OF assms(1), of p] by (auto simp: word_le_nat_alt split: if_splits)
    have "hd vm \<in> set (filter (\<lambda>v. unat (version_ordinal v) \<le> ?o) vm)" using i(2) s(2) by simp
    then have "0 < breakpoints_upto vm ?o" unfolding breakpoints_upto_def by (rule length_pos_if_in_set)
    moreover have "breakpoints_upto vm ?o < 2 ^ 32 - 1"
      using assms(2) length_filter_le [of "\<lambda>v. unat (version_ordinal v) \<le> ?o" vm]
      unfolding breakpoints_upto_def by (rule le_less_trans [rotated])
    ultimately have u: "0 < unat i" "unat i + 1 < 2 ^ 32"
      using u32_nat [of "breakpoints_upto vm ?o"] i(1) by simp_all
    then have "unat (i + 1) = unat i + 1" by (simp add: unat_word_ariths)
    then show ?thesis using u by (metis add_eq_0_iff_both_eq_0 less_irrefl unat_0 zero_neq_one)
  qed
  obtain n where n: "VersionToOrdinal vr (AddrOf (maximumVersion pv)) = Some n"
    "versionRegistry vr = replicate (unat (n + 1)) None" using s(5) by blast
  have "0 < unat (n + 1)" using pos [OF n(1)] by (simp add: unat_gt_0)
  then show ?thesis using n s(1) pos by (auto simp: slot_0_unset_def)
qed

text \<open>C19.  The destructor of a \<open>VersionedRegistry\<close> is undefined whatever was registered before: it deletes
  element 0 of the array, and no call can have set it.\<close>

theorem registry_destructor_undefined:
  assumes "VersionedRegistry_new pv vm = Some vr" and "length vm < 2 ^ 32 - 1"
    and "run_calls cs vr = Some vr'"
  shows "VersionedRegistry_delete regs vr' = None"
proof -
  note s = VersionedRegistry_new_spec [OF assms(1)]
  have r: "slot_0_unset vr' \<and> same_shape vr vr'"
    using run_calls_slot [OF assms(3) VersionedRegistry_new_slot [OF assms(1,2)]] .
  obtain n where "VersionToOrdinal vr (AddrOf (maximumVersion pv)) = Some n" using s(5) by blast
  then have n: "VersionToOrdinal vr' (AddrOf (maximumVersion (vr_versions vr'))) = Some n"
    using r s(1) by (auto simp: same_shape_def)
  then have "length (versionRegistry vr') = unat (n + 1)" "load_at 0 (versionRegistry vr') = Some None"
    using r unfolding slot_0_unset_def by blast+
  moreover from this obtain ps where ps: "versionRegistry vr' = None # ps"
    by (cases "versionRegistry vr'") (auto simp: load_at_def)
  ultimately have "slice_of 0 (unat (n + 1)) (versionRegistry vr') = Some (None # ps)"
    by (simp add: slice_of_def)
  then show ?thesis using n by (simp add: VersionedRegistry_delete_def GetMaximumVersion_def)
qed

theorem registry_destructor_undefined_witness:
  "\<exists>vr vr'. VersionedRegistry_new sample_pv sample_versions = Some vr \<and>
     run_calls [] vr = Some vr' \<and> VersionedRegistry_delete (\<lambda>_. None) vr' = None"
proof -
  obtain vr where vr: "VersionedRegistry_new sample_pv sample_versions = Some vr" using sample_registry ..
  have "length sample_versions < 2 ^ 32 - 1" by (simp add: sample_versions_def)
  then show ?thesis using registry_destructor_undefined [OF vr, of "[]"] vr by simp
qed

section \<open>Lookups through a version\<close>

lemma registry_for_RegisterVersion:
  assumes "RegisterVersion p a vr = Some vr'" and "VersionToOrdinal vr q = VersionToOrdinal vr p"
  shows "registry_for regs vr' q = regs a"
  using assms
  by (auto simp: RegisterVersion_def registry_for_def store_at_def load_at_def split: bind_splits if_splits)

section \<open>EnumRegistry\<close>

definition Enum_GetValue ::
  "(u32 \<Rightarrow> 't) \<Rightarrow> 't \<Rightarrow> registry_store \<Rightarrow> versioned_registry \<Rightarrow> version_ptr \<Rightarrow> u32 \<Rightarrow> 't errorable option" where
  "Enum_GetValue cast dflt regs vr version pid =
     do { e \<leftarrow> Versioned_GetOrdinalByID regs vr version pid;
          Some (if IsSuccess e then SuccessErrorable (cast (GetValue e))
                else InvalidArgumentErrorable InvalidEnumById_T dflt (ucast pid)) }"

definition Enum_GetID ::
  "('t \<Rightarrow> u32) \<Rightarrow> registry_store \<Rightarrow> versioned_registry \<Rightarrow> version_ptr \<Rightarrow> 't \<Rightarrow> u32 errorable option" where
  "Enum_GetID uncast regs vr version v = Versioned_GetIDByOrdinal regs vr version (uncast v)"

section \<open>ConstructorRegistry\<close>

text \<open>
  A constructor is a \<open>std::function\<close> from a version and a buffer (with the state \<open>'s\<close> it changes); an empty
  one is \<open>None\<close>.  An object pointer is to the heap, or to a local variable of a function that
  has returned.
\<close>

datatype 'o obj_ptr = NullPtr | HeapPtr 'o | DanglingPtr

type_synonym ('s, 'o) ctor = "version_ptr \<Rightarrow> 's \<Rightarrow> ('o obj_ptr errorable \<times> 's) option"

text \<open>The errorables of \<open>ConstructorRegistry.hpp\<close>.\<close>

definition NoConstructorExistErrorable :: "u32 \<Rightarrow> 'o obj_ptr errorable" where
  [simp]: "NoConstructorExistErrorable ord = InvalidArgumentErrorable NoConstructorExist_T NullPtr (ucast ord)"

definition NoConstructorOrdinalExistErrorable :: "u32 \<Rightarrow> 'o obj_ptr errorable" where
  [simp]: "NoConstructorOrdinalExistErrorable pid = InvalidArgumentErrorable NoConstructorOrdinalExist_T NullPtr (ucast pid)"

definition InvalidConstructorErrorable :: "'o obj_ptr errorable" where
  [simp]: "InvalidConstructorErrorable = InvalidArgumentErrorable InvalidConstructor_T NullPtr 0"

definition CreateConstructor :: "(version_ptr \<Rightarrow> 's \<Rightarrow> ('o \<times> 's) option) \<Rightarrow> ('s, 'o) ctor" where
  "CreateConstructor new_object version s =
     do { (object, s1) \<leftarrow> new_object version s; Some (SuccessErrorable (HeapPtr object), s1) }"

definition WrapConstructor :: "(version_ptr \<Rightarrow> 's \<Rightarrow> ('o errorable \<times> 's) option) \<Rightarrow> ('s, 'o) ctor" where
  "WrapConstructor instantiate version s =
     do { (e, s1) \<leftarrow> instantiate version s;
          ProceedErrorable e InvalidConstructorErrorable
            (\<lambda>object. Some (SuccessErrorable DanglingPtr, s1)) s1 }"

record ('s, 'o) constructor_registry =
  constructor_versions :: versioned_registry
  ordinalToObjectMap :: "('s, 'o) ctor option list"

definition RegisterConstructor ::
  "u32 \<Rightarrow> ('s, 'o) ctor option \<Rightarrow> ('s, 'o) constructor_registry \<Rightarrow> ('s, 'o) constructor_registry option" where
  "RegisterConstructor ord constructor cr =
     do { m \<leftarrow> ResizeVectorAndSet None (ordinalToObjectMap cr) ord constructor;
          Some (cr\<lparr>ordinalToObjectMap := m\<rparr>) }"

definition GetObjectByID ::
  "registry_store \<Rightarrow> ('s, 'o) constructor_registry \<Rightarrow> version_ptr \<Rightarrow> u32 \<Rightarrow> 's \<Rightarrow> ('o obj_ptr errorable \<times> 's) option" where
  "GetObjectByID regs cr version pid s =
     do { e \<leftarrow> Versioned_GetOrdinalByID regs (constructor_versions cr) version pid;
          ProceedErrorable e (NoConstructorOrdinalExistErrorable pid)
            (\<lambda>ord. if unat ord \<ge> length (ordinalToObjectMap cr)
               then Some (NoConstructorExistErrorable ord, s)
               else (case ordinalToObjectMap cr ! unat ord of
                       Some constructor \<Rightarrow> constructor version s
                     | None \<Rightarrow> Some (NoConstructorExistErrorable ord, s))) s }"

definition GetConstructorCount :: "('s, 'o) constructor_registry \<Rightarrow> nat" where
  "GetConstructorCount cr = length (ordinalToObjectMap cr)"

text \<open>Registering at distinct ordinals.\<close>

fun register_constructors ::
  "(u32 \<times> ('s, 'o) ctor option) list \<Rightarrow> ('s, 'o) constructor_registry \<Rightarrow> ('s, 'o) constructor_registry option" where
  "register_constructors [] cr = Some cr"
| "register_constructors ((ord, c) # rest) cr = do { cr1 \<leftarrow> RegisterConstructor ord c cr; register_constructors rest cr1 }"

lemma register_constructors_stores:
  "register_constructors kcs cr = Some cr' \<Longrightarrow>
   store_all (\<lambda>i v xs. ResizeVectorAndSet None xs i v) kcs (ordinalToObjectMap cr) = Some (ordinalToObjectMap cr') \<and>
   constructor_versions cr' = constructor_versions cr"
proof (induction kcs cr rule: register_constructors.induct)
  case (1 cr)
  then show ?case by simp
next
  case (2 ord c rest cr)
  obtain m where m: "ResizeVectorAndSet None (ordinalToObjectMap cr) ord c = Some m"
    "register_constructors rest (cr\<lparr>ordinalToObjectMap := m\<rparr>) = Some cr'"
    using "2.prems" by (auto simp: RegisterConstructor_def split: bind_splits)
  have "RegisterConstructor ord c cr = Some (cr\<lparr>ordinalToObjectMap := m\<rparr>)"
    using m(1) by (simp add: RegisterConstructor_def)
  from "2.IH" [OF this m(2)] show ?case using m(1) by simp
qed

text \<open>A packet id that a version's registry maps to an ordinal is constructed by the constructor registered for
  that ordinal, whichever other constructors were registered, on the version and buffer given.\<close>

lemma registered_constructor_runs:
  assumes "RegisterVersion p a vr = Some vr'" and "regs a = Some r"
    and "Registry_GetOrdinalByID r pid = SuccessErrorable ord"
    and "register_constructors kcs \<lparr>constructor_versions = vr', ordinalToObjectMap = []\<rparr> = Some cr"
    and "distinct (map fst kcs)" and "(ord, Some c) \<in> set kcs"
  shows "GetObjectByID regs cr p pid s = c p s"
proof -
  note st = register_constructors_stores [OF assms(4)]
  have "load_at (unat ord) (ordinalToObjectMap cr) = Some (Some c)"
    using ordinal_vector.store_all_hit [OF _ assms(5,6)] st by auto
  then have "unat ord < length (ordinalToObjectMap cr)" "ordinalToObjectMap cr ! unat ord = Some c"
    by simp_all
  moreover have "registry_for regs vr' p = Some r"
    using registry_for_RegisterVersion [OF assms(1)] assms(2) by simp
  ultimately show ?thesis
    using assms(3) st by (auto simp: GetObjectByID_def Versioned_GetOrdinalByID_def)
qed

lemma sample_registered:
  "\<exists>vr vr'. VersionedRegistry_new sample_pv sample_versions = Some vr \<and>
     RegisterVersion (AddrOf (ProtocolVersion_new 0 47 ''1.8'')) a vr = Some vr'"
proof -
  obtain vr where vr: "VersionedRegistry_new sample_pv sample_versions = Some vr" using sample_registry ..
  note v = VersionToOrdinal_new [OF vr]
  have bp: "breakpoints_upto sample_versions 0 = 1" "breakpoints_upto sample_versions 1 = 2"
    by (simp_all add: breakpoints_upto_def sample_versions_def ProtocolVersion_new_def)
  have "VersionToOrdinal vr (AddrOf (maximumVersion sample_pv)) = Some 2"
    using v bp by (simp add: effective_ordinal_def sample_pv_simps)
  then have "length (versionRegistry vr) = 3" using VersionedRegistry_new_spec(5) [OF vr] by simp
  moreover have "VersionToOrdinal vr (AddrOf (ProtocolVersion_new 0 47 ''1.8'')) = Some 1"
    using v bp by (simp add: effective_ordinal_def sample_pv_simps ProtocolVersion_new_def)
  ultimately show ?thesis using vr by (simp add: RegisterVersion_def store_at_def)
qed

lemma registered_constructor_runs_witness:
  "\<exists>regs cr (c :: (unit, nat) ctor). GetObjectByID regs cr (AddrOf (ProtocolVersion_new 0 47 ''1.8'')) 0 () = c AddrUnknown ()
     \<and> c AddrUnknown () = Some (SuccessErrorable (HeapPtr 5), ())"
proof -
  let ?c = "CreateConstructor (\<lambda>_ s. Some (5 :: nat, s)) :: (unit, nat) ctor"
  obtain r where r: "register_each [3] VersionRegistry_default = Some r"
    "Registry_GetOrdinalByID r (of_nat 0) = SuccessErrorable ([3] ! 0)"
    using register_each_total [of "[3]"] registered_lookups(1) [of "[3]" _ 0] by auto
  obtain vr vr' where vr: "RegisterVersion (AddrOf (ProtocolVersion_new 0 47 ''1.8'')) 0 vr = Some vr'"
    using sample_registered by blast
  obtain m where m: "ResizeVectorAndSet None [] 3 (Some ?c) = Some m"
    using ResizeVectorAndSet_total [of 3] by fastforce
  have "GetObjectByID [0 \<mapsto> r] \<lparr>constructor_versions = vr', ordinalToObjectMap = m\<rparr>
      (AddrOf (ProtocolVersion_new 0 47 ''1.8'')) 0 () = ?c (AddrOf (ProtocolVersion_new 0 47 ''1.8'')) ()"
    using r(2) m
    by (intro registered_constructor_runs [OF vr, of _ r _ 3 "[(3, Some ?c)]"]) (simp_all add: RegisterConstructor_def)
  then show ?thesis by (intro exI [of _ "[0 \<mapsto> r]"] exI [of _ "\<lparr>constructor_versions = vr', ordinalToObjectMap = m\<rparr>"]
      exI [of _ ?c]) (simp add: CreateConstructor_def)
qed

text \<open>A constructor made by \<open>WrapConstructor\<close> never delivers an object: on failure it returns the null pointer with
  an error, and on success the address of its own local variable.\<close>

lemma wrapped_constructor_dangles:
  assumes "instantiate version s = Some (e, s1)"
  shows "\<exists>r. WrapConstructor instantiate version s = Some (r, s1) \<and>
    (if IsSuccess e then r = SuccessErrorable DanglingPtr
     else \<not> IsSuccess r \<and> GetValue r = (NullPtr :: 'o obj_ptr))"
  using assms by (simp add: WrapConstructor_def ProceedErrorable_def)

lemma wrapped_constructor_dangles_witness:
  "WrapConstructor (\<lambda>_ s. Some (SuccessErrorable (7 :: nat), s)) AddrUnknown () = Some (SuccessErrorable DanglingPtr, ())"
  using wrapped_constructor_dangles [of "\<lambda>_ s. Some (SuccessErrorable (7 :: nat), s)" AddrUnknown "()"
    "SuccessErrorable 7" "()"] by simp

text \<open>C33.  \<open>EnumRegistry\<close> translates to the id of a version and back: for values whose ordinals were registered one after the
  other in the registry of that version, \<open>GetID\<close> gives the position and \<open>GetValue\<close> inverts it.\<close>

theorem enum_roundtrip:
  assumes "distinct (map uncast vals)" and "length vals < 2 ^ 31" and "\<forall>v \<in> set vals. unat (uncast v) < 2 ^ 32 - 8"
    and "\<forall>v \<in> set vals. cast (uncast v) = v"
    and "register_each (map uncast vals) VersionRegistry_default = Some r"
    and "RegisterVersion p a vr = Some vr'" and "regs a = Some r" and "i < length vals"
  shows "Enum_GetID uncast regs vr' p (vals ! i) = Some (SuccessErrorable (of_nat i)) \<and>
    Enum_GetValue cast dflt regs vr' p (of_nat i) = Some (SuccessErrorable (vals ! i))"
proof -
  have "registry_for regs vr' p = Some r"
    using registry_for_RegisterVersion [OF assms(6)] assms(7) by simp
  moreover have "Registry_GetOrdinalByID r (of_nat i) = SuccessErrorable (uncast (vals ! i))"
    "Registry_GetIDByOrdinal r (uncast (vals ! i)) = SuccessErrorable (of_nat i)"
    using registered_lookups [of "map uncast vals" r i] assms(1-3,5,8) by simp_all
  ultimately show ?thesis
    using assms(4,8)
    by (simp add: Enum_GetID_def Enum_GetValue_def Versioned_GetIDByOrdinal_def Versioned_GetOrdinalByID_def)
qed

theorem enum_roundtrip_witness:
  "\<exists>regs vr'. Enum_GetID (\<lambda>n :: nat. of_nat n) regs vr' (AddrOf (ProtocolVersion_new 0 47 ''1.8'')) 9 = Some (SuccessErrorable 1) \<and>
     Enum_GetValue unat 0 regs vr' (AddrOf (ProtocolVersion_new 0 47 ''1.8'')) 1 = Some (SuccessErrorable 9)"
proof -
  obtain r where r: "register_each [4, 9] VersionRegistry_default = Some r"
    using register_each_total [of "[4, 9]"] by auto
  obtain vr vr' where vr: "RegisterVersion (AddrOf (ProtocolVersion_new 0 47 ''1.8'')) 0 vr = Some vr'"
    using sample_registered by blast
  have "Enum_GetID (\<lambda>n :: nat. of_nat n) [0 \<mapsto> r] vr' (AddrOf (ProtocolVersion_new 0 47 ''1.8'')) ([4, 9] ! 1) = Some (SuccessErrorable (of_nat 1)) \<and>
     Enum_GetValue unat 0 [0 \<mapsto> r] vr' (AddrOf (ProtocolVersion_new 0 47 ''1.8'')) (of_nat 1) = Some (SuccessErrorable ([4, 9] ! 1))"
    using r by (intro enum_roundtrip [OF _ _ _ _ _ vr, of _ _ _ r]) simp_all
  then show ?thesis by auto
qed

end
