(* ===== verification/Ship_Packets.thy ===== *)
theory Ship_Packets
  imports Ship_VersionedRegistry
begin

text \<open>
  Packets and their handlers (\<open>protocol/packet/Packet.hpp\<close>, \<open>protocol/handler/PacketHandler.cpp\<close>).  The callbacks are a
  static vector of vectors, indexed by the ordinal of the handler class and the ordinal of the packet.  A callback is a
  function on a packet and the state \<open>'s\<close> of whatever it works on; an empty \<open>std::function\<close> is \<open>None\<close>.  An
  index beyond a vector (\<open>operator[]\<close>) has no result.
\<close>

section \<open>Packets\<close>

record packet_holder =
  holder_ordinal :: u32
  holder_version :: "version_ptr option"
  currentBuffer :: nat
  expectedSize :: u32

text \<open>
  \<open>currentBuffer\<close> is the address of a buffer, which is part of the state \<open>'s\<close> the callbacks change.  The
  null pointers of \<open>PacketHolder {}\<close> are the version \<open>None\<close> and the address 0.
\<close>

definition PacketHolder_default :: packet_holder where
  "PacketHolder_default =
     \<lparr>holder_ordinal = 0, holder_version = None, currentBuffer = 0, expectedSize = 0\<rparr>"

definition PacketHolder_new :: "u32 \<Rightarrow> version_ptr option \<Rightarrow> nat \<Rightarrow> u32 \<Rightarrow> packet_holder" where
  "PacketHolder_new ord version buffer expected =
     \<lparr>holder_ordinal = ord, holder_version = version, currentBuffer = buffer, expectedSize = expected\<rparr>"

definition Holder_GetOrdinal :: "packet_holder \<Rightarrow> u32" where
  "Holder_GetOrdinal h = holder_ordinal h"

definition Holder_GetVersion :: "packet_holder \<Rightarrow> version_ptr option" where
  "Holder_GetVersion h = holder_version h"

definition Holder_GetCurrentBuffer :: "packet_holder \<Rightarrow> nat" where
  "Holder_GetCurrentBuffer h = currentBuffer h"

definition Holder_GetExpectedSize :: "packet_holder \<Rightarrow> u32" where
  "Holder_GetExpectedSize h = expectedSize h"

definition SupportsOn :: "version_ptr \<Rightarrow> bool" where
  "SupportsOn version \<longleftrightarrow> True"

section \<open>Callbacks\<close>

text \<open>The first argument of a callback is the handler, by its address; the connection is part of \<open>'s\<close>.\<close>

type_synonym 's callback = "nat \<Rightarrow> packet_holder \<Rightarrow> 's \<Rightarrow> (bool errorable \<times> 's) option"
type_synonym 's callbacks = "'s callback option list list"

definition Handle :: "'s callbacks \<Rightarrow> u32 \<Rightarrow> nat \<Rightarrow> packet_holder \<Rightarrow> 's \<Rightarrow> (bool errorable \<times> 's) option" where
  "Handle callbacks own handler packet s =
     (if unat own \<ge> length callbacks then Some (SuccessErrorable False, s)
      else let localCallbacks = callbacks ! unat own; ord = Holder_GetOrdinal packet in
           if unat ord \<ge> length localCallbacks then Some (SuccessErrorable False, s)
           else (case localCallbacks ! unat ord of
                   Some callback \<Rightarrow> callback handler packet s
                 | None \<Rightarrow> Some (SuccessErrorable False, s)))"

text \<open>The test of \<open>HasCallback\<close> is the wrong way round.\<close>

definition HasCallback :: "'s callbacks \<Rightarrow> u32 \<Rightarrow> u32 \<Rightarrow> bool option" where
  "HasCallback callbacks own ord =
     (if length callbacks \<ge> unat own then Some False
      else do { localCallbacks \<leftarrow> load_at (unat own) callbacks;
                Some (unat ord < length localCallbacks \<and> localCallbacks ! unat ord \<noteq> None) })"

definition SetPointerCallback ::
  "u32 \<Rightarrow> u32 \<Rightarrow> 's callback option \<Rightarrow> 's callbacks \<Rightarrow> 's callbacks option" where
  "SetPointerCallback handler_ordinal packet_ordinal callback callbacks =
     (let callbacks1 = (if length callbacks \<ge> unat handler_ordinal
                        then resize_vector [] (unat (handler_ordinal + 8)) callbacks else callbacks)
      in do { localCallbacks \<leftarrow> load_at (unat handler_ordinal) callbacks1;
              local1 \<leftarrow> ResizeVectorAndSet None localCallbacks packet_ordinal callback;
              Some (callbacks1[unat handler_ordinal := local1]) })"

section \<open>Typed callbacks\<close>

text \<open>
  The lambda of \<open>SetPacketCallback\<close>: read the packet, check that exactly the announced number of bytes was taken from
  the buffer, call the handler.  The number of readable bytes before is kept as \<open>uint32_t\<close>, the difference is
  one of \<open>size_t\<close>.
\<close>

definition packet_callback ::
  "(nat \<Rightarrow> 's \<Rightarrow> nat) \<Rightarrow> (packet_holder \<Rightarrow> 's \<Rightarrow> ('p errorable \<times> 's) option) \<Rightarrow>
   (nat \<Rightarrow> 'p \<Rightarrow> 's \<Rightarrow> (bool errorable \<times> 's) option) \<Rightarrow> 's callback" where
  "packet_callback avail instantiate callback handler holder s =
     (let buffer = Holder_GetCurrentBuffer holder; oldReadableBytes = (of_nat (avail buffer s) :: u32) in
      do { (pkt, s1) \<leftarrow> instantiate holder s;
           if \<not> IsSuccess pkt
           then Some (InvalidArgumentErrorable CanNotReadPacket_T False (ucast (Holder_GetExpectedSize holder)), s1)
           else if sz_sub (unat oldReadableBytes) (avail buffer s1) \<noteq> unat (Holder_GetExpectedSize holder)
           then Some (InvalidArgumentErrorable InvalidPacketSize_T False (ucast (Holder_GetExpectedSize holder)), s1)
           else callback handler (GetValue pkt) s1 })"

text \<open>\<open>SetUnsafePacketCallback\<close>: the packet is constructed without an errorable.\<close>

definition unsafe_packet_callback ::
  "(nat \<Rightarrow> 's \<Rightarrow> nat) \<Rightarrow> (packet_holder \<Rightarrow> 's \<Rightarrow> ('p \<times> 's) option) \<Rightarrow>
   (nat \<Rightarrow> 'p \<Rightarrow> 's \<Rightarrow> (bool errorable \<times> 's) option) \<Rightarrow> 's callback" where
  "unsafe_packet_callback avail make_packet callback handler holder s =
     (let buffer = Holder_GetCurrentBuffer holder; oldReadableBytes = (of_nat (avail buffer s) :: u32) in
      do { (pkt, s1) \<leftarrow> make_packet holder s;
           if sz_sub (unat oldReadableBytes) (avail buffer s1) \<noteq> unat (Holder_GetExpectedSize holder)
           then Some (InvalidArgumentErrorable InvalidPacketSize_T False (ucast (Holder_GetExpectedSize holder)), s1)
           else callback handler pkt s1 })"

section \<open>Properties\<close>

text \<open>\<open>HasCallback\<close> never answers yes: it answers no while the vector reaches the handler's ordinal, and is undefined
  otherwise.\<close>

lemma has_callback_never_true:
  "HasCallback callbacks own ord = (if unat own \<le> length callbacks then Some False else None)"
  by (simp add: HasCallback_def load_at_def)

lemma SetPointerCallback_cases:
  "SetPointerCallback h p cb cbs =
    (if unat h \<le> length cbs \<and> unat h < 2 ^ 32 - 8
     then map_option (\<lambda>l. (resize_vector [] (unat h + 8) cbs)[unat h := l])
            (ResizeVectorAndSet None (if unat h < length cbs then cbs ! unat h else []) p cb)
     else None)"
proof (cases "unat h \<le> length cbs \<and> unat h < 2 ^ 32 - 8")
  case True
  then have "unat (h + 8) = unat h + 8" by (simp add: unat_plus_8)
  then show ?thesis using True
    by (simp add: SetPointerCallback_def load_at_def nth_resize_vector map_conv_bind_option comp_def)
next
  case False
  have "unat h < 2 ^ 32" using unat_bounds(3) [of h] by simp
  then show ?thesis using False
    by (auto simp: SetPointerCallback_def load_at_def unat_plus_8 Let_def)
qed

text \<open>\<open>SetPointerCallback\<close> is undefined for a handler whose ordinal is beyond the vector: the resize
  it needs is made only when it is not needed, so that a first handler with an ordinal other than 0 cannot be registered.\<close>

lemma set_callback_beyond_undefined:
  assumes "length cbs < unat h"
  shows "SetPointerCallback h p cb cbs = None"
  using assms by (simp add: SetPointerCallback_cases)

lemma set_callback_beyond_undefined_witness:
  "SetPointerCallback 1 0 (Some (\<lambda>_ _ s. Some (SuccessErrorable True, s))) ([] :: unit callbacks) = None"
  by (rule set_callback_beyond_undefined) simp

text \<open>C20.  Otherwise the callback is found by \<open>Handle\<close> for its handler and packet, other handlers below the
  new size keep theirs, and every callback of a handler whose ordinal is at least 8 larger is lost.\<close>

theorem set_callback_then_handle:
  assumes "unat h \<le> length cbs" and "unat h < 2 ^ 32 - 8" and "unat p < 2 ^ 32 - 8"
    and "Holder_GetOrdinal packet = p"
  shows "\<exists>cbs'. SetPointerCallback h p (Some cb) cbs = Some cbs' \<and>
    Handle cbs' h handler packet s = cb handler packet s \<and>
    (\<forall>h' q. h' \<noteq> h \<and> unat h' < unat h + 8 \<longrightarrow> Handle cbs' h' handler q s = Handle cbs h' handler q s) \<and>
    (\<forall>h' q. unat h + 8 \<le> unat h' \<longrightarrow> Handle cbs' h' handler q s = Some (SuccessErrorable False, s))"
proof -
  let ?l = "if unat h < length cbs then cbs ! unat h else []"
  obtain l where l: "ResizeVectorAndSet None ?l p (Some cb) = Some l"
    using ResizeVectorAndSet_total [OF assms(3)] by fastforce
  let ?cbs' = "(resize_vector [] (unat h + 8) cbs)[unat h := l]"
  have set: "SetPointerCallback h p (Some cb) cbs = Some ?cbs'"
    using assms(1,2) l by (simp add: SetPointerCallback_cases)
  have own: "Handle ?cbs' h handler packet s = cb handler packet s"
    using ResizeVectorAndSet_Some(1,2) [OF l] assms(4) by (simp add: Handle_def)
  have "Handle ?cbs' h' handler q s = Handle cbs h' handler q s" if h': "h' \<noteq> h" "unat h' < unat h + 8" for h' q
  proof -
    have "unat h' \<noteq> unat h" using h'(1) by (simp add: word_unat_eq_iff)
    then have "?cbs' ! unat h' = (if unat h' < length cbs then cbs ! unat h' else [])"
      using h'(2) by (simp add: nth_resize_vector)
    then show ?thesis using h'(2) by (simp add: Handle_def Let_def)
  qed
  moreover have "Handle ?cbs' h' handler q s = Some (SuccessErrorable False, s)" if "unat h + 8 \<le> unat h'" for h' q
    using that by (simp add: Handle_def)
  ultimately show ?thesis using set own by blast
qed

theorem set_callback_then_handle_witness:
  "\<exists>cbs'. SetPointerCallback 0 2 (Some (\<lambda>_ _ s. Some (SuccessErrorable True, s + 1))) [] = Some cbs' \<and>
     Handle cbs' 0 1 (PacketHolder_new 2 None 0 4) (0 :: nat) = Some (SuccessErrorable True, 1)"
  using set_callback_then_handle [of 0 "[]" 2 "PacketHolder_new 2 None 0 4" "\<lambda>_ _ s. Some (SuccessErrorable True, s + 1)" 1 "0 :: nat"]
  by (auto simp: PacketHolder_new_def Holder_GetOrdinal_def)

text \<open>A typed callback hands the packet to its handler exactly when the packet was read without an error and took
  exactly the announced number of bytes from the buffer; otherwise it reports which of the two failed.\<close>

lemma packet_callback_checks_size:
  assumes "instantiate holder s = Some (pkt, s1)" and "avail (currentBuffer holder) s < 2 ^ 32" and "avail (currentBuffer holder) s1 \<le> avail (currentBuffer holder) s"
  shows "packet_callback avail instantiate callback handler holder s =
    (if \<not> IsSuccess pkt then Some (InvalidArgumentErrorable CanNotReadPacket_T False (ucast (expectedSize holder)), s1)
     else if avail (currentBuffer holder) s = avail (currentBuffer holder) s1 + unat (expectedSize holder) then callback handler (GetValue pkt) s1
     else Some (InvalidArgumentErrorable InvalidPacketSize_T False (ucast (expectedSize holder)), s1))"
proof -
  let ?b = "currentBuffer holder"
  have "unat (of_nat (avail ?b s) :: u32) = avail ?b s"
    using assms(2) by (rule u32_nat)
  moreover have "avail ?b s < size_max" using assms(2) by (simp add: size_max_def)
  ultimately have "sz_sub (unat (of_nat (avail ?b s) :: u32)) (avail ?b s1) = avail ?b s - avail ?b s1"
    using assms(3) by simp
  then show ?thesis
    using assms(1,3) by (auto simp: packet_callback_def Let_def Holder_GetExpectedSize_def Holder_GetCurrentBuffer_def)
qed

lemma packet_callback_checks_size_witness:
  "packet_callback (\<lambda>_. length) (\<lambda>_ s. Some (SuccessErrorable (hd s), tl s)) (\<lambda>_ p s. Some (SuccessErrorable (p = 7), s)) 1
     (PacketHolder_new 0 None 0 1) [7, 8 :: nat] = Some (SuccessErrorable True, [8])"
  using packet_callback_checks_size [of "\<lambda>_ s. Some (SuccessErrorable (hd s), tl s)" "PacketHolder_new 0 None 0 1"
      "[7, 8 :: nat]" "SuccessErrorable 7" "[8]" "\<lambda>_. length" "\<lambda>_ p s. Some (SuccessErrorable (p = 7), s)" 1]
  by (simp add: PacketHolder_new_def)

end
