(* ===== verification/Ship_World.thy ===== *)
theory Ship_World
  imports Ship_Impl_Frame
begin

text \<open>
  The objects the network part shares: buffers are reached through pointers, so they live in a store of
  their own beside the store of pages.  \<open>outside\<close> is everything the classes outside the library keep (their pipes, the
  kernel's side of the sockets); \<open>errno\<close> is the thread's error number.  The address 0 is the null pointer.
\<close>

record 'x world =
  mem :: memory
  next_object :: nat
  byte_buffers :: "nat \<rightharpoonup> byte_buffer_impl"
  connectionWriteBuffer :: nat
  errno :: int
  outside :: 'x

definition new_buffer :: "nat \<Rightarrow> 'x world \<Rightarrow> nat \<times> 'x world" where
  "new_buffer cap w =
     (case ByteBufferImpl_new cap (mem w) of (m, b) \<Rightarrow>
        (next_object w, w\<lparr>mem := m, next_object := next_object w + 1,
                          byte_buffers := (byte_buffers w)(next_object w \<mapsto> b)\<rparr>))"

text \<open>\<open>delete\<close>: nothing for the null pointer, otherwise the destructor releases the pages.\<close>

definition delete_buffer :: "nat \<Rightarrow> 'x world \<Rightarrow> 'x world option" where
  "delete_buffer a w =
     (if a = 0 then Some w
      else do { b \<leftarrow> byte_buffers w a;
                (m, _) \<leftarrow> Impl_Release (mem w, b);
                Some (w\<lparr>mem := m, byte_buffers := (byte_buffers w)(a := None)\<rparr>) })"

text \<open>A method of the buffer at an address.\<close>

definition with_buffer :: "nat \<Rightarrow> (bb_state \<Rightarrow> ('a \<times> bb_state) option) \<Rightarrow> 'x world \<Rightarrow> ('a \<times> 'x world) option" where
  "with_buffer a f w =
     do { b \<leftarrow> byte_buffers w a;
          (r, (m, b1)) \<leftarrow> f (mem w, b);
          Some (r, w\<lparr>mem := m, byte_buffers := (byte_buffers w)(a \<mapsto> b1)\<rparr>) }"

definition update_buffer :: "nat \<Rightarrow> (bb_state \<Rightarrow> bb_state option) \<Rightarrow> 'x world \<Rightarrow> 'x world option" where
  "update_buffer a f w =
     do { b \<leftarrow> byte_buffers w a;
          (m, b1) \<leftarrow> f (mem w, b);
          Some (w\<lparr>mem := m, byte_buffers := (byte_buffers w)(a \<mapsto> b1)\<rparr>) }"

definition GetReadableBytes_at :: "nat \<Rightarrow> 'x world \<Rightarrow> nat" where
  "GetReadableBytes_at a w = (case byte_buffers w a of Some b \<Rightarrow> Impl_GetReadableBytes (mem w, b) | None \<Rightarrow> 0)"

definition ReadByteUnsafe_at :: "nat \<Rightarrow> 'x world \<Rightarrow> (u8 \<times> 'x world) option" where
  "ReadByteUnsafe_at a = with_buffer a Impl_ReadByteUnsafe"

definition WriteBytes_at :: "nat \<Rightarrow> u8 list \<Rightarrow> nat \<Rightarrow> 'x world \<Rightarrow> 'x world option" where
  "WriteBytes_at a input sz = update_buffer a (Impl_WriteBytes input sz)"

text \<open>
  \<open>WriteBytes(ByteBuffer*, size)\<close> of the buffer at \<open>a\<close>, with the one at \<open>from\<close> as input.  A connection calls it on its own
  writer buffer, which it hands to nobody, so a buffer written to itself is left without a result.
\<close>

definition WriteBytes_from :: "nat \<Rightarrow> nat \<Rightarrow> nat \<Rightarrow> 'x world \<Rightarrow> 'x world option" where
  "WriteBytes_from a from sz w =
     do { self \<leftarrow> byte_buffers w a;
          input \<leftarrow> byte_buffers w from;
          if a = from then None
          else do { (m, self1, input1) \<leftarrow> Impl_WriteBytes_buffer sz (mem w, self, input);
                    Some (w\<lparr>mem := m, byte_buffers := (byte_buffers w)(a \<mapsto> self1, from \<mapsto> input1)\<rparr>) } }"

section \<open>A buffer of the world as a source and a sink\<close>

definition live :: "nat \<Rightarrow> 'x world \<Rightarrow> bool" where
  "live a w \<longleftrightarrow> (\<exists>b. byte_buffers w a = Some b \<and> bb_ok (mem w, b))"

definition contents_at :: "nat \<Rightarrow> 'x world \<Rightarrow> u8 list" where
  "contents_at a w = (case byte_buffers w a of Some b \<Rightarrow> bb_contents (mem w, b) | None \<Rightarrow> [])"

lemma with_buffer_gives:
  assumes "live a w" and "\<And>b. byte_buffers w a = Some b \<Longrightarrow> gives bb_ok bb_contents (f (mem w, b)) v rest"
  shows "gives (live a) (contents_at a) (with_buffer a f w) v rest"
  using assms by (fastforce simp: live_def gives_def with_buffer_def contents_at_def)

lemma update_buffer_holds:
  assumes "live a w" and "\<And>b. byte_buffers w a = Some b \<Longrightarrow> holds bb_ok bb_contents (f (mem w, b)) bs"
  shows "holds (live a) (contents_at a) (update_buffer a f w) bs"
  using assms by (fastforce simp: live_def holds_def update_buffer_def contents_at_def)

interpretation at: byte_source "ReadByteUnsafe_at a" "GetReadableBytes_at a" "contents_at a" "live a" for a
proof
  show "GetReadableBytes_at a s = length (contents_at a s)" if "live a s" for s :: "'x world"
    using that impl.avail_law by (auto simp: live_def GetReadableBytes_at_def contents_at_def)
  show "gives (live a) (contents_at a) (ReadByteUnsafe_at a s) b bs"
    if "live a s" "contents_at a s = b # bs" for s :: "'x world" and b bs
    unfolding ReadByteUnsafe_at_def
    using that by (intro with_buffer_gives impl.get_law) (auto simp: live_def contents_at_def)
qed

lemma WriteBytes_at_law:
  assumes "live a w" and "length (contents_at a w) + length bs < alloc_max"
  shows "holds (live a) (contents_at a) (WriteBytes_at a bs (length bs) w) (contents_at a w @ bs)"
  unfolding WriteBytes_at_def
proof (rule update_buffer_holds [OF assms(1)])
  fix b assume b: "byte_buffers w a = Some b"
  then have "bb_ok (mem w, b)" "contents_at a w = bb_contents (mem w, b)"
    using assms(1) by (auto simp: live_def contents_at_def)
  then show "holds bb_ok bb_contents (Impl_WriteBytes bs (length bs) (mem w, b)) (contents_at a w @ bs)"
    using Impl_WriteBytes_ok assms(2) by simp
qed

text \<open>What an operation on the buffer at \<open>a\<close> leaves alone.\<close>

definition same_outside :: "'x world \<Rightarrow> 'x world \<Rightarrow> bool" where
  "same_outside w w' \<longleftrightarrow> outside w' = outside w \<and> errno w' = errno w \<and>
     connectionWriteBuffer w' = connectionWriteBuffer w \<and> next_object w' = next_object w"

lemma same_outside_refl [simp]: "same_outside w w"
  by (simp add: same_outside_def)

lemma WriteBytes_at_outside: "WriteBytes_at a bs n w = Some w' \<Longrightarrow> same_outside w w'"
  by (auto simp: WriteBytes_at_def update_buffer_def same_outside_def split: bind_splits)

text \<open>A world with one buffer.\<close>

definition world0 :: "'x \<Rightarrow> 'x world" where
  "world0 x = snd (new_buffer 4 \<lparr>mem = mem0, next_object = 1, byte_buffers = Map.empty, connectionWriteBuffer = 0,
     errno = 0, outside = x\<rparr>)"

lemma world0_simps:
  "live 1 (world0 x)" "contents_at 1 (world0 x) = []" "outside (world0 x) = x"
proof -
  have "bb_ok (ByteBufferImpl_new 4 mem0)" "bb_contents (ByteBufferImpl_new 4 mem0) = []"
    by (rule ByteBufferImpl_new_ok; simp add: alloc_max_def)+
  then show "live 1 (world0 x)" "contents_at 1 (world0 x) = []" "outside (world0 x) = x"
    by (auto simp: world0_def new_buffer_def live_def contents_at_def split: prod.splits)
qed

end
