(* ===== verification/Ship_Pipes.thy ===== *)
theory Ship_Pipes
  imports Ship_Packets Ship_World
begin

text \<open>
  The framed pipes (\<open>network/pipe\<close>): a frame is a \<open>VarInt\<close> length and that many bytes.  A pipe keeps the length
  it has read until the frame has arrived.  \<open>DecodeFrame\<close>, \<open>EncodeFrame\<close> and \<open>ReadPacket\<close> are virtual: they
  are arguments, on a state \<open>'s\<close> that holds the input buffer and whatever else they change; \<open>rb\<close> and \<open>avail\<close> are the buffer's
  \<open>ReadByteUnsafe\<close> and \<open>GetReadableBytes\<close>.
\<close>

section \<open>ByteBytePipe and BytePacketPipe\<close>

record byte_byte_pipe =
  pipeReaderBuffer :: nat
  pipeWriterBuffer :: nat

definition ByteBytePipe_new :: "nat \<Rightarrow> nat \<Rightarrow> 'x world \<Rightarrow> byte_byte_pipe \<times> 'x world" where
  "ByteBytePipe_new reader_buffer_length writer_buffer_length w =
     (let (r, w1) = new_buffer reader_buffer_length w; (wr, w2) = new_buffer writer_buffer_length w1
      in (\<lparr>pipeReaderBuffer = r, pipeWriterBuffer = wr\<rparr>, w2))"

definition ByteBytePipe_of :: "nat \<Rightarrow> nat \<Rightarrow> byte_byte_pipe" where
  "ByteBytePipe_of reader_buffer writer_buffer =
     \<lparr>pipeReaderBuffer = reader_buffer, pipeWriterBuffer = writer_buffer\<rparr>"

definition ByteBytePipe_delete :: "byte_byte_pipe \<Rightarrow> 'x world \<Rightarrow> 'x world option" where
  "ByteBytePipe_delete p w =
     do { w1 \<leftarrow> delete_buffer (pipeReaderBuffer p) w; delete_buffer (pipeWriterBuffer p) w1 }"

definition GetReaderBuffer :: "byte_byte_pipe \<Rightarrow> nat" where
  "GetReaderBuffer p = pipeReaderBuffer p"

definition GetWriterBuffer :: "byte_byte_pipe \<Rightarrow> nat" where
  "GetWriterBuffer p = pipeWriterBuffer p"

text \<open>The methods of the base class do nothing.\<close>

definition ByteBytePipe_Read :: "'s \<Rightarrow> (nat errorable \<times> 's) option" where
  "ByteBytePipe_Read s = Some (SuccessErrorable 0, s)"

definition ByteBytePipe_Write :: "'s \<Rightarrow> (nat errorable \<times> 's) option" where
  "ByteBytePipe_Write s = Some (SuccessErrorable 0, s)"

section \<open>FramedByteBytePipe\<close>

record framed_byte_byte_pipe = byte_byte_pipe +
  nextReadFrameLength :: u32
  nextWriteFrameLength :: u32
  maxReadSize :: u32

definition FramedByteBytePipe_new :: "nat \<Rightarrow> nat \<Rightarrow> u32 \<Rightarrow> 'x world \<Rightarrow> framed_byte_byte_pipe \<times> 'x world" where
  "FramedByteBytePipe_new reader_buffer_length writer_buffer_length max_read_size w =
     (let (p, w1) = ByteBytePipe_new reader_buffer_length writer_buffer_length w
      in (byte_byte_pipe.extend p
            \<lparr>nextReadFrameLength = 0, nextWriteFrameLength = 0, maxReadSize = max_read_size\<rparr>, w1))"

text \<open>
  A method is the statement that reads the length, which may return (\<open>Inl\<close>), and the statement that waits for
  the frame.
\<close>

definition FramedByte_Write ::
  "('s \<Rightarrow> (u8 \<times> 's) option) \<Rightarrow> ('s \<Rightarrow> nat) \<Rightarrow> (u32 \<Rightarrow> 's \<Rightarrow> (nat errorable \<times> 's) option) \<Rightarrow>
   framed_byte_byte_pipe \<Rightarrow> 's \<Rightarrow> (nat errorable \<times> framed_byte_byte_pipe \<times> 's) option" where
  "FramedByte_Write rb avail EncodeFrame p s =
     (let readable = avail s in
      do { (returned, p1, s1) \<leftarrow>
             (if nextWriteFrameLength p = 0
              then if readable = 0
                   then Some (Some (InvalidArgumentErrorable IncompleteByteFrame_T 0 (of_nat readable)), p, s)
                   else do { (e, s1) \<leftarrow> ReadVarInt rb avail s;
                             let frameLength = GetValue e;
                             if IsSuccess e
                             then Some (None, p\<lparr>nextWriteFrameLength := frameLength\<rparr>, s1)
                             else if GetTypeOrdinal e = IncompleteVarInt_T
                             then Some (Some (InvalidArgumentErrorable IncompleteByteFrame_T 0 (ucast frameLength)), p, s1)
                             else Some (Some (InvalidArgumentErrorable InvalidByteFrame_T 0 (ucast frameLength)), p, s1) }
              else Some (None, p, s));
           case returned of
             Some e \<Rightarrow> Some (e, p1, s1)
           | None \<Rightarrow>
               let frameLength = nextWriteFrameLength p1 in
               if readable \<ge> unat frameLength
               then do { (e, s2) \<leftarrow> EncodeFrame frameLength s1;
                         Some (e, p1\<lparr>nextWriteFrameLength := 0\<rparr>, s2) }
               else Some (InvalidArgumentErrorable IncompleteByteFrame_T 0 (ucast frameLength), p1, s1) })"

definition FramedByte_Read ::
  "('s \<Rightarrow> (u8 \<times> 's) option) \<Rightarrow> ('s \<Rightarrow> nat) \<Rightarrow> (u32 \<Rightarrow> 's \<Rightarrow> (nat errorable \<times> 's) option) \<Rightarrow>
   framed_byte_byte_pipe \<Rightarrow> 's \<Rightarrow> (nat errorable \<times> framed_byte_byte_pipe \<times> 's) option" where
  "FramedByte_Read rb avail DecodeFrame p s =
     do { (returned, p1, s1) \<leftarrow>
            (if nextReadFrameLength p = 0
             then do { (e, s1) \<leftarrow> ReadVarInt rb avail s;
                       let frameLength = GetValue e;
                       if IsSuccess e
                       then if frameLength > maxReadSize p
                            then Some (Some (InvalidArgumentErrorable InvalidByteFrame_T 0 (ucast frameLength)), p, s1)
                            else Some (None, p\<lparr>nextReadFrameLength := frameLength\<rparr>, s1)
                       else if GetTypeOrdinal e = IncompleteVarInt_T
                       then Some (Some (InvalidArgumentErrorable IncompleteByteFrame_T 0 (ucast frameLength)), p, s1)
                       else Some (Some (InvalidArgumentErrorable InvalidByteFrame_T 0 (ucast frameLength)), p, s1) }
             else Some (None, p, s));
          case returned of
            Some e \<Rightarrow> Some (e, p1, s1)
          | None \<Rightarrow>
              let frameLength = nextReadFrameLength p1 in
              if avail s1 \<ge> unat frameLength
              then do { (e, s2) \<leftarrow> DecodeFrame frameLength s1;
                        Some (e, p1\<lparr>nextReadFrameLength := 0\<rparr>, s2) }
              else Some (InvalidArgumentErrorable IncompleteByteFrame_T 0 (ucast frameLength), p1, s1) }"

section \<open>FramedBytePacketPipe\<close>

record framed_byte_packet_pipe =
  nextPacketFrameLength :: u32
  maxPacketReadSize :: u32

definition FramedBytePacketPipe_new :: "u32 \<Rightarrow> framed_byte_packet_pipe" where
  "FramedBytePacketPipe_new max_read_size =
     \<lparr>nextPacketFrameLength = 0, maxPacketReadSize = max_read_size\<rparr>"

definition FramedPacket_Read ::
  "('s \<Rightarrow> (u8 \<times> 's) option) \<Rightarrow> ('s \<Rightarrow> nat) \<Rightarrow> (u32 \<Rightarrow> 's \<Rightarrow> (packet_holder errorable \<times> 's) option) \<Rightarrow>
   framed_byte_packet_pipe \<Rightarrow> 's \<Rightarrow> (packet_holder errorable \<times> framed_byte_packet_pipe \<times> 's) option" where
  "FramedPacket_Read rb avail ReadPacket p s =
     (let readable = avail s;
          fail = (\<lambda>cls n. InvalidArgumentErrorable cls PacketHolder_default n) in
      do { (returned, p1, s1) \<leftarrow>
             (if nextPacketFrameLength p = 0
              then if readable = 0
                   then Some (Some (fail IncompleteFrame_T (of_nat readable)), p, s)
                   else do { (e, s1) \<leftarrow> ReadVarInt rb avail s;
                             let frameLength = GetValue e;
                             if IsSuccess e
                             then if frameLength > maxPacketReadSize p
                                  then Some (Some (fail InvalidFrame_T (ucast frameLength)), p, s1)
                                  else Some (None, p\<lparr>nextPacketFrameLength := frameLength\<rparr>, s1)
                             else if GetTypeOrdinal e \<noteq> IncompleteVarInt_T
                             then Some (Some (fail InvalidFrame_T (ucast frameLength)), p, s1)
                             else Some (None, p, s1) }
              else Some (None, p, s));
           case returned of
             Some e \<Rightarrow> Some (e, p1, s1)
           | None \<Rightarrow>
               if nextPacketFrameLength p1 \<noteq> 0 \<and> readable \<ge> unat (nextPacketFrameLength p1)
               then do { (packet, s2) \<leftarrow> ReadPacket (nextPacketFrameLength p1) s1;
                         Some (packet, p1\<lparr>nextPacketFrameLength := 0\<rparr>, s2) }
               else Some (fail IncompleteFrame_T (of_nat readable), p1, s1) })"

section \<open>What a pipe does with its input\<close>

abbreviation frame_error :: "error_class \<Rightarrow> nat \<Rightarrow> packet_holder errorable" where
  "frame_error cls n \<equiv> InvalidArgumentErrorable cls PacketHolder_default (of_nat n)"

abbreviation byte_frame_error :: "error_class \<Rightarrow> u32 \<Rightarrow> nat errorable" where
  "byte_frame_error cls n \<equiv> InvalidArgumentErrorable cls 0 (ucast n)"

lemma bind_return [simp]: "m \<bind> (\<lambda>(e, s2). Some (e, q, s2)) = map_option (\<lambda>(e, s2). (e, q, s2)) m"
  by (cases m) auto

context byte_source
begin

lemma packet_frame_waiting:
  assumes "ok s" and "nextPacketFrameLength p \<noteq> 0"
  shows "FramedPacket_Read rb avail rp p s =
    (if unat (nextPacketFrameLength p) \<le> length (contents s)
     then map_option (\<lambda>(packet, s2). (packet, p\<lparr>nextPacketFrameLength := 0\<rparr>, s2)) (rp (nextPacketFrameLength p) s)
     else Some (frame_error IncompleteFrame_T (length (contents s)), p, s))"
  using assms by (simp add: FramedPacket_Read_def Let_def avail_law)

lemma packet_frame_header:
  assumes "ok s" and "nextPacketFrameLength p = 0" and "contents s = leb128 (unat n) @ part"
    and "n \<noteq> 0" and "n \<le> maxPacketReadSize p"
  shows "\<exists>s1. ok s1 \<and> contents s1 = part \<and> FramedPacket_Read rb avail rp p s =
    (if unat n \<le> length (leb128 (unat n)) + length part
     then map_option (\<lambda>(packet, s2). (packet, p\<lparr>nextPacketFrameLength := 0\<rparr>, s2)) (rp n s1)
     else Some (frame_error IncompleteFrame_T (length (leb128 (unat n)) + length part), p\<lparr>nextPacketFrameLength := n\<rparr>, s1))"
proof -
  obtain s1 where s1: "ReadVarInt rb avail s = Some (SuccessErrorable n, s1)" "ok s1" "contents s1 = part"
    using ReadVarInt_at [OF assms(1,3)] by (rule givesE)
  have "0 < avail s" "avail s = length (leb128 (unat n)) + length part"
    using assms(1,3) avail_law by simp_all
  then show ?thesis using s1 assms(2,4,5)
    by (intro exI [of _ s1]) (simp add: FramedPacket_Read_def Let_def leD)
qed

lemma byte_frame_waiting:
  assumes "ok s" and "nextReadFrameLength p \<noteq> 0"
  shows "FramedByte_Read rb avail dec p s =
    (if unat (nextReadFrameLength p) \<le> length (contents s)
     then map_option (\<lambda>(e, s2). (e, p\<lparr>nextReadFrameLength := 0\<rparr>, s2)) (dec (nextReadFrameLength p) s)
     else Some (byte_frame_error IncompleteByteFrame_T (nextReadFrameLength p), p, s))"
  using assms by (simp add: FramedByte_Read_def Let_def avail_law)

lemma byte_frame_header:
  assumes "ok s" and "nextReadFrameLength p = 0" and "contents s = leb128 (unat n) @ part"
    and "n \<le> maxReadSize p"
  shows "\<exists>s1. ok s1 \<and> contents s1 = part \<and> FramedByte_Read rb avail dec p s =
    (if unat n \<le> length part
     then map_option (\<lambda>(e, s2). (e, p\<lparr>nextReadFrameLength := 0\<rparr>, s2)) (dec n s1)
     else Some (byte_frame_error IncompleteByteFrame_T n, p\<lparr>nextReadFrameLength := n\<rparr>, s1))"
proof -
  obtain s1 where s1: "ReadVarInt rb avail s = Some (SuccessErrorable n, s1)" "ok s1" "contents s1 = part"
    using ReadVarInt_at [OF assms(1,3)] by (rule givesE)
  then show ?thesis using assms(2,4) avail_law [OF s1(2)]
    by (intro exI [of _ s1]) (simp add: FramedByte_Read_def Let_def leD)
qed

lemma oversized_frames:
  assumes "ok s" and "contents s = leb128 (unat n) @ part"
  shows "nextPacketFrameLength p = 0 \<Longrightarrow> maxPacketReadSize p < n \<Longrightarrow>
      \<exists>s1. ok s1 \<and> contents s1 = part \<and>
        FramedPacket_Read rb avail rp p s = Some (frame_error InvalidFrame_T (unat n), p, s1)"
    and "nextReadFrameLength q = 0 \<Longrightarrow> maxReadSize q < n \<Longrightarrow>
      \<exists>s1. ok s1 \<and> contents s1 = part \<and>
        FramedByte_Read rb avail dec q s = Some (byte_frame_error InvalidByteFrame_T n, q, s1)"
proof -
  obtain s1 where s1: "ReadVarInt rb avail s = Some (SuccessErrorable n, s1)" "ok s1" "contents s1 = part"
    using ReadVarInt_at [OF assms] by (rule givesE)
  have "avail s \<noteq> 0" using assms avail_law by simp
  then show "nextPacketFrameLength p = 0 \<Longrightarrow> maxPacketReadSize p < n \<Longrightarrow>
      \<exists>s1. ok s1 \<and> contents s1 = part \<and>
        FramedPacket_Read rb avail rp p s = Some (frame_error InvalidFrame_T (unat n), p, s1)"
    "nextReadFrameLength q = 0 \<Longrightarrow> maxReadSize q < n \<Longrightarrow>
      \<exists>s1. ok s1 \<and> contents s1 = part \<and>
        FramedByte_Read rb avail dec q s = Some (byte_frame_error InvalidByteFrame_T n, q, s1)"
    using s1 by (simp_all add: FramedPacket_Read_def FramedByte_Read_def Let_def)
qed

end

section \<open>Properties\<close>

abbreviation read_packet_at ::
  "nat \<Rightarrow> (u32 \<Rightarrow> 'x world \<Rightarrow> (packet_holder errorable \<times> 'x world) option) \<Rightarrow> framed_byte_packet_pipe \<Rightarrow> 'x world \<Rightarrow>
   (packet_holder errorable \<times> framed_byte_packet_pipe \<times> 'x world) option" where
  "read_packet_at a \<equiv> FramedPacket_Read (ReadByteUnsafe_at a) (GetReadableBytes_at a)"

abbreviation read_frame_at ::
  "nat \<Rightarrow> (u32 \<Rightarrow> 'x world \<Rightarrow> (nat errorable \<times> 'x world) option) \<Rightarrow> framed_byte_byte_pipe \<Rightarrow> 'x world \<Rightarrow>
   (nat errorable \<times> framed_byte_byte_pipe \<times> 'x world) option" where
  "read_frame_at a \<equiv> FramedByte_Read (ReadByteUnsafe_at a) (GetReadableBytes_at a)"

text \<open>C24.  When the length of a frame arrives, \<open>FramedBytePacketPipe::Read\<close> compares it with the number of bytes that were
  readable before the length was taken from the buffer: \<open>ReadPacket\<close> is called as soon as the header and
  the payload together are as long as the payload should be, up to the size of the header too early.\<close>

theorem packet_pipe_counts_header:
  assumes "live a w" and "nextPacketFrameLength p = 0" and "contents_at a w = leb128 (unat n) @ part"
    and "n \<noteq> 0" and "n \<le> maxPacketReadSize p"
  shows "\<exists>w1. live a w1 \<and> contents_at a w1 = part \<and> read_packet_at a rp p w =
    (if unat n \<le> length (leb128 (unat n)) + length part
     then map_option (\<lambda>(packet, w2). (packet, p\<lparr>nextPacketFrameLength := 0\<rparr>, w2)) (rp n w1)
     else Some (frame_error IncompleteFrame_T (length (leb128 (unat n)) + length part), p\<lparr>nextPacketFrameLength := n\<rparr>, w1))"
  using assms by (rule at.packet_frame_header)

lemma world0_with:
  assumes "length bs \<le> 100"
  shows "\<exists>w. WriteBytes_at 1 bs (length bs) (world0 x) = Some w \<and> live 1 w \<and> contents_at 1 w = bs"
proof -
  have "length (contents_at 1 (world0 x)) + length bs < alloc_max"
    using small_alloc [OF assms] unfolding world0_simps(2) by simp
  from WriteBytes_at_law [OF world0_simps(1) this] show ?thesis
    by (auto simp only: world0_simps(2) append.simps elim: holdsE)
qed

theorem packet_pipe_counts_header_witness:
  "\<exists>(w :: unit world) w1. contents_at 1 w = [3, 7, 8] \<and> contents_at 1 w1 = [7, 8] \<and>
     read_packet_at 1 (\<lambda>n w. Some (SuccessErrorable (PacketHolder_new 0 None 1 n), w)) (FramedBytePacketPipe_new 100) w =
     Some (SuccessErrorable (PacketHolder_new 0 None 1 3), FramedBytePacketPipe_new 100, w1)"
proof -
  obtain w :: "unit world" where w: "live 1 w" "contents_at 1 w = [3, 7, 8]" using world0_with [of "[3, 7, 8]" "()"] by fastforce
  have l: "leb128 (unat (3 :: u32)) = [3]" by code_simp
  have pre: "nextPacketFrameLength (FramedBytePacketPipe_new 100) = 0" "contents_at 1 w = leb128 (unat (3 :: u32)) @ [7, 8]"
    "(3 :: u32) \<noteq> 0" "3 \<le> maxPacketReadSize (FramedBytePacketPipe_new 100)"
    using w(2) l by (simp_all add: FramedBytePacketPipe_new_def)
  show ?thesis
    using packet_pipe_counts_header [OF w(1) pre, of "\<lambda>n w. Some (SuccessErrorable (PacketHolder_new 0 None 1 n), w)"] w(2) l
    by - (rule exI [of _ w], auto simp: FramedBytePacketPipe_new_def)
qed

text \<open>C25.  A frame header that arrives in two pieces is lost: either pipe reports an incomplete frame, has taken the
  first piece out of the buffer and remembers nothing of it.\<close>

theorem split_header_lost:
  assumes "live a w" and "contents_at a w = take k (leb128 (unat (n :: u32)))" and "0 < k" and "k < length (leb128 (unat n))"
    and "nextPacketFrameLength p = 0" and "nextReadFrameLength q = 0"
  shows "\<exists>w1. live a w1 \<and> contents_at a w1 = [] \<and>
    read_packet_at a rp p w = Some (frame_error IncompleteFrame_T k, p, w1) \<and>
    read_frame_at a dec q w = Some (byte_frame_error IncompleteByteFrame_T 0, q, w1)"
proof -
  have "parse_leb 5 IncompleteVarInt_T InvalidVarInt_T 0 0 (contents_at a w)
      = (InvalidArgumentErrorable IncompleteVarInt_T (0 :: u32) 0, [])"
    unfolding assms(2) using assms(4) length_leb128_bound(1) [of n]
    by (intro parse_leb_truncated) (auto dest: leb128_prefix_continues)
  from at.ReadVarInt_parse [OF assms(1) this] obtain w1 where w1:
    "ReadVarInt (ReadByteUnsafe_at a) (GetReadableBytes_at a) w = Some (InvalidArgumentErrorable IncompleteVarInt_T 0 0, w1)"
    "live a w1" "contents_at a w1 = []" by (rule givesE)
  have "GetReadableBytes_at a w = k" using at.avail_law [OF assms(1)] assms(2,4) by simp
  then show ?thesis using w1 assms(3,5,6)
    by (intro exI [of _ w1]) (simp add: FramedPacket_Read_def FramedByte_Read_def Let_def)
qed

theorem split_header_lost_witness:
  "\<exists>(w :: unit world) w1. contents_at 1 w = [0xAC] \<and> contents_at 1 w1 = [] \<and>
     read_packet_at 1 (\<lambda>_ _. None) (FramedBytePacketPipe_new 500) w =
       Some (frame_error IncompleteFrame_T 1, FramedBytePacketPipe_new 500, w1)"
proof -
  obtain w :: "unit world" where w: "live 1 w" "contents_at 1 w = [0xAC]" using world0_with [of "[0xAC]" "()"] by fastforce
  have l: "leb128 (unat (300 :: u32)) = [0xAC, 2]" by code_simp
  have pre: "contents_at 1 w = take 1 (leb128 (unat (300 :: u32)))" "(0 :: nat) < 1" "1 < length (leb128 (unat (300 :: u32)))"
    "nextPacketFrameLength (FramedBytePacketPipe_new 500) = 0"
    "nextReadFrameLength (fst (FramedByteBytePipe_new 4 4 500 w)) = 0"
    using w(2) l by (simp_all add: FramedBytePacketPipe_new_def FramedByteBytePipe_new_def byte_byte_pipe.extend_def split: prod.splits)
  show ?thesis
    using split_header_lost [OF w(1) pre, of "\<lambda>_ _. None" "\<lambda>_ _. None"] w(2) by auto
qed

text \<open>Pieces of the input, each followed by a \<open>Read\<close>.\<close>

fun feed_frames ::
  "nat \<Rightarrow> (u32 \<Rightarrow> 'x world \<Rightarrow> (nat errorable \<times> 'x world) option) \<Rightarrow> u8 list list \<Rightarrow> framed_byte_byte_pipe \<Rightarrow> 'x world \<Rightarrow>
   (nat errorable list \<times> framed_byte_byte_pipe \<times> 'x world) option" where
  "feed_frames a dec [] p w = Some ([], p, w)"
| "feed_frames a dec (c # cs) p w =
     do { w1 \<leftarrow> WriteBytes_at a c (length c) w;
          (e, p1, w2) \<leftarrow> read_frame_at a dec p w1;
          (es, p2, w3) \<leftarrow> feed_frames a dec cs p1 w2;
          Some (e # es, p2, w3) }"

abbreviation frame_results :: "nat \<Rightarrow> u32 \<Rightarrow> framed_byte_byte_pipe \<Rightarrow> (nat errorable \<times> 'x world) option \<Rightarrow>
    (nat errorable list \<times> framed_byte_byte_pipe \<times> 'x world) option" where
  "frame_results k n p r \<equiv> map_option (\<lambda>(e, w2).
     (replicate k (byte_frame_error IncompleteByteFrame_T n) @ [e], p\<lparr>nextReadFrameLength := 0\<rparr>, w2)) r"

lemma feed_waiting:
  assumes "live a w" and "nextReadFrameLength p = n" and "length (contents_at a w @ concat cs) = unat n"
    and "cs \<noteq> []" and "[] \<notin> set cs" and "n \<noteq> 0"
  shows "\<exists>w1. live a w1 \<and> contents_at a w1 = contents_at a w @ concat cs \<and>
    feed_frames a dec cs p w = frame_results (length cs - 1) n p (dec n w1)"
  using assms
proof (induction cs arbitrary: w)
  case Nil
  then show ?case by simp
next
  case (Cons c cs)
  have "length (contents_at a w) + length c < alloc_max"
    using Cons.prems(3) unat_bounds(3) [of n] by (simp add: alloc_max_def)
  from WriteBytes_at_law [OF Cons.prems(1) this] obtain w1 where w1:
    "WriteBytes_at a c (length c) w = Some w1" "live a w1" "contents_at a w1 = contents_at a w @ c" by (rule holdsE)
  have np: "nextReadFrameLength p \<noteq> 0" using Cons.prems(2,6) by simp
  note read = at.byte_frame_waiting [OF w1(2) np, of dec]
  show ?case
  proof (cases "cs = []")
    case True
    have "unat n = length (contents_at a w1)" using Cons.prems(3) True w1(3) by simp
    then show ?thesis using True w1 read Cons.prems(2)
      by (intro exI [of _ w1]) (cases "dec n w1", simp_all add: split: prod.splits)
  next
    case False
    then have "0 < length (concat cs)" using Cons.prems(5) by (cases cs) auto
    then have "\<not> unat n \<le> length (contents_at a w1)"
      using Cons.prems(3) unfolding w1(3) concat.simps length_append by linarith
    then have r: "read_frame_at a dec p w1 = Some (byte_frame_error IncompleteByteFrame_T n, p, w1)"
      using read Cons.prems(2) by simp
    obtain w2 where w2: "live a w2" "contents_at a w2 = contents_at a w1 @ concat cs"
      "feed_frames a dec cs p w1 = frame_results (length cs - 1) n p (dec n w2)"
      using Cons.IH [OF w1(2) Cons.prems(2) _ False _ Cons.prems(6)] Cons.prems(3,5) w1(3) by auto
    have len: "replicate (length cs) x = x # replicate (length cs - 1) x" for x :: "nat errorable"
      using False by (cases cs) simp_all
    show ?thesis using w1 r w2
      by (intro exI [of _ w2]) (cases "dec n w2", simp_all add: len split: prod.splits)
  qed
qed

text \<open>C4.  A frame whose header arrives in one piece is delivered however its payload is cut: every
  \<open>FramedByteBytePipe::Read\<close> before the last byte has come reports an incomplete frame, and the last one calls
  \<open>DecodeFrame\<close> with exactly the payload in the buffer and is ready for the next frame.\<close>

theorem fragments_are_reassembled:
  assumes "live a w" and "contents_at a w = []" and "nextReadFrameLength p = 0" and "n \<le> maxReadSize p"
    and "length (part @ concat cs) = unat n" and "[] \<notin> set cs"
  shows "\<exists>w1. live a w1 \<and> contents_at a w1 = part @ concat cs \<and>
    feed_frames a dec ((leb128 (unat n) @ part) # cs) p w = frame_results (length cs) n p (dec n w1)"
proof -
  have "length (leb128 (unat n)) \<le> 5" using length_leb128_u32 [of "unat n"] unat_bounds(3) [of n] by simp
  then have "length (contents_at a w) + length (leb128 (unat n) @ part) < alloc_max"
    using assms(2,5) unat_bounds(3) [of n] by (simp add: alloc_max_def)
  from WriteBytes_at_law [OF assms(1) this] obtain w1 where w1:
    "WriteBytes_at a (leb128 (unat n) @ part) (length (leb128 (unat n) @ part)) w = Some w1" "live a w1"
    "contents_at a w1 = leb128 (unat n) @ part" using assms(2) by (auto elim: holdsE)
  obtain w2 where w2: "live a w2" "contents_at a w2 = part" "read_frame_at a dec p w1 =
    (if unat n \<le> length part
     then map_option (\<lambda>(e, s2). (e, p\<lparr>nextReadFrameLength := 0\<rparr>, s2)) (dec n w2)
     else Some (byte_frame_error IncompleteByteFrame_T n, p\<lparr>nextReadFrameLength := n\<rparr>, w2))"
    using at.byte_frame_header [OF w1(2) assms(3) w1(3) assms(4)] by blast
  show ?thesis
  proof (cases "cs = []")
    case True
    then show ?thesis using w1 w2 assms(5)
      by (intro exI [of _ w2]) (cases "dec n w2", simp_all split: prod.splits)
  next
    case False
    then have "0 < length (concat cs)" using assms(6) by (cases cs) auto
    then have "\<not> unat n \<le> length part" using assms(5) unfolding length_append by linarith
    then have lt: "\<not> unat n \<le> length part" "n \<noteq> 0" by (auto simp: unat_eq_0)
    obtain w3 where w3: "live a w3" "contents_at a w3 = contents_at a w2 @ concat cs"
      "feed_frames a dec cs (p\<lparr>nextReadFrameLength := n\<rparr>) w2 =
       frame_results (length cs - 1) n (p\<lparr>nextReadFrameLength := n\<rparr>) (dec n w3)"
      using feed_waiting [OF w2(1), of "p\<lparr>nextReadFrameLength := n\<rparr>" n cs dec] w2(2) assms(5,6) False lt(2) by auto
    have len: "replicate (length cs) x = x # replicate (length cs - 1) x" for x :: "nat errorable"
      using False by (cases cs) simp_all
    show ?thesis using w1(1) w2 w3 lt(1)
      by (intro exI [of _ w3]) (cases "dec n w3", simp_all add: len split: prod.splits)
  qed
qed

theorem fragments_are_reassembled_witness:
  "\<exists>w1. contents_at 1 w1 = [7, 8, 9] \<and>
     feed_frames 1 (\<lambda>n w. Some (SuccessErrorable (unat n), w)) [[3, 7], [8], [9]]
       (fst (FramedByteBytePipe_new 4 4 100 (world0 ()))) (world0 ()) =
     Some ([byte_frame_error IncompleteByteFrame_T 3, byte_frame_error IncompleteByteFrame_T 3, SuccessErrorable 3],
           fst (FramedByteBytePipe_new 4 4 100 (world0 ())), w1)"
proof -
  let ?p = "fst (FramedByteBytePipe_new 4 4 100 (world0 ()))"
  have p: "nextReadFrameLength ?p = 0" "maxReadSize ?p = 100" "?p\<lparr>nextReadFrameLength := 0\<rparr> = ?p"
    by (simp_all add: FramedByteBytePipe_new_def byte_byte_pipe.extend_def split: prod.splits)
  have l: "leb128 3 = [3]" by code_simp
  have pre: "3 \<le> maxReadSize ?p" "length ([7] @ concat [[8], [9]]) = unat (3 :: u32)" "[] \<notin> set [[8], [9 :: u8]]"
    by (simp_all add: p(2))
  obtain w1 where w1: "contents_at 1 w1 = [7] @ concat [[8], [9]]"
    "feed_frames 1 (\<lambda>n w. Some (SuccessErrorable (unat n), w)) ((leb128 (unat (3 :: u32)) @ [7]) # [[8], [9]]) ?p (world0 ()) =
     frame_results (length [[8], [9 :: u8]]) 3 ?p (Some (SuccessErrorable (unat (3 :: u32)), w1))"
    using fragments_are_reassembled [OF world0_simps(1,2) p(1) pre, of "\<lambda>n w. Some (SuccessErrorable (unat n), w)" "()"]
    by blast
  have u: "unat (3 :: u32) = 3" by simp
  show ?thesis using w1 unfolding u l
    by (intro exI [of _ w1]) (simp only: option.map prod.case p(3) list.size append.simps concat.simps
        replicate.simps add_0_left add_0_right add_Suc One_nat_def plus_nat.add_Suc simp_thms)
qed

end
