(* ===== verification/Ship_Connection.thy ===== *)
theory Ship_Connection
  imports Ship_Pipes
begin

text \<open>
  \<open>Connection\<close> (\<open>network/Connection.cpp\<close>): bytes from the socket go through the pipeline to the packet pipe and its
  packets to the handlers, packets go the other way to the socket.  The objects a connection points to are
  addresses; what their virtual methods do is the argument \<open>E\<close> of the operations.  Handlers work on the connection
  and the world, pipes on the world.

  A node of \<open>std::list\<close> keeps its identity when others are inserted, and an iterator is a node.  The handlers may
  insert into the list that is being iterated over, so \<open>packetHandlers\<close> carries the number of each node; nothing is ever removed from
  it.  The pipeline is a list of addresses.
\<close>

section \<open>State\<close>

record 'x connection =
  pipeline :: "nat list"
  bytePacketPipe :: nat
  mainPacketHandler :: nat
  packetHandlers :: "(nat \<times> nat) list"
  readerBuffer :: nat
  writerBuffer :: nat
  readWriteCloser :: nat
  eventLoop :: nat
  onClose :: "('x world \<Rightarrow> 'x world option) option"

type_synonym 'x conn_state = "'x connection \<times> 'x world"

text \<open>
  The classes outside the library: the virtual methods by the address of the object, with packets of type \<open>'p\<close>.
  \<open>byte_pipe\<close> gives the two buffers of a pipe, which are set when it is made.  \<open>callback_table\<close> is the static
  table of \<open>PacketHandler\<close>.
\<close>

record ('x, 'p) classes =
  pipe_ordinal :: "nat \<Rightarrow> u32"
  byte_pipe :: "nat \<Rightarrow> byte_byte_pipe"
  pipe_read :: "nat \<Rightarrow> nat \<Rightarrow> 'x world \<Rightarrow> (nat errorable \<times> 'x world) option"
  pipe_write :: "nat \<Rightarrow> nat \<Rightarrow> 'x world \<Rightarrow> (nat errorable \<times> 'x world) option"
  packet_read :: "nat \<Rightarrow> nat \<Rightarrow> 'x world \<Rightarrow> (packet_holder errorable \<times> 'x world) option"
  packet_write :: "nat \<Rightarrow> nat \<Rightarrow> 'p \<Rightarrow> 'x world \<Rightarrow> (bool errorable \<times> 'x world) option"
  handler_ordinal :: "nat \<Rightarrow> u32"
  callback_table :: "'x conn_state callbacks"
  closer_write :: "nat \<Rightarrow> nat \<Rightarrow> 'x world \<Rightarrow> (int errorable \<times> 'x world) option"
  closer_close :: "nat \<Rightarrow> 'x world \<Rightarrow> 'x world option"
  delete_object :: "nat \<Rightarrow> 'x world \<Rightarrow> 'x world option"

section \<open>Construction and destruction\<close>

definition Connection_new :: "nat \<Rightarrow> nat \<Rightarrow> nat \<Rightarrow> nat \<Rightarrow> nat \<Rightarrow> nat \<Rightarrow> 'x world \<Rightarrow> 'x conn_state" where
  "Connection_new byte_packet_pipe main_packet_handler reader_buffer_length writer_buffer_length
      read_write_closer event_loop w =
     (let (rb, w1) = new_buffer reader_buffer_length w; (wb, w2) = new_buffer writer_buffer_length w1 in
      (\<lparr>pipeline = [], bytePacketPipe = byte_packet_pipe, mainPacketHandler = main_packet_handler,
        packetHandlers = [], readerBuffer = rb, writerBuffer = wb, readWriteCloser = read_write_closer,
        eventLoop = event_loop, onClose = None\<rparr>, w2))"

fun delete_handlers :: "('x, 'p) classes \<Rightarrow> (nat \<times> nat) list \<Rightarrow> 'x world \<Rightarrow> 'x world option" where
  "delete_handlers E [] w = Some w"
| "delete_handlers E ((_, item) # items) w = do { w1 \<leftarrow> delete_object E item w; delete_handlers E items w1 }"

text \<open>Calling an empty \<open>std::function\<close> throws, and an exception that leaves a destructor ends the program.\<close>

definition Connection_delete :: "('x, 'p) classes \<Rightarrow> 'x conn_state \<Rightarrow> 'x world option" where
  "Connection_delete E s =
     (case s of (c, w) \<Rightarrow>
        do { on_close \<leftarrow> onClose c;
             w1 \<leftarrow> on_close w;
             w2 \<leftarrow> delete_object E (bytePacketPipe c) w1;
             w3 \<leftarrow> delete_buffer (readerBuffer c) w2;
             w4 \<leftarrow> delete_buffer (writerBuffer c) w3;
             w5 \<leftarrow> delete_object E (mainPacketHandler c) w4;
             w6 \<leftarrow> delete_handlers E (packetHandlers c) w5;
             delete_object E (readWriteCloser c) w6 })"

section \<open>Pipes and handlers\<close>

definition SetBytePacketPipe :: "('x, 'p) classes \<Rightarrow> nat \<Rightarrow> 'x conn_state \<Rightarrow> 'x conn_state option" where
  "SetBytePacketPipe E newBytePacketPipe s =
     (case s of (c, w) \<Rightarrow>
        do { w1 \<leftarrow> delete_object E (bytePacketPipe c) w;
             Some (c\<lparr>bytePacketPipe := newBytePacketPipe\<rparr>, w1) })"

definition GetBytePacketPipe :: "'x connection \<Rightarrow> nat" where
  "GetBytePacketPipe c = bytePacketPipe c"

definition AppendByteBytePipe :: "nat \<Rightarrow> 'x connection \<Rightarrow> 'x connection" where
  "AppendByteBytePipe p c = c\<lparr>pipeline := pipeline c @ [p]\<rparr>"

definition PrependByteBytePipe :: "nat \<Rightarrow> 'x connection \<Rightarrow> 'x connection" where
  "PrependByteBytePipe p c = c\<lparr>pipeline := p # pipeline c\<rparr>"

text \<open>
  The loops that look for the element with an ordinal, at the position \<open>i\<close> of their iterator.  The body does not
  advance the iterator.
\<close>

partial_function (option) append_after :: "('a \<Rightarrow> u32) \<Rightarrow> u32 \<Rightarrow> 'a \<Rightarrow> nat \<Rightarrow> 'a list \<Rightarrow> 'a list option" where
  "append_after get_ordinal after x i xs =
     (if i \<noteq> length xs
      then (if get_ordinal (xs ! i) = after
            then Some (take (i + 1) xs @ [x] @ drop (i + 1) xs)
            else append_after get_ordinal after x i xs)
      else Some xs)"

partial_function (option) prepend_before :: "('a \<Rightarrow> u32) \<Rightarrow> u32 \<Rightarrow> 'a \<Rightarrow> nat \<Rightarrow> 'a list \<Rightarrow> 'a list option" where
  "prepend_before get_ordinal before x i xs =
     (if i \<noteq> length xs
      then (if get_ordinal (xs ! i) = before
            then Some (take i xs @ [x] @ drop i xs)
            else prepend_before get_ordinal before x i xs)
      else Some xs)"

definition AppendByteBytePipe_after ::
  "('x, 'p) classes \<Rightarrow> nat \<Rightarrow> u32 \<Rightarrow> 'x connection \<Rightarrow> 'x connection option" where
  "AppendByteBytePipe_after E p after_ordinal c =
     do { ps \<leftarrow> append_after (pipe_ordinal E) after_ordinal p 0 (pipeline c); Some (c\<lparr>pipeline := ps\<rparr>) }"

definition PrependByteBytePipe_before ::
  "('x, 'p) classes \<Rightarrow> nat \<Rightarrow> u32 \<Rightarrow> 'x connection \<Rightarrow> 'x connection option" where
  "PrependByteBytePipe_before E p before_ordinal c =
     do { ps \<leftarrow> prepend_before (pipe_ordinal E) before_ordinal p 0 (pipeline c); Some (c\<lparr>pipeline := ps\<rparr>) }"

definition RemoveByteBytePipe :: "('x, 'p) classes \<Rightarrow> u32 \<Rightarrow> 'x connection \<Rightarrow> 'x connection" where
  "RemoveByteBytePipe E ord c = c\<lparr>pipeline := filter (\<lambda>pipe. ord \<noteq> pipe_ordinal E pipe) (pipeline c)\<rparr>"

definition ReplaceMainPacketHandler :: "('x, 'p) classes \<Rightarrow> nat \<Rightarrow> 'x conn_state \<Rightarrow> 'x conn_state option" where
  "ReplaceMainPacketHandler E packet_handler s =
     (case s of (c, w) \<Rightarrow>
        do { w1 \<leftarrow> delete_object E (mainPacketHandler c) w;
             Some (c\<lparr>mainPacketHandler := packet_handler\<rparr>, w1) })"

text \<open>A new node gets the number of nodes so far.\<close>

definition AppendPacketHandler :: "nat \<Rightarrow> 'x connection \<Rightarrow> 'x connection" where
  "AppendPacketHandler h c = c\<lparr>packetHandlers := packetHandlers c @ [(length (packetHandlers c), h)]\<rparr>"

definition PrependPacketHandler :: "nat \<Rightarrow> 'x connection \<Rightarrow> 'x connection" where
  "PrependPacketHandler h c = c\<lparr>packetHandlers := (length (packetHandlers c), h) # packetHandlers c\<rparr>"

definition AppendPacketHandler_after ::
  "('x, 'p) classes \<Rightarrow> nat \<Rightarrow> u32 \<Rightarrow> 'x connection \<Rightarrow> 'x connection option" where
  "AppendPacketHandler_after E h afterOrdinal c =
     do { hs \<leftarrow> append_after (\<lambda>(_, i). handler_ordinal E i) afterOrdinal (length (packetHandlers c), h) 0
               (packetHandlers c);
          Some (c\<lparr>packetHandlers := hs\<rparr>) }"

definition PrependPacketHandler_before ::
  "('x, 'p) classes \<Rightarrow> nat \<Rightarrow> u32 \<Rightarrow> 'x connection \<Rightarrow> 'x connection option" where
  "PrependPacketHandler_before E h beforeOrdinal c =
     do { hs \<leftarrow> prepend_before (\<lambda>(_, i). handler_ordinal E i) beforeOrdinal (length (packetHandlers c), h) 0
               (packetHandlers c);
          Some (c\<lparr>packetHandlers := hs\<rparr>) }"

text \<open>The code removes from the pipeline, not from the handlers.\<close>

definition RemovePacketHandler :: "('x, 'p) classes \<Rightarrow> u32 \<Rightarrow> 'x connection \<Rightarrow> 'x connection" where
  "RemovePacketHandler E ord c = c\<lparr>pipeline := filter (\<lambda>pipe. ord \<noteq> pipe_ordinal E pipe) (pipeline c)\<rparr>"

definition GetReadWriteCloser :: "'x connection \<Rightarrow> nat" where
  "GetReadWriteCloser c = readWriteCloser c"

definition GetEventLoop :: "'x connection \<Rightarrow> nat" where
  "GetEventLoop c = eventLoop c"

definition SetOnClose :: "('x world \<Rightarrow> 'x world option) option \<Rightarrow> 'x connection \<Rightarrow> 'x connection" where
  "SetOnClose on_close c = c\<lparr>onClose := on_close\<rparr>"

section \<open>Bytes that arrive\<close>

definition close_connection :: "('x, 'p) classes \<Rightarrow> 'x conn_state \<Rightarrow> 'x conn_state option" where
  "close_connection E s = (case s of (c, w) \<Rightarrow> map_option (Pair c) (closer_close E (readWriteCloser c) w))"

definition run_handler ::
  "('x, 'p) classes \<Rightarrow> nat \<Rightarrow> packet_holder \<Rightarrow> 'x conn_state \<Rightarrow> (bool errorable \<times> 'x conn_state) option" where
  "run_handler E h packet s = Handle (callback_table E) (handler_ordinal E h) h packet s"

text \<open>The errorables of the pipes are not looked at.\<close>

fun run_pipeline :: "('x, 'p) classes \<Rightarrow> nat list \<Rightarrow> nat \<Rightarrow> 'x world \<Rightarrow> (nat \<times> 'x world) option" where
  "run_pipeline E [] current_buffer w = Some (current_buffer, w)"
| "run_pipeline E (pipe # pipes) current_buffer w =
     do { (_, w1) \<leftarrow> pipe_read E pipe current_buffer w;
          run_pipeline E pipes (GetReaderBuffer (byte_pipe E pipe)) w1 }"

fun next_node :: "nat \<Rightarrow> (nat \<times> nat) list \<Rightarrow> nat option option" where
  "next_node n [] = None"
| "next_node n ((m, _) # xs) =
     (if m = n then Some (case xs of [] \<Rightarrow> None | (k, _) # _ \<Rightarrow> Some k) else next_node n xs)"

definition first_node :: "(nat \<times> nat) list \<Rightarrow> nat option" where
  "first_node xs = (case xs of [] \<Rightarrow> None | (k, _) # _ \<Rightarrow> Some k)"

text \<open>The loop over the handlers goes on after an error, and tests the value of an error.\<close>

partial_function (option) handlers_loop ::
  "('x, 'p) classes \<Rightarrow> packet_holder \<Rightarrow> nat option \<Rightarrow> 'x conn_state \<Rightarrow> 'x conn_state option" where
  "handlers_loop E packet it s =
     (case it of
        None \<Rightarrow> Some s
      | Some n \<Rightarrow>
          do { item \<leftarrow> map_of (packetHandlers (fst s)) n;
               (wasHandled, s1) \<leftarrow> run_handler E item packet s;
               s2 \<leftarrow> (if \<not> IsSuccess wasHandled then close_connection E s1 else Some s1);
               if GetValue wasHandled then Some s2
               else do { it1 \<leftarrow> next_node n (packetHandlers (fst s2));
                         handlers_loop E packet it1 s2 } })"

definition HandleNewBytes :: "('x, 'p) classes \<Rightarrow> u8 list \<Rightarrow> nat \<Rightarrow> 'x conn_state \<Rightarrow> 'x conn_state option" where
  "HandleNewBytes E page page_size s =
     (case s of (c, w) \<Rightarrow>
        do { w1 \<leftarrow> WriteBytes_at (readerBuffer c) page page_size w;
             (current_buffer, w2) \<leftarrow> run_pipeline E (pipeline c) (readerBuffer c) w1;
             (packet, w3) \<leftarrow> packet_read E (bytePacketPipe c) current_buffer w2;
             if IsSuccess packet
             then do { (wasHandled, s4) \<leftarrow> run_handler E (mainPacketHandler c) (GetValue packet) (c, w3);
                       if \<not> IsSuccess wasHandled then close_connection E s4
                       else if \<not> GetValue wasHandled
                       then handlers_loop E (GetValue packet) (first_node (packetHandlers (fst s4))) s4
                       else Some s4 }
             else if GetTypeOrdinal packet \<noteq> IncompleteFrame_T then close_connection E (c, w3)
             else Some (c, w3) })"

section \<open>Packets that leave\<close>

definition WriteDirect :: "nat \<Rightarrow> 'x conn_state \<Rightarrow> 'x conn_state option" where
  "WriteDirect buffer s =
     (case s of (c, w) \<Rightarrow>
        map_option (Pair c) (WriteBytes_from (writerBuffer c) buffer (GetReadableBytes_at buffer w) w))"

text \<open>The loop of \<open>Write\<close> over the pipeline from its end: no buffer when the function has returned.\<close>

fun write_pipeline :: "('x, 'p) classes \<Rightarrow> nat list \<Rightarrow> nat \<Rightarrow> 'x conn_state \<Rightarrow> (nat option \<times> 'x conn_state) option" where
  "write_pipeline E [] buffer s = Some (Some buffer, s)"
| "write_pipeline E (pipe # pipes) buffer s =
     do { (shouldWrite, w1) \<leftarrow> pipe_write E pipe buffer (snd s);
          if \<not> IsSuccess shouldWrite
          then do { s2 \<leftarrow> close_connection E (fst s, w1); Some (None, s2) }
          else if GetValue shouldWrite = 0 then Some (None, (fst s, w1))
          else write_pipeline E pipes (GetWriterBuffer (byte_pipe E pipe)) (fst s, w1) }"

definition Connection_Write :: "('x, 'p) classes \<Rightarrow> 'p \<Rightarrow> 'x conn_state \<Rightarrow> 'x conn_state option" where
  "Connection_Write E packet s =
     (case s of (c, w) \<Rightarrow>
        do { w1 \<leftarrow> update_buffer (connectionWriteBuffer w) (\<lambda>b. Some (Impl_ResetReaderIndex b)) w;
             w2 \<leftarrow> update_buffer (connectionWriteBuffer w) (\<lambda>b. Some (Impl_ResetWriterIndex b)) w1;
             (shouldWrite, w3) \<leftarrow> packet_write E (bytePacketPipe c) (connectionWriteBuffer w) packet w2;
             if \<not> IsSuccess shouldWrite then close_connection E (c, w3)
             else if GetValue shouldWrite
             then do { (buffer, s4) \<leftarrow> write_pipeline E (rev (pipeline c)) (connectionWriteBuffer w) (c, w3);
                       (case buffer of None \<Rightarrow> Some s4 | Some b \<Rightarrow> WriteDirect b s4) }
             else Some (c, w3) })"

definition Connection_Flush :: "('x, 'p) classes \<Rightarrow> 'x conn_state \<Rightarrow> 'x conn_state option" where
  "Connection_Flush E s =
     (case s of (c, w) \<Rightarrow>
        do { (_, w1) \<leftarrow> closer_write E (readWriteCloser c) (writerBuffer c) w; Some (c, w1) })"

definition WriteAndFlush :: "('x, 'p) classes \<Rightarrow> 'p \<Rightarrow> 'x conn_state \<Rightarrow> 'x conn_state option" where
  "WriteAndFlush E packet s = do { s1 \<leftarrow> Connection_Write E packet s; Connection_Flush E s1 }"

section \<open>Inserting next to an element\<close>

lemma append_after_stuck:
  "append_after f k x i xs = Some ys \<Longrightarrow> i \<noteq> length xs \<longrightarrow> f (xs ! i) = k"
  by (erule append_after.raw_induct [rotated, where xa = "((((f, k), x), i), xs)"
        and P = "\<lambda>f k x i xs ys. i \<noteq> length xs \<longrightarrow> f (xs ! i) = k", simplified prod.case])
    (auto split: if_splits)

lemma prepend_before_stuck:
  "prepend_before f k x i xs = Some ys \<Longrightarrow> i \<noteq> length xs \<longrightarrow> f (xs ! i) = k"
  by (erule prepend_before.raw_induct [rotated, where xa = "((((f, k), x), i), xs)"
        and P = "\<lambda>f k x i xs ys. i \<noteq> length xs \<longrightarrow> f (xs ! i) = k", simplified prod.case])
    (auto split: if_splits)

lemma append_after_eq:
  "append_after f k x 0 xs = (case xs of [] \<Rightarrow> Some [] | y # ys \<Rightarrow> if f y = k then Some (y # x # ys) else None)"
proof (cases xs)
  case Nil
  then show ?thesis by (simp add: append_after.simps)
next
  case (Cons y ys)
  show ?thesis
  proof (cases "f y = k")
    case True
    then show ?thesis using Cons by (simp add: append_after.simps)
  next
    case False
    then have "append_after f k x 0 xs = None"
      using append_after_stuck [of f k x 0 xs] Cons by (cases "append_after f k x 0 xs") auto
    then show ?thesis using Cons False by simp
  qed
qed

lemma prepend_before_eq:
  "prepend_before f k x 0 xs = (case xs of [] \<Rightarrow> Some [] | y # ys \<Rightarrow> if f y = k then Some (x # y # ys) else None)"
proof (cases xs)
  case Nil
  then show ?thesis by (simp add: prepend_before.simps)
next
  case (Cons y ys)
  show ?thesis
  proof (cases "f y = k")
    case True
    then show ?thesis using Cons by (simp add: prepend_before.simps)
  next
    case False
    then have "prepend_before f k x 0 xs = None"
      using prepend_before_stuck [of f k x 0 xs] Cons by (cases "prepend_before f k x 0 xs") auto
    then show ?thesis using Cons False by simp
  qed
qed

text \<open>C23.  The operations that insert a pipe after or before the one with a given ordinal return only when the pipeline is
  empty, in which case the new pipe is dropped, or when its first pipe has that ordinal; with any other
  pipeline they never return.\<close>

theorem insert_next_to_returns_iff:
  "AppendByteBytePipe_after E p k c = (case pipeline c of [] \<Rightarrow> Some c
     | q # qs \<Rightarrow> if pipe_ordinal E q = k then Some (c\<lparr>pipeline := q # p # qs\<rparr>) else None) \<and>
   PrependByteBytePipe_before E p k c = (case pipeline c of [] \<Rightarrow> Some c
     | q # qs \<Rightarrow> if pipe_ordinal E q = k then Some (c\<lparr>pipeline := p # q # qs\<rparr>) else None)"
  by (cases "pipeline c")
    (simp_all add: AppendByteBytePipe_after_def PrependByteBytePipe_before_def append_after_eq prepend_before_eq)

section \<open>One packet per call\<close>

text \<open>A framed packet pipe as an object of the world, its fields being the state outside.\<close>

definition framed_pipe_object ::
  "(u32 \<Rightarrow> framed_byte_packet_pipe world \<Rightarrow> (packet_holder errorable \<times> framed_byte_packet_pipe world) option) \<Rightarrow>
   nat \<Rightarrow> framed_byte_packet_pipe world \<Rightarrow> (packet_holder errorable \<times> framed_byte_packet_pipe world) option" where
  "framed_pipe_object rp a w =
     map_option (\<lambda>(e, p, w1). (e, w1\<lparr>outside := p\<rparr>)) (read_packet_at a rp (outside w) w)"

lemma outside_update [simp]:
  "live a (w\<lparr>outside := x\<rparr>) = live a w" "contents_at a (w\<lparr>outside := x\<rparr>) = contents_at a w"
  by (auto simp: live_def contents_at_def split: option.splits)


text \<open>A connection with nothing in its pipeline and the classes around it, and a \<open>ReadPacket\<close> that takes the payload.\<close>

definition sample_connection :: "nat \<Rightarrow> nat \<Rightarrow> 'x connection" where
  "sample_connection rb wb =
     \<lparr>pipeline = [], bytePacketPipe = 10, mainPacketHandler = 11, packetHandlers = [], readerBuffer = rb, writerBuffer = wb,
      readWriteCloser = 12, eventLoop = 13, onClose = None\<rparr>"

definition sample_classes ::
  "(nat \<Rightarrow> nat \<Rightarrow> 'x world \<Rightarrow> (packet_holder errorable \<times> 'x world) option) \<Rightarrow>
   (nat \<Rightarrow> nat \<Rightarrow> 'p \<Rightarrow> 'x world \<Rightarrow> (bool errorable \<times> 'x world) option) \<Rightarrow> ('x, 'p) classes" where
  "sample_classes rd wr =
     \<lparr>pipe_ordinal = (\<lambda>_. 0), byte_pipe = (\<lambda>_. ByteBytePipe_of 0 0), pipe_read = (\<lambda>_ _. ByteBytePipe_Read),
      pipe_write = (\<lambda>_ _. ByteBytePipe_Write), packet_read = rd, packet_write = wr, handler_ordinal = (\<lambda>_. 0),
      callback_table = [[Some (\<lambda>_ _ s. Some (SuccessErrorable True, s))]],
      closer_write = (\<lambda>_ _ w. Some (SuccessErrorable (-1), w)), closer_close = (\<lambda>_. Some), delete_object = (\<lambda>_. Some)\<rparr>"

definition take_payload :: "u32 \<Rightarrow> 'x world \<Rightarrow> (packet_holder errorable \<times> 'x world) option" where
  "take_payload n w =
     do { (_, w1) \<leftarrow> with_buffer 1 (Impl_ReadBytes (replicate (unat n) 0) (unat n)) w;
          Some (SuccessErrorable (PacketHolder_new 0 None 1 n), w1) }"

lemma take_payload_law:
  assumes "live 1 w" and "contents_at 1 w = payload @ rest" and "length payload = unat n" and "n \<noteq> 0"
  shows "gives (live 1) (contents_at 1) (take_payload n w) (SuccessErrorable (PacketHolder_new 0 None 1 n)) rest"
proof -
  have pos: "0 < unat n" using assms(4) by (simp add: unat_gt_0)
  have "gives (live 1) (contents_at 1) (with_buffer 1 (Impl_ReadBytes (replicate (unat n) 0) (unat n)) w)
      (SuccessErrorable payload) rest"
  proof (rule with_buffer_gives [OF assms(1)])
    fix b assume "byte_buffers w 1 = Some b"
    then have b: "bb_ok (mem w, b)" "bb_contents (mem w, b) = payload @ rest"
      using assms(1,2) by (auto simp: live_def contents_at_def)
    show "gives bb_ok bb_contents (Impl_ReadBytes (replicate (unat n) 0) (unat n) (mem w, b)) (SuccessErrorable payload) rest"
      using Impl_ReadBytes_ok [OF b(1) pos, of "replicate (unat n) 0"] b(2) assms(3) unat_bounds(3) [of n] by simp
  qed
  then show ?thesis by (auto simp: take_payload_def gives_def)
qed


section \<open>A packet that is written\<close>

lemma reset_single_page:
  assumes "bb_ok (m, b)" and "length (buffers b) = 1"
  shows "bb_ok (Impl_ResetWriterIndex (Impl_ResetReaderIndex (m, b)))"
    and "bb_contents (Impl_ResetWriterIndex (Impl_ResetReaderIndex (m, b))) = []"
    and "fst (Impl_ResetWriterIndex (Impl_ResetReaderIndex (m, b))) = m"
    and "buffers (snd (Impl_ResetWriterIndex (Impl_ResetReaderIndex (m, b)))) = buffers b"
proof -
  obtain a where a: "buffers b = [a]" using assms(2) by (cases "buffers b") auto
  show c: "bb_contents (Impl_ResetWriterIndex (Impl_ResetReaderIndex (m, b))) = []"
    by (simp add: Impl_ResetWriterIndex_def Impl_ResetReaderIndex_def bb_contents_def page_list_def a queue_def)
  then show "bb_ok (Impl_ResetWriterIndex (Impl_ResetReaderIndex (m, b)))"
    using assms(1) by (simp add: Impl_ResetWriterIndex_def Impl_ResetReaderIndex_def bb_ok_def pages_ok_def)
qed (simp_all add: Impl_ResetWriterIndex_def Impl_ResetReaderIndex_def)

text \<open>The packet pipe fills the thread's write buffer with \<open>bs\<close>, by whatever methods (\<open>f\<close>).\<close>

lemma packet_written:
  assumes "pipeline c = []" and "wb = writerBuffer c" and "cwb = connectionWriteBuffer w"
    and "packet_write E (bytePacketPipe c) cwb pk =
      (\<lambda>w. map_option (Pair (SuccessErrorable True)) (update_buffer cwb f w))"
    and "byte_buffers w wb = Some b" and "byte_buffers w cwb = Some d" and "wb \<noteq> cwb"
    and "bb_ok (mem w, b)" and "bb_ok (mem w, d)" and "apart b d" and "length (buffers d) = 1"
    and "bs \<noteq> []" and "length bs \<le> MAX_PACKET_SIZE" and "length (contents_at wb w) + length bs < alloc_max"
    and fills: "\<And>s. bb_ok s \<Longrightarrow> bb_contents s = [] \<Longrightarrow> holds bb_ok bb_contents (f s) bs"
    and moves: "\<And>s s1. f s = Some s1 \<Longrightarrow> page_moves s s1"
  shows "\<exists>w' b'. Connection_Write E pk (c, w) = Some (c, w') \<and> byte_buffers w' wb = Some b' \<and> bb_ok (mem w', b') \<and>
    bb_contents (mem w', b') = contents_at wb w @ bs \<and> same_reader (mem w, b) (mem w', b') \<and> outside w' = outside w"
proof -
  obtain m1 d1 where d1: "Impl_ResetReaderIndex (mem w, d) = (m1, d1)" by (cases "Impl_ResetReaderIndex (mem w, d)")
  then have m1: "m1 = mem w" by (simp add: Impl_ResetReaderIndex_def)
  obtain d2 where d2: "Impl_ResetWriterIndex (mem w, d1) = (mem w, d2)" by (simp add: Impl_ResetWriterIndex_def)
  have r: "Impl_ResetWriterIndex (Impl_ResetReaderIndex (mem w, d)) = (mem w, d2)" using d1 d2 m1 by simp
  note clean = reset_single_page [OF assms(9,11), unfolded r]
  have ap: "apart d2 b" using assms(10) clean(4) by (auto simp: apart_def)
  obtain m3 d3 where d3: "f (mem w, d2) = Some (m3, d3)" "bb_ok (m3, d3)" "bb_contents (m3, d3) = bs"
    using fills [OF clean(1,2)] by (auto elim: holdsE)
  note g = frame_other [OF frame_moves [OF moves [OF d3(1)]] clean(1) assms(8) ap]
  have sizes: "0 < length bs" "length bs \<le> length (bb_contents (m3, d3))" "length (bb_contents (m3, b)) + length bs < alloc_max"
    using assms(5,12,14) g(2) d3(3) by (simp_all add: contents_at_def)
  obtain m4 b4 d4 where t: "Impl_WriteBytes_buffer (length bs) (m3, b, d3) = Some (m4, b4, d4)" "bb_ok (m4, b4)"
    "bb_contents (m4, b4) = bb_contents (m3, b) @ take (length bs) (bb_contents (m3, d3))" "same_reader (m3, b) (m4, b4)"
    using buffer_transfer [OF g(1) d3(2) apart_sym [OF g(3)] sizes(1,2) assms(13) sizes(3)] by blast
  have n: "readableBytes d3 = length bs" using bb_okD(6) [OF d3(2)] d3(3) by simp
  let ?w = "w\<lparr>mem := m4, byte_buffers := (byte_buffers w)(wb \<mapsto> b4, cwb \<mapsto> d4)\<rparr>"
  have "Connection_Write E pk (c, w) = Some (c, ?w)"
    using assms(1,4-7) d1 d2 d3(1) t(1) n m1 assms(2) [symmetric] assms(3) [symmetric]
    by (simp add: Connection_Write_def update_buffer_def WriteDirect_def WriteBytes_from_def
        GetReadableBytes_at_def Impl_GetReadableBytes_def fun_upd_twist)
  moreover have "byte_buffers ?w wb = Some b4" "bb_contents (m4, b4) = contents_at wb w @ bs" "same_reader (mem w, b) (m4, b4)"
    using t(3,4) assms(5,7) g(2) d3(3) by (simp_all add: contents_at_def same_reader_def)
  ultimately show ?thesis using t(2) by (intro exI [of _ ?w] exI [of _ b4]) simp
qed


lemma two_new_buffers:
  "\<exists>b d. byte_buffers (snd (new_buffer 8 (world0 x))) = [1 \<mapsto> b, 2 \<mapsto> d] \<and> length (buffers d) = 1 \<and> apart b d \<and>
     bb_ok (mem (snd (new_buffer 8 (world0 x))), b) \<and> bb_ok (mem (snd (new_buffer 8 (world0 x))), d) \<and>
     bb_contents (mem (snd (new_buffer 8 (world0 x))), b) = [] \<and> localReaderIndex b = 0 \<and> singleCapacity b = 4"
  by (rule exI [of _ "ByteBufferImpl_of_page 0 4"], rule exI [of _ "ByteBufferImpl_of_page 1 8"])
    (auto simp: ByteBufferImpl_of_page_def world0_def new_buffer_def ByteBufferImpl_new_def new_page_def mem0_def apart_def
      bb_ok_def pages_ok_def bb_contents_def page_list_def queue_def alloc_max_def fun_eq_iff)


end
