(* ===== verification/Ship_EventLoop.thy ===== *)
theory Ship_EventLoop
  imports Ship_Errorables
begin

text \<open>
  \<open>EventLoop\<close> (\<open>utils/thread/EventLoop.cpp\<close>): tasks to run at once and tasks to run after a time.  A task is a value
  of type \<open>'t\<close>; running it changes a state \<open>'s\<close> and may call \<open>Execute\<close> and \<open>Delay\<close> on the loop, which is the list of
  requests \<open>run\<close> returns (a request to delay has the clock at the call).  A task that calls
  \<open>ProceedTasks\<close> itself is not modelled.
\<close>

section \<open>State\<close>

record 't event_loop =
  immediateTasks :: "'t list"
  delayedTasks :: "(u32 \<times> 't) list"

datatype 't request = RequestExecute 't | RequestDelay u64 't int

definition EventLoop_new :: "'t event_loop" where
  "EventLoop_new = \<lparr>immediateTasks = [], delayedTasks = []\<rparr>"

definition Execute :: "'t \<Rightarrow> 't event_loop \<Rightarrow> 't event_loop" where
  "Execute f l = l\<lparr>immediateTasks := immediateTasks l @ [f]\<rparr>"

text \<open>The sum is one of \<open>uint64_t\<close>, the list keeps \<open>uint32_t\<close>.\<close>

definition Delay :: "u64 \<Rightarrow> 't \<Rightarrow> int \<Rightarrow> 't event_loop \<Rightarrow> 't event_loop" where
  "Delay now f millis l = l\<lparr>delayedTasks := delayedTasks l @ [(ucast (now + of_int millis), f)]\<rparr>"

fun apply_request :: "'t request \<Rightarrow> 't event_loop \<Rightarrow> 't event_loop" where
  "apply_request (RequestExecute f) l = Execute f l"
| "apply_request (RequestDelay now f millis) l = Delay now f millis l"

section \<open>ProceedTasks\<close>

text \<open>The task is run while it is still at the front of the queue.\<close>

partial_function (option) run_immediate ::
  "('t \<Rightarrow> 's \<Rightarrow> ('t request list \<times> 's) option) \<Rightarrow> 't event_loop \<Rightarrow> 's \<Rightarrow> ('t event_loop \<times> 's) option" where
  "run_immediate run l s =
     (case immediateTasks l of
        [] \<Rightarrow> Some (l, s)
      | f # _ \<Rightarrow>
          do { (requests, s1) \<leftarrow> run f s;
               let l1 = fold apply_request requests l;
               run_immediate run (l1\<lparr>immediateTasks := tl (immediateTasks l1)\<rparr>) s1 })"

text \<open>
  \<open>remove_if\<close> over the delayed tasks.  What its predicate appends to the list while it runs stays in the list; whether
  the pass still visits it depends on the library, so a request that would already be due has no result.
\<close>

fun run_delayed ::
  "('t \<Rightarrow> 's \<Rightarrow> ('t request list \<times> 's) option) \<Rightarrow> u32 \<Rightarrow> (u32 \<times> 't) list \<Rightarrow> 't event_loop \<Rightarrow> 's
   \<Rightarrow> ((u32 \<times> 't) list \<times> 't event_loop \<times> 's) option" where
  "run_delayed run currentTime [] added s = Some ([], added, s)"
| "run_delayed run currentTime ((time, f) # tasks) added s =
     (if time \<le> currentTime
      then do { (requests, s1) \<leftarrow> run f s;
                let added1 = fold apply_request requests added;
                if \<exists>(t, g) \<in> set (delayedTasks added1). t \<le> currentTime then None
                else run_delayed run currentTime tasks added1 s1 }
      else do { (kept, added1, s1) \<leftarrow> run_delayed run currentTime tasks added s;
                Some ((time, f) # kept, added1, s1) })"

definition ProceedTasks ::
  "('t \<Rightarrow> 's \<Rightarrow> ('t request list \<times> 's) option) \<Rightarrow> ('s \<Rightarrow> u64) \<Rightarrow> 't event_loop \<Rightarrow> 's \<Rightarrow> ('t event_loop \<times> 's) option" where
  "ProceedTasks run clock l s =
     do { (l1, s1) \<leftarrow> run_immediate run l s;
          if delayedTasks l1 \<noteq> []
          then do { let currentTime = (ucast (clock s1) :: u32);
                    (kept, added, s2) \<leftarrow> run_delayed run currentTime (delayedTasks l1) (l1\<lparr>delayedTasks := []\<rparr>) s1;
                    Some (added\<lparr>delayedTasks := kept @ delayedTasks added\<rparr>, s2) }
          else Some (l1, s1) }"

section \<open>Tasks that make no requests\<close>

lemma run_immediate_plain:
  assumes "\<And>f s. run f s = Some ([], act f s)"
  shows "run_immediate run l s = Some (l\<lparr>immediateTasks := []\<rparr>, fold act (immediateTasks l) s)"
proof (induction "immediateTasks l" arbitrary: l s)
  case Nil
  then show ?case by (subst run_immediate.simps) simp
next
  case (Cons f fs)
  note q = Cons.hyps(2) [symmetric]
  have "fs = immediateTasks (l\<lparr>immediateTasks := fs\<rparr>)" by simp
  from Cons.hyps(1) [OF this, of "act f s"] show ?case
    by (subst run_immediate.simps) (simp add: q assms)
qed

lemma run_delayed_plain:
  assumes "\<And>f s. run f s = Some ([], act f s)" and "delayedTasks added = []"
  shows "run_delayed run now tasks added s =
    Some (filter (\<lambda>(t, _). \<not> t \<le> now) tasks, added, fold act (map snd (filter (\<lambda>(t, _). t \<le> now) tasks)) s)"
  by (induction tasks arbitrary: s) (auto simp: assms)

lemma ProceedTasks_plain:
  assumes "\<And>f s. run f s = Some ([], act f s)"
    and "s1 = fold act (immediateTasks l) s" and "now = ucast (clock s1)"
  shows "ProceedTasks run clock l s =
    Some (l\<lparr>immediateTasks := [], delayedTasks := filter (\<lambda>(t, _). \<not> t \<le> now) (delayedTasks l)\<rparr>,
          fold act (map snd (filter (\<lambda>(t, _). t \<le> now) (delayedTasks l))) s1)"
  using assms(2,3)
  by (simp add: ProceedTasks_def run_immediate_plain [OF assms(1)] run_delayed_plain [OF assms(1)] Let_def)

text \<open>What every task keeps, \<open>ProceedTasks\<close> keeps, whatever the tasks request.\<close>

lemma run_immediate_invariant:
  assumes keeps: "\<And>f s rs s1. run f s = Some (rs, s1) \<Longrightarrow> P s \<Longrightarrow> P s1"
  shows "run_immediate run' l s = Some r \<Longrightarrow> run' = run \<longrightarrow> P s \<longrightarrow> P (snd r)"
proof (induction rule: run_immediate.raw_induct [rotated, consumes 1, case_names step])
  case (step loop run' l s r)
  from step(2) show ?case
    by (cases r) (auto simp: Let_def split: list.splits elim!: bind_SomeE dest: keeps dest!: step(1))
qed

lemma run_delayed_invariant:
  assumes "run_delayed run now tasks added s = Some (kept, added1, s1)" and "P s"
    and keeps: "\<And>f s rs s1. run f s = Some (rs, s1) \<Longrightarrow> P s \<Longrightarrow> P s1"
  shows "P s1"
  using assms(1,2)
proof (induction tasks arbitrary: added s kept)
  case (Cons task tasks)
  then show ?case
    by (cases task) (auto simp: Let_def split: if_splits elim!: bind_SomeE dest: keeps)
qed simp

lemma ProceedTasks_invariant:
  assumes "ProceedTasks run clock l s = Some (l1, s1)" and "P s"
    and "\<And>f s rs s1. run f s = Some (rs, s1) \<Longrightarrow> P s \<Longrightarrow> P s1"
  shows "P s1"
proof -
  obtain l2 s2 where r: "run_immediate run l s = Some (l2, s2)"
    and rest: "(if delayedTasks l2 \<noteq> []
          then do { (kept, added, s3) \<leftarrow> run_delayed run (ucast (clock s2)) (delayedTasks l2) (l2\<lparr>delayedTasks := []\<rparr>) s2;
                    Some (added\<lparr>delayedTasks := kept @ delayedTasks added\<rparr>, s3) }
          else Some (l2, s2)) = Some (l1, s1)"
    using assms(1) by (auto simp: ProceedTasks_def Let_def elim!: bind_SomeE cong: if_cong)
  have "run = run \<longrightarrow> P s \<longrightarrow> P (snd (l2, s2))"
    by (rule run_immediate_invariant [OF _ r]) (rule assms(3))
  then have "P s2" using assms(2) by simp
  then show ?thesis
    using rest run_delayed_invariant [where P = P, OF _ _ assms(3)] by (auto split: if_splits elim!: bind_SomeE)
qed



lemma delayed_due:
  assumes "\<forall>f s. run f s = Some ([], act f s)"
  shows "ProceedTasks run clock (Delay now f (int d) EventLoop_new) s =
    (if (unat now + d) mod 2 ^ 32 \<le> unat (clock s) mod 2 ^ 32 then Some (EventLoop_new, act f s)
     else Some (Delay now f (int d) EventLoop_new, s))"
proof -
  have time: "unat (ucast (now + of_int (int d)) :: u32) = (unat now + d) mod 2 ^ 32"
    by (simp add: unsigned_ucast_eq take_bit_eq_mod unat_word_ariths unat_of_nat mod_add_right_eq mod_mod_cancel)
  have clk: "unat (ucast (clock s) :: u32) = unat (clock s) mod 2 ^ 32"
    by (simp add: unsigned_ucast_eq take_bit_eq_mod)
  have "(ucast (now + of_int (int d)) :: u32) \<le> ucast (clock s) \<longleftrightarrow>
      (unat now + d) mod 2 ^ 32 \<le> unat (clock s) mod 2 ^ 32"
    unfolding word_le_nat_alt time clk ..
  then show ?thesis
    using ProceedTasks_plain [of run act s "Delay now f (int d) EventLoop_new" s "ucast (clock s)" clock] assms
    by (simp add: Delay_def EventLoop_new_def)
qed

text \<open>C30.  A delayed task runs when its time modulo \<open>2^32\<close> is not after the clock modulo \<open>2^32\<close>: the clock is kept in 32 of its
  64 bits.\<close>

theorem delayed_task_due_iff:
  assumes "\<forall>f s. run f s = Some ([], act f s)"
  shows "ProceedTasks run clock (Delay now f (int d) EventLoop_new) s =
    (if (unat now + d) mod 2 ^ 32 \<le> unat (clock s) mod 2 ^ 32 then Some (EventLoop_new, act f s)
     else Some (Delay now f (int d) EventLoop_new, s))"
  using assms by (rule delayed_due)

text \<open>One that is due at the next turn of the 32-bit clock runs at once.\<close>

theorem delayed_task_due_iff_witness:
  "ProceedTasks (\<lambda>f s. Some ([], s @ [f])) (\<lambda>_. 0xFFFFFFFF) (Delay 0xFFFFFFFF (CHR ''x'') (int 1000) EventLoop_new) [] =
   Some (EventLoop_new, ''x'')"
  using delayed_task_due_iff [of "\<lambda>f s. Some ([], s @ [f])" "\<lambda>f s. s @ [f]" "\<lambda>_. 0xFFFFFFFF" "0xFFFFFFFF" "CHR ''x''" 1000 "[]"]
  by simp

section \<open>The clock\<close>

text \<open>
  \<open>ShipUtils::GetCurrentMillis\<close>: the time of \<open>system_clock\<close>, here in nanoseconds as the standard library keeps it, cast to
  milliseconds, which drops the fraction towards zero, and to 64 bits without a sign.
\<close>

definition GetCurrentMillis :: "int \<Rightarrow> u64" where
  "GetCurrentMillis time_since_epoch =
     word_of_int (sgn time_since_epoch * (\<bar>time_since_epoch\<bar> div 1000000))"

lemma GetCurrentMillis_exact:
  assumes "t < 2 ^ 63"
  shows "unat (GetCurrentMillis (int t)) = t div 1000000"
proof -
  have "sgn (int t) * (\<bar>int t\<bar> div 1000000) = int (t div 1000000)" by (cases t) simp_all
  moreover have "t div 1000000 < 2 ^ 64" using le_less_trans [OF div_le_dividend assms] by (rule less_trans) simp
  ultimately show ?thesis by (simp add: GetCurrentMillis_def unat_of_nat take_bit_nat_eq_self)
qed

text \<open>In real time: a delay that does not cross a turn of the 32-bit clock is exact, to the millisecond.\<close>

lemma delay_within_a_turn:
  assumes "\<forall>f s. run f s = Some ([], act f s)" and "t0 < 2 ^ 63" and "t1 < 2 ^ 63"
    and "(t0 div 1000000 + d) div 2 ^ 32 = t1 div 1000000 div 2 ^ 32"
  shows "ProceedTasks run (\<lambda>_. GetCurrentMillis (int t1)) (Delay (GetCurrentMillis (int t0)) f (int d) EventLoop_new) s =
    (if t0 div 1000000 + d \<le> t1 div 1000000 then Some (EventLoop_new, act f s)
     else Some (Delay (GetCurrentMillis (int t0)) f (int d) EventLoop_new, s))"
proof -
  have "a mod k \<le> b mod k \<longleftrightarrow> a \<le> b" if "a div k = b div k" for a b k :: nat
    using div_mult_mod_eq [of a k] div_mult_mod_eq [of b k] that by (metis add_le_cancel_left)
  from this [OF assms(4)] show ?thesis
    using delayed_due [OF assms(1), where clock = "\<lambda>_. GetCurrentMillis (int t1)" and now = "GetCurrentMillis (int t0)"
        and d = d and f = f and s = s]
    by (simp add: GetCurrentMillis_exact [OF assms(2)] GetCurrentMillis_exact [OF assms(3)])
qed

end
