(* ===== verification/Ship_Epoll.thy ===== *)
theory Ship_Epoll
  imports Ship_Connection Ship_Closer Ship_EventLoop
begin

text \<open>
  \<open>NetworkEventLoop\<close> and \<open>EpollEventLoop\<close> (\<open>network/eventloop\<close>): the loop that reads the sockets and hands the bytes to the
  connections.  Connections are reached through the pointers the kernel gives back, so they live in a store.  The
  system calls, the constructor of the closer and the \<open>initializer\<close> the application passes in are
  arguments.
\<close>

section \<open>State\<close>

type_synonym 'x network = "(nat \<rightharpoonup> 'x connection) \<times> 'x world"

record epoll_event_loop =
  epollFileDescriptor :: int
  maxEvents :: int
  epollTimeout :: int
  bufferSize :: nat
  eventData :: nat

definition EAGAIN :: int where
  "EAGAIN = 11"

text \<open>
  \<open>eventData\<close> is the pointer in \<open>epollEvent\<close>, whose flags never change.  The array \<open>buffer\<close> carries nothing from one read to
  the next, so only its size is kept, and \<open>delete[] buffer\<close> has no counterpart; \<open>initializer\<close> is an argument of \<open>NewConnection\<close>.
\<close>

definition EpollEventLoop_new :: "int \<Rightarrow> int \<Rightarrow> int \<Rightarrow> nat \<Rightarrow> epoll_event_loop" where
  "EpollEventLoop_new epoll_file_descriptor max_events timeout buffer_size =
     \<lparr>epollFileDescriptor = epoll_file_descriptor, maxEvents = max_events, epollTimeout = timeout,
      bufferSize = buffer_size, eventData = 0\<rparr>"

definition NewEventLoop ::
  "('k \<Rightarrow> int \<times> int \<times> 'k) \<Rightarrow> int \<Rightarrow> int \<Rightarrow> nat \<Rightarrow> 'k \<Rightarrow> epoll_event_loop option errorable \<times> 'k" where
  "NewEventLoop epoll_create1 max_events timeout buffer_size k =
     (let (fd, errno, k1) = epoll_create1 k in
      if fd = -1 then (ErrnoErrorable None (of_int errno), k1)
      else (SuccessErrorable (Some (EpollEventLoop_new fd max_events timeout buffer_size)), k1))"

definition EpollEventLoop_delete :: "'k sys_close \<Rightarrow> epoll_event_loop \<Rightarrow> 'k \<Rightarrow> 'k" where
  "EpollEventLoop_delete sc l k = sc (epollFileDescriptor l) k"

definition NewConnection ::
  "(nat \<Rightarrow> 'x network \<Rightarrow> (nat \<times> 'x network) option) \<Rightarrow> nat \<Rightarrow> 'x network \<Rightarrow> (nat \<times> 'x network) option" where
  "NewConnection initializer writer n = initializer writer n"

definition delete_connection :: "('x, 'p) classes \<Rightarrow> nat \<Rightarrow> 'x network \<Rightarrow> 'x network option" where
  "delete_connection E a n =
     (case n of (cs, w) \<Rightarrow>
        do { c \<leftarrow> cs a; w1 \<leftarrow> Connection_delete E (c, w); Some (cs(a := None), w1) })"

definition Epoll_Accept ::
  "('x, 'p) classes \<Rightarrow> (int \<Rightarrow> 'x world \<Rightarrow> nat \<times> 'x world) \<Rightarrow>
   (nat \<Rightarrow> 'x network \<Rightarrow> (nat \<times> 'x network) option) \<Rightarrow> (int \<Rightarrow> int \<Rightarrow> nat \<Rightarrow> 'x world \<Rightarrow> int \<times> 'x world) \<Rightarrow>
   int \<Rightarrow> epoll_event_loop \<Rightarrow> 'x network \<Rightarrow> (epoll_event_loop \<times> 'x network) option" where
  "Epoll_Accept E new_closer initializer epoll_ctl_add fd l n =
     (case n of (cs, w) \<Rightarrow>
        let (closer, w1) = new_closer fd w in
        do { (connection, (cs2, w2)) \<leftarrow> NewConnection initializer closer (cs, w1);
             let l1 = l\<lparr>eventData := connection\<rparr>;
             let (r, w3) = epoll_ctl_add (epollFileDescriptor l) fd (eventData l1) w2;
             if r = -1
             then do { n4 \<leftarrow> delete_connection E (eventData l1) (cs2, w3); Some (l1, n4) }
             else Some (l1, (cs2, w3)) })"

section \<open>One round of the loop\<close>

text \<open>
  The inner loop: read the socket until it is empty, and handle what was read.  \<open>closer_read\<close> is the closer's \<open>Read\<close>, with
  the bytes it put into the buffer.  The variable \<open>disconnected\<close> has no value (\<open>None\<close>) until one is assigned.
\<close>

type_synonym 'x closer_read = "nat \<Rightarrow> nat \<Rightarrow> 'x world \<Rightarrow> (int errorable \<times> u8 list \<times> 'x world) option"

partial_function (option) read_loop ::
  "('x, 'p) classes \<Rightarrow> 'x closer_read \<Rightarrow> nat \<Rightarrow> nat \<Rightarrow> bool option \<Rightarrow> 'x network \<Rightarrow> (bool option \<times> 'x network) option" where
  "read_loop E closer_read sz a disconnected n =
     do { c \<leftarrow> fst n a;
          (readRequest, bytes, w1) \<leftarrow> closer_read (GetReadWriteCloser c) sz (snd n);
          if GetTypeOrdinal readRequest = Success_T
          then do { (c2, w2) \<leftarrow> HandleNewBytes E bytes (nat (GetValue readRequest mod int size_max)) (c, w1);
                    read_loop E closer_read sz a disconnected ((fst n)(a \<mapsto> c2), w2) }
          else if GetTypeOrdinal readRequest = Errno_T \<and> errno w1 = EAGAIN
          then Some (disconnected, (fst n, w1))
          else if GetTypeOrdinal readRequest = GracefulDisconnect_T
          then do { n2 \<leftarrow> delete_connection E a (fst n, w1); Some (Some True, n2) }
          else do { n2 \<leftarrow> delete_connection E a (fst n, w1); Some (Some True, n2) } }"

text \<open>An event is its \<open>EPOLLRDHUP\<close> flag and its pointer.  Testing \<open>disconnected\<close> before it has a value is undefined.\<close>

fun handle_events ::
  "('x, 'p) classes \<Rightarrow> 'x closer_read \<Rightarrow> nat \<Rightarrow> (bool \<times> nat) list \<Rightarrow> bool option \<Rightarrow> 'x network \<Rightarrow>
   (bool option \<times> 'x network) option" where
  "handle_events E closer_read sz [] disconnected n = Some (disconnected, n)"
| "handle_events E closer_read sz ((rdhup, connection) # events) disconnected n =
     (if rdhup
      then do { n1 \<leftarrow> delete_connection E connection n;
                handle_events E closer_read sz events disconnected n1 }
      else do { (disconnected1, n1) \<leftarrow> read_loop E closer_read sz connection disconnected n;
                flag \<leftarrow> disconnected1;
                if flag then Some (disconnected1, n1)
                else handle_events E closer_read sz events disconnected1 n1 })"

text \<open>
  A round of \<open>StartLoop\<close>: the tasks, then the events the kernel reports; the tasks work on the network.
\<close>

definition loop_round ::
  "('x, 'p) classes \<Rightarrow> 'x closer_read \<Rightarrow> ('t \<Rightarrow> 'x network \<Rightarrow> ('t request list \<times> 'x network) option) \<Rightarrow> ('x network \<Rightarrow> u64) \<Rightarrow>
   (int \<Rightarrow> int \<Rightarrow> int \<Rightarrow> 'x network \<Rightarrow> (bool \<times> nat) list \<times> 'x network) \<Rightarrow> epoll_event_loop \<Rightarrow> 't event_loop \<Rightarrow> 'x network \<Rightarrow>
   ('t event_loop \<times> 'x network) option" where
  "loop_round E closer_read run clock epoll_wait l tasks n =
     do { (tasks1, n1) \<leftarrow> ProceedTasks run clock tasks n;
          let (events, n2) = epoll_wait (epollFileDescriptor l) (maxEvents l) (epollTimeout l) n1;
          (_, n3) \<leftarrow> handle_events E closer_read (bufferSize l) events None n2;
          Some (tasks1, n3) }"

text \<open>\<open>StartLoop\<close> never returns; this is the state after a number of rounds.\<close>

fun loop_rounds ::
  "nat \<Rightarrow> ('x, 'p) classes \<Rightarrow> 'x closer_read \<Rightarrow> ('t \<Rightarrow> 'x network \<Rightarrow> ('t request list \<times> 'x network) option) \<Rightarrow> ('x network \<Rightarrow> u64) \<Rightarrow>
   (int \<Rightarrow> int \<Rightarrow> int \<Rightarrow> 'x network \<Rightarrow> (bool \<times> nat) list \<times> 'x network) \<Rightarrow> epoll_event_loop \<Rightarrow> 't event_loop \<Rightarrow> 'x network \<Rightarrow>
   ('t event_loop \<times> 'x network) option" where
  "loop_rounds 0 E closer_read run clock epoll_wait l tasks n = Some (tasks, n)"
| "loop_rounds (Suc k) E closer_read run clock epoll_wait l tasks n =
     do { (tasks1, n1) \<leftarrow> loop_round E closer_read run clock epoll_wait l tasks n;
          loop_rounds k E closer_read run clock epoll_wait l tasks1 n1 }"

section \<open>A closed connection\<close>

text \<open>The closer of every connection is the Unix one, kept in the state outside together with the kernel.\<close>

definition unix_read :: "'k sys_read \<Rightarrow> (unix_closer \<times> 'k) closer_read" where
  "unix_read sr a n w =
     (case Unix_Read sr n (outside w) of (e, bytes, c, k) \<Rightarrow> Some (e, bytes, w\<lparr>outside := (c, k)\<rparr>))"

text \<open>
  What ends the reading of a socket is an error; while reads succeed with no bytes, and handling no bytes does not change
  that, the loop goes on.
\<close>

lemma read_loop_zero:
  assumes zero: "\<And>x w. P w \<Longrightarrow> \<exists>w1. rd x sz w = Some (SuccessErrorable 0, [], w1) \<and> P w1"
    and keeps: "\<And>c w c' w'. P w \<Longrightarrow> HandleNewBytes E [] 0 (c, w) = Some (c', w') \<Longrightarrow> P w'"
  shows "read_loop E' rd' sz' a d n = Some r \<Longrightarrow> E' = E \<longrightarrow> rd' = rd \<longrightarrow> sz' = sz \<longrightarrow> \<not> P (snd n)"
proof (induction rule: read_loop.raw_induct [rotated, consumes 1, case_names step])
  case (step loop E' rd' sz' a d n r)
  show ?case
  proof (intro impI notI)
    assume e: "E' = E" "rd' = rd" "sz' = sz" and P: "P (snd n)"
    obtain c where c: "fst n a = Some c" using step(2) by (auto split: bind_splits)
    obtain w1 where w1: "rd (GetReadWriteCloser c) sz (snd n) = Some (SuccessErrorable 0, [], w1)" "P w1"
      using zero [OF P] by blast
    obtain c' w' where "HandleNewBytes E [] 0 (c, w1) = Some (c', w')" "loop E rd sz a d ((fst n)(a \<mapsto> c'), w') = Some r"
      using step(2) e by (auto simp: c w1(1) split: bind_splits prod.splits)
    then show False using step(1) keeps [OF w1(2)] by fastforce
  qed
qed

lemma read_loop_never_ends:
  assumes "\<And>x w. P w \<Longrightarrow> \<exists>w1. rd x sz w = Some (SuccessErrorable 0, [], w1) \<and> P w1"
    and "\<And>c w c' w'. P w \<Longrightarrow> HandleNewBytes E [] 0 (c, w) = Some (c', w') \<Longrightarrow> P w'" and "P (snd n)"
  shows "read_loop E rd sz a d n = None"
proof (rule ccontr)
  assume "read_loop E rd sz a d n \<noteq> None"
  then obtain r where r: "read_loop E rd sz a d n = Some r" by blast
  have "E = E \<longrightarrow> rd = rd \<longrightarrow> sz = sz \<longrightarrow> \<not> P (snd n)"
    by (rule read_loop_zero [where P = P, OF _ _ r]) (erule assms(1), erule (1) assms(2))
  then show False using assms(3) by blast
qed

lemma unix_read_closed:
  "closed (fst (outside w)) \<Longrightarrow> unix_read sr x sz w = Some (SuccessErrorable 0, [], w)"
  by (cases "outside w") (simp add: unix_read_def Unix_Read_def)

text \<open>Once a connection has been closed while its bytes are handled, the loop that reads it never ends, and with it
  the event loop of all other connections: a closed closer reports zero bytes read, successfully, for
  ever.  (Handling no bytes is assumed to leave the closer closed, and nothing ever opens one again.)\<close>

lemma closed_connection_hangs_loop:
  assumes "\<forall>c w c' w'. closed (fst (outside w)) \<and> HandleNewBytes E [] 0 (c, w) = Some (c', w') \<longrightarrow> closed (fst (outside w'))"
    and "closed (fst (outside (snd n)))"
  shows "read_loop E (unix_read sr) sz a d n = None \<and>
    handle_events E (unix_read sr) sz ((False, a) # events) d n = None"
proof -
  have "read_loop E (unix_read sr) sz a d n = None"
    by (rule read_loop_never_ends [where P = "\<lambda>w. closed (fst (outside w))"]) (use unix_read_closed assms in blast)+
  then show ?thesis by simp
qed

abbreviation idle_classes :: "('x, unit) classes" where
  "idle_classes \<equiv> sample_classes (\<lambda>_ _ w. Some (frame_error IncompleteFrame_T 0, w)) (\<lambda>_ _ _ w. Some (SuccessErrorable True, w))"

lemma run_pipeline_sample: "run_pipeline (sample_classes rd wr) ps b w = Some (b', w') \<Longrightarrow> w' = w"
  by (induction ps arbitrary: b) (auto simp: sample_classes_def ByteBytePipe_Read_def)

lemma idle_keeps_outside:
  assumes "HandleNewBytes idle_classes page n (c, w) = Some (c', w')"
  shows "outside w' = outside w"
proof -
  obtain w1 b w2 where w: "WriteBytes_at (readerBuffer c) page n w = Some w1"
    "run_pipeline idle_classes (pipeline c) (readerBuffer c) w1 = Some (b, w2)" "w' = w2"
    using assms by (auto simp: HandleNewBytes_def sample_classes_def split: bind_splits)
  then show ?thesis using run_pipeline_sample [OF w(2)] WriteBytes_at_outside [OF w(1)] by (simp add: same_outside_def)
qed

lemma closed_connection_hangs_loop_witness:
  "read_loop idle_classes (unix_read (\<lambda>_ _ k. (-1, EAGAIN, [], k))) 16 3 None
     ([3 \<mapsto> sample_connection 1 0], world0 (UnixReadWriteCloser_new 5\<lparr>closed := True\<rparr>, ())) = None"
proof -
  let ?n = "([3 \<mapsto> sample_connection 1 0], world0 (UnixReadWriteCloser_new 5\<lparr>closed := True\<rparr>, ()))
    :: (unix_closer \<times> unit) network"
  have "\<forall>c w c' w'. closed (fst (outside w)) \<and> HandleNewBytes idle_classes [] 0 (c, w) = Some (c', w') \<longrightarrow>
      closed (fst (outside (w' :: (unix_closer \<times> unit) world)))"
    using idle_keeps_outside by metis
  moreover have "closed (fst (outside (snd ?n)))" by (simp add: world0_simps(3))
  ultimately show ?thesis
    using closed_connection_hangs_loop [of idle_classes ?n "\<lambda>_ _ k. (-1, EAGAIN, [], k)" 16 3 None "[]"] by blast
qed

section \<open>The end of the stream\<close>

text \<open>A world whose closer is closed, or whose socket the peer has closed; \<open>eof\<close> says the latter of a kernel.\<close>

definition drained :: "(int \<Rightarrow> 'k \<Rightarrow> bool) \<Rightarrow> (unix_closer \<times> 'k) world \<Rightarrow> bool" where
  "drained eof w \<longleftrightarrow> (case outside w of (c, k) \<Rightarrow> closed c \<or> eof (socketFileDescriptor c) k)"

lemma unix_read_drained:
  assumes "\<And>fd m k. eof fd k \<Longrightarrow> \<exists>e k1. sr fd m k = (0, e, [], k1) \<and> eof fd k1" and "drained eof w"
  shows "\<exists>w1. unix_read sr x sz w = Some (SuccessErrorable 0, [], w1) \<and> drained eof w1"
proof -
  obtain c k where o: "outside w = (c, k)" by (cases "outside w")
  show ?thesis
  proof (cases "closed c")
    case True
    then show ?thesis using assms(2) unix_read_closed [of w sr x sz] by (simp add: o)
  next
    case False
    then obtain e k1 where "sr (socketFileDescriptor c) sz k = (0, e, [], k1)" "eof (socketFileDescriptor c) k1"
      using assms(1) [of "socketFileDescriptor c" k sz] assms(2) by (auto simp: drained_def o)
    then show ?thesis using False by (simp add: unix_read_def Unix_Read_def drained_def o)
  qed
qed

text \<open>C9.  A peer that closes its end while the socket is being read hangs the event loop: \<open>read\<close> then returns 0
  (\<open>eof\<close>, as documented), the closer reports it as a success, nothing makes a \<open>GracefulDisconnectErrorable\<close> of it, and
  the loop handles no bytes for ever.\<close>

theorem end_of_stream_hangs_loop:
  assumes "\<forall>fd m k. eof fd k \<longrightarrow> (\<exists>e k1. sr fd m k = (0, e, [], k1) \<and> eof fd k1)"
    and "\<forall>c w c' w'. drained eof w \<and> HandleNewBytes E [] 0 (c, w) = Some (c', w') \<longrightarrow> drained eof w'"
    and "eof (socketFileDescriptor (fst (outside (snd n)))) (snd (outside (snd n)))"
  shows "read_loop E (unix_read sr) sz a d n = None \<and>
    handle_events E (unix_read sr) sz ((False, a) # events) d n = None"
proof -
  have start: "drained eof (snd n)" using assms(3) by (cases "outside (snd n)") (simp add: drained_def)
  have zero: "\<exists>w1. unix_read sr x sz w = Some (SuccessErrorable 0, [], w1) \<and> drained eof w1" if "drained eof w" for x w
    using unix_read_drained [OF _ that] assms(1) by blast
  have "read_loop E (unix_read sr) sz a d n = None"
    by (rule read_loop_never_ends [where P = "drained eof"]) (use zero assms(2) start in blast)+
  then show ?thesis by simp
qed

text \<open>A kernel that has one byte left for the reader and then the end of the stream.\<close>

theorem end_of_stream_hangs_loop_witness:
  "read_loop idle_classes (unix_read (\<lambda>_ _ k. (int (length k), 0, k, []))) 16 3 None
     ([3 \<mapsto> sample_connection 1 0], world0 (UnixReadWriteCloser_new 5, [])) = None"
proof -
  let ?n = "([3 \<mapsto> sample_connection 1 0], world0 (UnixReadWriteCloser_new 5, [])) :: (unix_closer \<times> u8 list) network"
  let ?eof = "\<lambda>_ k. k = ([] :: u8 list)"
  have "\<forall>c w c' w'. drained ?eof w \<and> HandleNewBytes idle_classes [] 0 (c, w) = Some (c', w') \<longrightarrow> drained ?eof w'"
  proof (intro allI impI, elim conjE)
    fix c w c' and w' :: "(unix_closer \<times> u8 list) world"
    assume "drained ?eof w" and "HandleNewBytes idle_classes [] 0 (c, w) = Some (c', w')"
    then show "drained ?eof w'" using idle_keeps_outside [of "[]" 0 c w c' w'] by (simp only: drained_def)
  qed
  moreover have "?eof (socketFileDescriptor (fst (outside (snd ?n)))) (snd (outside (snd ?n)))" by (simp add: world0_simps(3))
  ultimately show ?thesis
    using end_of_stream_hangs_loop [of ?eof "\<lambda>_ _ k. (int (length k), 0, k, [])" idle_classes ?n 16 3 None "[]"] by simp
qed

section \<open>The flag without a value\<close>

lemma read_loop_flag:
  "read_loop E rd sz a d n = Some r \<Longrightarrow> fst r = d \<or> (fst r = Some True \<and> fst (snd r) a = None)"
proof (induction rule: read_loop.raw_induct [rotated, consumes 1, case_names step])
  case (step loop E rd sz a d n r)
  from step(2) show ?case
    by (auto simp: delete_connection_def dest!: step(1) split: bind_splits prod.splits if_splits)
qed

text \<open>C28.  When the first event of a round is one of bytes that have arrived, the round is defined only if that connection fails
  and is deleted; the test of \<open>disconnected\<close> then ends the round, and no event behind it is looked at: with edge-triggered
  events their bytes stay unread.\<close>

theorem round_needs_a_disconnect:
  assumes "handle_events E rd sz ((False, a) # events) None n = Some (d, n1)"
  shows "d = Some True \<and> fst n1 a = None \<and>
    handle_events E rd sz ((False, a) # others) None n = Some (d, n1)"
proof -
  obtain d2 n2 where r: "read_loop E rd sz a None n = Some (d2, n2)" "d2 \<noteq> None"
    using assms by (auto split: bind_splits prod.splits)
  then have "d2 = Some True" "fst n2 a = None" using read_loop_flag [OF r(1)] by auto
  then show ?thesis using assms r(1) by auto
qed

text \<open>A read error other than \<open>EAGAIN\<close>; the second connection is not served.\<close>

theorem round_needs_a_disconnect_witness:
  "\<exists>n1. handle_events idle_classes (\<lambda>_ _ w. Some (ErrnoErrorable 0 5, [], w)) 16 [(False, 3), (False, 4)] None
      ([3 \<mapsto> SetOnClose (Some Some) (sample_connection 0 0), 4 \<mapsto> sample_connection 0 0], world0 ()) = Some (Some True, n1) \<and>
    fst n1 3 = None"
proof -
  let ?n = "([3 \<mapsto> SetOnClose (Some Some) (sample_connection 0 0), 4 \<mapsto> sample_connection 0 0], world0 ()) :: unit network"
  let ?rd = "\<lambda>_ _ w. Some (ErrnoErrorable 0 5, [], w)"
  have "errno (world0 ()) = 0" by (simp add: world0_def new_buffer_def split: prod.splits)
  then have "read_loop idle_classes ?rd 16 3 None ?n = Some (Some True, [4 \<mapsto> sample_connection 0 0], world0 ())"
    by (subst read_loop.simps) (auto simp: EAGAIN_def delete_connection_def Connection_delete_def SetOnClose_def
        sample_connection_def sample_classes_def delete_buffer_def)
  then have "handle_events idle_classes ?rd 16 [(False, 3)] None ?n = Some (Some True, [4 \<mapsto> sample_connection 0 0], world0 ())"
    by simp
  from round_needs_a_disconnect [OF this, of "[(False, 4)]"] show ?thesis by blast
qed

end
