(* ===== verification/Ship_Ownership.thy ===== *)
theory Ship_Ownership
  imports Ship_Impl_Edges
begin

text \<open>
  Who owns a page.  A \<open>ByteBufferImpl\<close> owns the pages of its deque: it has them to itself, writes to no other page, deletes
  a page when it drops it and all of them when it is released.  This holds for every sequence of its methods, with any
  arguments, past the points where the counters go wrong; the correctness of the bytes is a
  matter of \<open>bb_ok\<close>, which needs more care.  \<open>buffer_step\<close> is one call of a method, public or private.  Two methods are not
  among them: \<open>WriteBytesAndDelete\<close>, which frees or takes in an array of its caller and loses a page when it does the latter
  (theorem \<open>write_and_delete\<close>), and \<open>Release\<close>, which ends the life of the buffer.  \<open>WriteBytes(ByteBuffer *)\<close> is a
  \<open>ReadBytes\<close> of one buffer and a \<open>WriteBytes\<close> of another.
\<close>

section \<open>One call of a method\<close>

inductive buffer_step :: "bb_state \<Rightarrow> bb_state \<Rightarrow> bool" where
  step_WriteByte: "Impl_WriteByte x s = Some s1 \<Longrightarrow> buffer_step s s1"
| step_WriteBytes: "Impl_WriteBytes input sz s = Some s1 \<Longrightarrow> buffer_step s s1"
| step_ReadByteUnsafe: "Impl_ReadByteUnsafe s = Some (x, s1) \<Longrightarrow> buffer_step s s1"
| step_ReadBytes: "Impl_ReadBytes out sz s = Some (e, s1) \<Longrightarrow> buffer_step s s1"
| step_SkipReadBytes: "Impl_SkipReadBytes count s = Some (e1, s1) \<Longrightarrow> buffer_step s s1"
| step_SkipWriteBytes: "Impl_SkipWriteBytes count s = Some (k, s1) \<Longrightarrow> buffer_step s s1"
| step_ResetReaderIndex: "buffer_step s (Impl_ResetReaderIndex s)"
| step_ResetWriterIndex: "buffer_step s (Impl_ResetWriterIndex s)"
| step_AppendBuffer: "buffer_step s (AppendBuffer s)"
| step_PopBuffer: "PopBuffer s = Some s1 \<Longrightarrow> buffer_step s s1"
| step_TryRefreshReaderBuffer: "TryRefreshReaderBuffer s = Some s1 \<Longrightarrow> buffer_step s s1"
| step_TryRefreshWriterBuffer: "buffer_step s (TryRefreshWriterBuffer s)"

lemma buffer_step_moves: "buffer_step s s1 \<Longrightarrow> page_moves s s1"
  by (induction rule: buffer_step.induct) (auto intro: moves_intros)

lemma buffer_steps_moves: "rtranclp buffer_step s s1 \<Longrightarrow> page_moves s s1"
  by (induction rule: rtranclp_induct) (auto dest: buffer_step_moves intro: moves_trans)

section \<open>Owning pages\<close>

definition pages_owned :: "bb_state \<Rightarrow> bool" where
  "pages_owned s \<longleftrightarrow> (case s of (m, b) \<Rightarrow>
     buffers b \<noteq> [] \<and> distinct (buffers b) \<and>
     (\<forall>a \<in> set (buffers b). \<exists>p. pages m a = Some p \<and> length p = singleCapacity b) \<and>
     (\<forall>a \<in> dom (pages m). a < next_page m) \<and>
     currentReadBuffer b = hd (buffers b) \<and> currentWriteBuffer b = last (buffers b))"

text \<open>The pages of everybody else, with their bytes.\<close>

definition foreign_pages :: "bb_state \<Rightarrow> nat \<rightharpoonup> u8 list" where
  "foreign_pages s = pages (fst s) |` (- set (buffers (snd s)))"

lemma pages_ok_owned: "pages_ok m b \<Longrightarrow> pages_owned (m, b)"
  by (auto simp: pages_ok_def pages_owned_def)

lemma owned_new: "mem_ok m \<Longrightarrow> pages_owned (ByteBufferImpl_new cap m)"
  by (auto simp: ByteBufferImpl_new_def pages_owned_def new_page_def mem_ok_def less_Suc_eq)

lemma foreign_new: "mem_ok m \<Longrightarrow> foreign_pages (ByteBufferImpl_new cap m) = pages m"
proof -
  assume "mem_ok m"
  then have "pages m (next_page m) = None" by (fastforce simp: mem_ok_def)
  then show ?thesis by (auto simp: ByteBufferImpl_new_def foreign_pages_def new_page_def restrict_map_def fun_eq_iff)
qed

lemma owned_counters [simp]:
  "pages_owned (m, b\<lparr>localReaderIndex := i, localWriterIndex := j, readableBytes := n\<rparr>) = pages_owned (m, b)"
  "foreign_pages (m, b\<lparr>localReaderIndex := i, localWriterIndex := j, readableBytes := n\<rparr>) = foreign_pages (m, b)"
  by (simp_all add: pages_owned_def foreign_pages_def)

lemma owned_store:
  assumes "pages_owned (m, b)" and "poke (currentWriteBuffer b) off bs m = Some m1"
  shows "pages_owned (m1, b)" and "foreign_pages (m1, b) = foreign_pages (m, b)"
proof -
  have w: "currentWriteBuffer b \<in> set (buffers b)" using assms(1) by (simp add: pages_owned_def)
  obtain p q where q: "pages m (currentWriteBuffer b) = Some p" "overwrite off bs p = Some q"
    "m1 = m\<lparr>pages := (pages m)(currentWriteBuffer b \<mapsto> q)\<rparr>"
    using assms(2) by (auto simp: poke_def split: bind_splits)
  moreover have "length q = singleCapacity b"
  proof -
    obtain p' where "pages m (currentWriteBuffer b) = Some p'" "length p' = singleCapacity b"
      using assms(1) w by (auto simp only: pages_owned_def prod.case)
    then show ?thesis using q(1) length_overwrite [OF q(2)] by simp
  qed
  ultimately show "pages_owned (m1, b)"
    using assms(1) by (auto simp: pages_owned_def)
  show "foreign_pages (m1, b) = foreign_pages (m, b)"
    using w by (auto simp: q(3) foreign_pages_def restrict_map_def fun_eq_iff)
qed

lemma owned_append:
  assumes "pages_owned s"
  shows "pages_owned (AppendBuffer s)" and "foreign_pages (AppendBuffer s) = foreign_pages s"
proof -
  obtain m b where s: "s = (m, b)" by (cases s)
  have fresh: "pages m (next_page m) = None" "next_page m \<notin> set (buffers b)"
    using assms by (fastforce simp: s pages_owned_def)+
  then show "pages_owned (AppendBuffer s)"
    using assms by (auto simp: s pages_owned_def AppendBuffer_def new_page_def less_Suc_eq)
  show "foreign_pages (AppendBuffer s) = foreign_pages s"
    using fresh by (auto simp: s foreign_pages_def AppendBuffer_def new_page_def restrict_map_def fun_eq_iff)
qed

lemma owned_pop:
  assumes "pages_owned s" and "PopBuffer s = Some s1"
  shows "pages_owned s1" and "foreign_pages s1 = foreign_pages s"
proof -
  obtain m b where s: "s = (m, b)" by (cases s)
  obtain a front rest where p: "buffers b = a # front # rest" "pages m a \<noteq> None"
    "s1 = (m\<lparr>pages := (pages m)(a := None)\<rparr>,
           b\<lparr>localReaderIndex := 0, buffers := front # rest, currentReadBuffer := front\<rparr>)"
    using assms(2) by (auto simp: s PopBuffer_def delete_page_def split: list.splits bind_splits option.splits)
  show "pages_owned s1" using assms(1) by (auto simp: s p pages_owned_def)
  show "foreign_pages s1 = foreign_pages s"
    using assms(1) by (auto simp: s p pages_owned_def foreign_pages_def restrict_map_def fun_eq_iff)
qed

lemma owned_move:
  "page_move s s1 \<Longrightarrow> pages_owned s \<Longrightarrow> pages_owned s1 \<and> foreign_pages s1 = foreign_pages s"
  by (induction rule: page_move.induct) (simp_all add: owned_store owned_append owned_pop)

lemma owned_moves:
  assumes "page_moves s s1" and "pages_owned s"
  shows "pages_owned s1" and "foreign_pages s1 = foreign_pages s"
proof -
  have "pages_owned s1 \<and> foreign_pages s1 = foreign_pages s"
    using assms(1) by (rule moves_invariant [where P = "\<lambda>t. pages_owned t \<and> foreign_pages t = foreign_pages s"])
      (use assms(2) owned_move in auto)
  then show "pages_owned s1" "foreign_pages s1 = foreign_pages s" by simp_all
qed

text \<open>\<open>Release\<close> gives everything back.\<close>

lemma owned_release:
  assumes "pages_owned (m, b)"
  shows "Impl_Release (m, b) = Some (m\<lparr>pages := foreign_pages (m, b)\<rparr>, b\<lparr>buffers := []\<rparr>)"
proof -
  have "distinct (buffers b)" "set (buffers b) \<subseteq> dom (pages m)" using assms by (auto simp: pages_owned_def)
  from release_pages_ok [OF this] show ?thesis by (simp add: Impl_Release_def foreign_pages_def)
qed

text \<open>C35.  The shape of a buffer is kept by every method but \<open>WriteBytesAndDelete\<close> and \<open>Release\<close>, whatever its arguments: a deque of
  distinct live pages, all of \<open>singleCapacity\<close> bytes, read at its front and written at its back.  The pages of others keep
  their bytes.\<close>

theorem methods_keep_pages:
  assumes "buffer_step s s1" and "pages_owned s"
  shows "pages_owned s1 \<and> foreign_pages s1 = foreign_pages s"
  using owned_moves [OF buffer_step_moves [OF assms(1)] assms(2)] by simp

theorem methods_keep_pages_witness:
  "pages_owned (AppendBuffer (ByteBufferImpl_new 2 mem0)) \<and>
   foreign_pages (AppendBuffer (ByteBufferImpl_new 2 mem0)) = Map.empty"
proof -
  have "mem_ok mem0" by (simp add: mem0_def mem_ok_def)
  note new = owned_new [OF this, of 2] foreign_new [OF this, of 2]
  show ?thesis
    using methods_keep_pages [OF step_AppendBuffer new(1)] new(2) by (simp add: mem0_def)
qed



end
