(* ===== verification/Ship_World_Ownership.thy ===== *)
theory Ship_World_Ownership
  imports Ship_World Ship_Ownership
begin

text \<open>
  Who owns what among the objects of the network part.  \<open>world_move\<close> is everything the library does to the store of pages
  and the store of buffers: constructors, destructors, methods of one buffer, the thread's transfer array.  Under every
  sequence of these the pages stay divided among the live buffers: each page has one owner, so none leaks and none
  is shared.
\<close>

section \<open>Moves of the world\<close>

inductive world_move :: "'x world \<Rightarrow> 'x world \<Rightarrow> bool" where
  change_rest: "mem w1 = mem w \<Longrightarrow> byte_buffers w1 = byte_buffers w \<Longrightarrow> next_object w \<le> next_object w1 \<Longrightarrow> world_move w w1"
| fill_transfer: "world_move w (w\<lparr>mem := (mem w)\<lparr>byteBufferWriteBuffer := f\<rparr>\<rparr>)"
| make_buffer: "world_move w (snd (new_buffer cap w))"
| drop_buffer: "delete_buffer a w = Some w1 \<Longrightarrow> world_move w w1"
| call_buffer: "byte_buffers w a = Some b \<Longrightarrow> page_moves (mem w, b) (m1, b1) \<Longrightarrow>
    world_move w (w\<lparr>mem := m1, byte_buffers := (byte_buffers w)(a \<mapsto> b1)\<rparr>)"

abbreviation world_moves :: "'x world \<Rightarrow> 'x world \<Rightarrow> bool" where
  "world_moves \<equiv> rtranclp world_move"

named_theorems world_intros \<open>operations that are sequences of world moves\<close>

lemma world_move_moves: "world_move w w1 \<Longrightarrow> world_moves w w1"
  by (rule r_into_rtranclp)

lemma moves_rest [world_intros]:
  "world_moves w (w\<lparr>outside := x\<rparr>)" "world_moves w (w\<lparr>errno := n\<rparr>)"
  by (auto intro!: world_move_moves change_rest)

lemma moves_new_buffer [world_intros]: "new_buffer cap w = (a, w1) \<Longrightarrow> world_moves w w1"
  using make_buffer [of w cap] by (auto intro: world_move_moves)

lemma moves_delete_buffer [world_intros]: "delete_buffer a w = Some w1 \<Longrightarrow> world_moves w w1"
  by (blast intro: world_move_moves drop_buffer)

lemma moves_with_buffer [world_intros]:
  assumes "with_buffer a f w = Some (r, w1)" and "\<And>s r s1. f s = Some (r, s1) \<Longrightarrow> page_moves s s1"
  shows "world_moves w w1"
  using assms by (auto simp: with_buffer_def split: bind_splits intro!: world_move_moves call_buffer)

lemma moves_update_buffer [world_intros]:
  assumes "update_buffer a f w = Some w1" and "\<And>s s1. f s = Some s1 \<Longrightarrow> page_moves s s1"
  shows "world_moves w w1"
  using assms by (auto simp: update_buffer_def split: bind_splits intro!: world_move_moves call_buffer)

lemma moves_ReadByteUnsafe_at [world_intros]: "ReadByteUnsafe_at a w = Some (x, w1) \<Longrightarrow> world_moves w w1"
  by (auto simp: ReadByteUnsafe_at_def intro: moves_intros elim!: moves_with_buffer)

lemma moves_WriteBytes_at [world_intros]: "WriteBytes_at a bs n w = Some w1 \<Longrightarrow> world_moves w w1"
  by (auto simp: WriteBytes_at_def intro: moves_intros elim!: moves_update_buffer)

text \<open>\<open>WriteBytes(ByteBuffer*, size_t)\<close> is a read of one buffer, a change of the transfer array and a write of the other.\<close>

lemma moves_WriteBytes_from [world_intros]:
  assumes "WriteBytes_from a from n w = Some w'"
  shows "world_moves w w'"
proof -
  obtain self input m3 self1 input1 where b: "byte_buffers w a = Some self" "byte_buffers w from = Some input" "a \<noteq> from"
    and t: "Impl_WriteBytes_buffer n (mem w, self, input) = Some (m3, self1, input1)"
    and w': "w' = w\<lparr>mem := m3, byte_buffers := (byte_buffers w)(a \<mapsto> self1, from \<mapsto> input1)\<rparr>"
    using assms by (auto simp: WriteBytes_from_def split: bind_splits if_splits)
  obtain e m1 f where r: "Impl_ReadBytes (map (byteBufferWriteBuffer (mem w)) [0..<n]) n (mem w, input) = Some (e, m1, input1)"
    and s: "Impl_WriteBytes (map f [0..<n]) n (m1\<lparr>byteBufferWriteBuffer := f\<rparr>, self) = Some (m3, self1)"
  proof -
    from t obtain e m1 where r: "Impl_ReadBytes (map (byteBufferWriteBuffer (mem w)) [0..<n]) n (mem w, input) = Some (e, m1, input1)"
      and s: "Impl_WriteBytes (map (byteBufferWriteBuffer (if IsSuccess e
          then m1\<lparr>byteBufferWriteBuffer := \<lambda>i. if i < n then GetValue e ! i else byteBufferWriteBuffer m1 i\<rparr> else m1)) [0..<n]) n
        (if IsSuccess e then m1\<lparr>byteBufferWriteBuffer := \<lambda>i. if i < n then GetValue e ! i else byteBufferWriteBuffer m1 i\<rparr>
         else m1, self) = Some (m3, self1)"
      by (auto simp: Impl_WriteBytes_buffer_def split: bind_splits if_splits)
    show thesis
    proof (cases "IsSuccess e")
      case True
      then show thesis using s by (intro that [OF r]) simp
    next
      case False
      have "m1 = m1\<lparr>byteBufferWriteBuffer := byteBufferWriteBuffer m1\<rparr>" by simp
      then show thesis using s False that [OF r, of "byteBufferWriteBuffer m1"] by simp
    qed
  qed
  let ?w1 = "w\<lparr>mem := m1, byte_buffers := (byte_buffers w)(from \<mapsto> input1)\<rparr>"
  let ?w2 = "?w1\<lparr>mem := (mem ?w1)\<lparr>byteBufferWriteBuffer := f\<rparr>\<rparr>"
  have "world_move w ?w1" using b(2) moves_ReadBytes [OF r] by (rule call_buffer)
  moreover have "world_move ?w1 ?w2" by (rule fill_transfer)
  moreover have "world_move ?w2 (?w2\<lparr>mem := m3, byte_buffers := (byte_buffers ?w2)(a \<mapsto> self1)\<rparr>)"
    by (rule call_buffer [where b = self]) (use b s in \<open>simp_all add: moves_WriteBytes\<close>)
  moreover have "?w2\<lparr>mem := m3, byte_buffers := (byte_buffers ?w2)(a \<mapsto> self1)\<rparr> = w'"
    using b(3) by (simp add: w' fun_upd_twist)
  ultimately show ?thesis by (metis converse_rtranclp_into_rtranclp r_into_rtranclp)
qed

section \<open>The pages are divided among the buffers\<close>

definition owned_pages :: "byte_buffer_impl option \<Rightarrow> nat set" where
  "owned_pages ob = (case ob of None \<Rightarrow> {} | Some b \<Rightarrow> set (buffers b))"

lemma owned_pages_simps [simp]: "owned_pages None = {}" "owned_pages (Some b) = set (buffers b)"
  by (simp_all add: owned_pages_def)

definition world_owned :: "'x world \<Rightarrow> bool" where
  "world_owned w \<longleftrightarrow>
     mem_ok (mem w) \<and>
     (\<forall>a b. byte_buffers w a = Some b \<longrightarrow> pages_owned (mem w, b) \<and> a < next_object w) \<and>
     (\<forall>a a'. a \<noteq> a' \<longrightarrow> owned_pages (byte_buffers w a) \<inter> owned_pages (byte_buffers w a') = {}) \<and>
     (\<forall>x \<in> dom (pages (mem w)). \<exists>a. x \<in> owned_pages (byte_buffers w a))"

lemma pages_owned_dom: "pages_owned (m, b) \<Longrightarrow> x \<in> set (buffers b) \<Longrightarrow> \<exists>p. pages m x = Some p"
  by (auto simp: pages_owned_def)

text \<open>Giving one buffer another set of pages, the pages of all others being left alone.\<close>

lemma owned_replace:
  assumes own: "world_owned w" and ok: "mem_ok m1"
    and rest: "pages m1 |` (- owned_pages ob) = pages (mem w) |` (- owned_pages (byte_buffers w a))"
    and new: "\<And>b. ob = Some b \<Longrightarrow> pages_owned (m1, b) \<and> a < k" and k: "next_object w \<le> k"
  shows "world_owned (w\<lparr>mem := m1, next_object := k, byte_buffers := (byte_buffers w)(a := ob)\<rparr>)"
proof -
  have other: "x \<notin> owned_pages ob \<and> pages m1 x = pages (mem w) x"
    if "c \<noteq> a" "byte_buffers w c = Some b" "x \<in> set (buffers b)" for c b x
  proof -
    have "x \<notin> owned_pages (byte_buffers w a)" "pages_owned (mem w, b)"
      using own that by (fastforce simp: world_owned_def)+
    then show ?thesis
      using fun_cong [OF rest, of x] that(3) pages_owned_dom [of "mem w" b x]
      by (auto simp: restrict_map_def split: if_splits)
  qed
  have all: "pages_owned (m1, b) \<and> c < k" if "((byte_buffers w)(a := ob)) c = Some b" for c b
  proof (cases "c = a")
    case True
    then show ?thesis using that new by simp
  next
    case False
    then have c: "byte_buffers w c = Some b" using that by simp
    then have "pages_owned (mem w, b)" "c < next_object w" using own by (auto simp: world_owned_def)
    then show ?thesis using other [OF False c] ok k by (auto simp: pages_owned_def mem_ok_def)
  qed
  have apart: "owned_pages (((byte_buffers w)(a := ob)) c) \<inter> owned_pages (((byte_buffers w)(a := ob)) c') = {}"
    if "c \<noteq> c'" for c c'
  proof -
    have "owned_pages (byte_buffers w d) \<inter> owned_pages ob = {}" if "d \<noteq> a" for d
      using other [OF that] by (cases "byte_buffers w d") auto
    then show ?thesis using own that by (cases "c = a"; cases "c' = a") (auto simp: world_owned_def Int_commute)
  qed
  have none_lost: "\<exists>c. x \<in> owned_pages (((byte_buffers w)(a := ob)) c)" if "x \<in> dom (pages m1)" for x
    using that
  proof (cases "x \<in> owned_pages ob")
    case True
    then show ?thesis by (intro exI [of _ a]) simp
  next
    case False
    have "pages m1 x = (pages (mem w) |` (- owned_pages (byte_buffers w a))) x"
      using False fun_cong [OF rest, of x] by simp
    moreover obtain p where "pages m1 x = Some p" using \<open>x \<in> dom (pages m1)\<close> by blast
    ultimately have "x \<in> dom (pages (mem w))" "x \<notin> owned_pages (byte_buffers w a)"
      by (cases "x \<in> owned_pages (byte_buffers w a)"; auto simp: restrict_map_def dest: sym)+
    moreover obtain c where c: "x \<in> owned_pages (byte_buffers w c)"
      using own calculation unfolding world_owned_def by blast
    ultimately have "c \<noteq> a" by metis
    with c have "x \<in> owned_pages (((byte_buffers w)(a := ob)) c)" by simp
    then show ?thesis ..
  qed
  show ?thesis
    using ok all apart none_lost by (simp add: world_owned_def)
qed

lemma mem_ok_of_owned: "pages_owned (m, b) \<Longrightarrow> mem_ok m"
  by (simp add: pages_owned_def mem_ok_def)

lemma owned_world_move:
  assumes "world_move w w1" and "world_owned w"
  shows "world_owned w1"
  using assms
proof (induction rule: world_move.induct)
  case (change_rest w1 w)
  then show ?case by (fastforce simp: world_owned_def)
next
  case (fill_transfer w f)
  then show ?case by (simp add: world_owned_def mem_ok_def pages_owned_def)
next
  case (make_buffer w cap)
  obtain m1 b where n: "ByteBufferImpl_new cap (mem w) = (m1, b)" by (cases "ByteBufferImpl_new cap (mem w)")
  have ok: "mem_ok (mem w)" and fresh: "byte_buffers w (next_object w) = None"
    using make_buffer by (auto simp: world_owned_def) (metis less_irrefl not_None_eq)
  have "world_owned (w\<lparr>mem := m1, next_object := next_object w + 1,
      byte_buffers := (byte_buffers w)(next_object w := Some b)\<rparr>)"
    using owned_new [OF ok, of cap] foreign_new [OF ok, of cap]
    by (intro owned_replace [OF make_buffer]) (auto simp: n fresh foreign_pages_def restrict_map_def fun_eq_iff
        intro: mem_ok_of_owned)
  then show ?case by (simp add: new_buffer_def n)
next
  case (drop_buffer a w w1)
  show ?case
  proof (cases "a = 0")
    case True
    then show ?thesis using drop_buffer by (simp add: delete_buffer_def)
  next
    case False
    then obtain b m1 b1 where b: "byte_buffers w a = Some b" and r: "Impl_Release (mem w, b) = Some (m1, b1)"
      and w1: "w1 = w\<lparr>mem := m1, byte_buffers := (byte_buffers w)(a := None)\<rparr>"
      using drop_buffer(1) by (auto simp: delete_buffer_def split: bind_splits)
    have own: "pages_owned (mem w, b)" using drop_buffer(2) b by (simp add: world_owned_def)
    then have m1: "m1 = (mem w)\<lparr>pages := foreign_pages (mem w, b)\<rparr>" using owned_release r by simp
    have "mem_ok m1" using mem_ok_of_owned [OF own] by (auto simp: m1 mem_ok_def foreign_pages_def restrict_map_def split: if_splits)
    then have "world_owned (w\<lparr>mem := m1, next_object := next_object w, byte_buffers := (byte_buffers w)(a := None)\<rparr>)"
      by (intro owned_replace [OF drop_buffer(2)]) (simp_all add: b m1 foreign_pages_def)
    then show ?thesis by (simp add: w1)
  qed
next
  case (call_buffer w a b m1 b1)
  have own: "pages_owned (mem w, b)" and a: "a < next_object w"
    using call_buffer(1,3) by (simp_all add: world_owned_def)
  note kept = owned_moves [OF call_buffer(2) own]
  have "world_owned (w\<lparr>mem := m1, next_object := next_object w, byte_buffers := (byte_buffers w)(a := Some b1)\<rparr>)"
    using kept a by (intro owned_replace [OF call_buffer(3)])
      (auto simp: call_buffer(1) foreign_pages_def intro: mem_ok_of_owned)
  then show ?case by simp
qed

lemma owned_world_moves: "world_moves w w1 \<Longrightarrow> world_owned w \<Longrightarrow> world_owned w1"
  by (induction rule: rtranclp_induct) (auto intro: owned_world_move)

text \<open>A buffer that is gone stays gone: addresses are not handed out twice.\<close>

definition gone :: "nat \<Rightarrow> 'x world \<Rightarrow> bool" where
  "gone a w \<longleftrightarrow> byte_buffers w a = None \<and> a < next_object w"

lemma gone_move: "world_move w w1 \<Longrightarrow> gone a w \<Longrightarrow> gone a w1"
  by (induction rule: world_move.induct)
    (auto simp: gone_def new_buffer_def delete_buffer_def split: prod.splits if_splits bind_splits)

lemma gone_moves: "world_moves w w1 \<Longrightarrow> gone a w \<Longrightarrow> gone a w1"
  by (induction rule: rtranclp_induct) (auto intro: gone_move)

lemma delete_buffer_gone:
  assumes "delete_buffer a w = Some w1" and "world_owned w" and "a \<noteq> 0"
  shows "gone a w1"
  using assms by (auto simp: delete_buffer_def gone_def world_owned_def split: bind_splits)

end
