(* ===== verification/Ship_Lifecycle.thy ===== *)
theory Ship_Lifecycle
  imports Ship_Epoll Ship_World_Ownership "HOL-Library.Multiset"
begin

text \<open>
  The life of a connection as a state machine, and the loop that serves many of them.  \<open>conn_step\<close> is one call of a public
  method of \<open>Connection\<close>.  What the classes outside the library may do is the contract \<open>library_classes\<close>: they
  use buffers through their methods, and the connection they are handed through its own.  Under it every
  step keeps the division of the pages among the buffers and the numbering of the handlers' list nodes, so
  the iterators of \<open>HandleNewBytes\<close> stay valid; \<open>library_loop\<close> extends it to the event loop.
\<close>

section \<open>What a connection keeps\<close>

definition nodes_ok :: "'x connection \<Rightarrow> bool" where
  "nodes_ok c \<longleftrightarrow> distinct (map fst (packetHandlers c)) \<and>
     set (map fst (packetHandlers c)) = {..<length (packetHandlers c)}"

definition onclose_ok :: "'x connection \<Rightarrow> bool" where
  "onclose_ok c \<longleftrightarrow> (\<forall>f w w1. onClose c = Some f \<longrightarrow> f w = Some w1 \<longrightarrow> world_moves w w1)"

definition conn_keeps :: "'x conn_state \<Rightarrow> 'x conn_state \<Rightarrow> bool" where
  "conn_keeps s s1 \<longleftrightarrow> world_moves (snd s) (snd s1) \<and>
     (nodes_ok (fst s) \<longrightarrow> nodes_ok (fst s1)) \<and> (onclose_ok (fst s) \<longrightarrow> onclose_ok (fst s1)) \<and>
     set (map fst (packetHandlers (fst s))) \<subseteq> set (map fst (packetHandlers (fst s1))) \<and>
     readerBuffer (fst s1) = readerBuffer (fst s) \<and> writerBuffer (fst s1) = writerBuffer (fst s)"

lemma keeps_refl [simp]: "conn_keeps s s"
  by (simp add: conn_keeps_def)

lemma keeps_trans: "conn_keeps s s1 \<Longrightarrow> conn_keeps s1 s2 \<Longrightarrow> conn_keeps s s2"
  by (auto simp: conn_keeps_def)

lemma keeps_world: "world_moves w w1 \<Longrightarrow> conn_keeps (c, w) (c, w1)"
  by (simp add: conn_keeps_def)

text \<open>A step of the world followed by more.\<close>

lemma keeps_after: "world_moves w w1 \<Longrightarrow> conn_keeps (c, w1) s \<Longrightarrow> conn_keeps (c, w) s"
  by (blast intro: keeps_trans keeps_world)

lemma keeps_bind:
  assumes "Option.bind r f = Some s2" and "\<And>a s1. r = Some (a, s1) \<Longrightarrow> conn_keeps s s1"
    and "\<And>a s1. f (a, s1) = Some s2 \<Longrightarrow> conn_keeps s1 s2"
  shows "conn_keeps s s2"
  using assms by (cases r) (auto intro: keeps_trans)

lemma keeps_fields:
  "conn_keeps (c, w) (c\<lparr>pipeline := ps\<rparr>, w)" "conn_keeps (c, w) (c\<lparr>bytePacketPipe := p\<rparr>, w)"
  "conn_keeps (c, w) (c\<lparr>mainPacketHandler := h\<rparr>, w)"
  by (simp_all add: conn_keeps_def nodes_ok_def onclose_ok_def)

lemma nodes_insert:
  assumes "nodes_ok c" and "mset hs = add_mset (length (packetHandlers c), h) (mset (packetHandlers c))"
  shows "nodes_ok (c\<lparr>packetHandlers := hs\<rparr>)"
proof -
  have "mset (map fst hs) = mset (length (packetHandlers c) # map fst (packetHandlers c))"
    using assms(2) by simp
  then have d: "distinct (map fst hs) = distinct (length (packetHandlers c) # map fst (packetHandlers c))"
    and s: "set (map fst hs) = set (length (packetHandlers c) # map fst (packetHandlers c))"
    using mset_eq_imp_distinct_iff mset_eq_setD by blast+
  have "length hs = length (packetHandlers c) + 1" using arg_cong [OF assms(2), of size] by simp
  then show ?thesis using assms(1) d s by (auto simp: nodes_ok_def lessThan_Suc)
qed

lemma keeps_handlers:
  assumes "mset hs = add_mset (length (packetHandlers c), h) (mset (packetHandlers c)) \<or> hs = packetHandlers c"
  shows "conn_keeps (c, w) (c\<lparr>packetHandlers := hs\<rparr>, w)"
  using assms
proof
  assume h: "mset hs = add_mset (length (packetHandlers c), h) (mset (packetHandlers c))"
  then have "set hs = insert (length (packetHandlers c), h) (set (packetHandlers c))" by (metis set_mset_add_mset_insert set_mset_mset)
  then show ?thesis using nodes_insert [OF _ h] by (auto simp: conn_keeps_def onclose_ok_def)
qed (simp add: conn_keeps_def onclose_ok_def nodes_ok_def)

lemma append_after_mset: "append_after f k x 0 xs = Some ys \<Longrightarrow> mset ys = add_mset x (mset xs) \<or> ys = xs"
  by (auto simp: append_after_eq split: list.splits if_splits)

lemma prepend_before_mset: "prepend_before f k x 0 xs = Some ys \<Longrightarrow> mset ys = add_mset x (mset xs) \<or> ys = xs"
  by (auto simp: prepend_before_eq split: list.splits if_splits)

section \<open>The contract of the classes outside\<close>

locale library_classes =
  fixes E :: "('x, 'p) classes"
  assumes pipe_read_law: "pipe_read E p a w = Some (e1, w1) \<Longrightarrow> world_moves w w1"
    and pipe_write_law: "pipe_write E p a w = Some (e1, w1) \<Longrightarrow> world_moves w w1"
    and packet_read_law: "packet_read E p a w = Some (e2, w1) \<Longrightarrow> world_moves w w1"
    and packet_write_law: "packet_write E p a pk w = Some (e3, w1) \<Longrightarrow> world_moves w w1"
    and closer_write_law: "closer_write E p a w = Some (e4, w1) \<Longrightarrow> world_moves w w1"
    and closer_close_law: "closer_close E p w = Some w1 \<Longrightarrow> world_moves w w1"
    and delete_law: "delete_object E p w = Some w1 \<Longrightarrow> world_moves w w1"
    and callback_law: "Handle (callback_table E) k h packet s = Some (e3, s1) \<Longrightarrow> conn_keeps s s1"
begin

lemma close_keeps: "close_connection E s = Some s1 \<Longrightarrow> conn_keeps s s1"
  by (cases s) (auto simp: close_connection_def intro: keeps_world closer_close_law)

lemma run_handler_keeps: "run_handler E h packet s = Some (e, s1) \<Longrightarrow> conn_keeps s s1"
  by (auto simp: run_handler_def intro: callback_law)

lemma run_pipeline_moves: "run_pipeline E ps b w = Some (b1, w1) \<Longrightarrow> world_moves w w1"
proof (induction ps arbitrary: b w)
  case Nil
  then show ?case by simp
next
  case (Cons p ps)
  then obtain e w2 where "pipe_read E p b w = Some (e, w2)" "run_pipeline E ps (GetReaderBuffer (byte_pipe E p)) w2 = Some (b1, w1)"
    by (auto split: bind_splits)
  then show ?case using Cons.IH pipe_read_law by (metis rtranclp_trans)
qed

lemma handlers_loop_keeps:
  "handlers_loop E' packet it s = Some s1 \<Longrightarrow> E' = E \<longrightarrow> conn_keeps s s1"
proof (induction rule: handlers_loop.raw_induct [rotated, consumes 1, case_names step])
  case (step loop E' packet it s r)
  show ?case
  proof (intro impI)
    assume E: "E' = E"
    show "conn_keeps s r"
    proof (cases it)
      case None
      then show ?thesis using step(2) by simp
    next
      case (Some n)
      then obtain item where "do { (wasHandled, s1) \<leftarrow> run_handler E item packet s;
          s2 \<leftarrow> (if \<not> IsSuccess wasHandled then close_connection E s1 else Some s1);
          if GetValue wasHandled then Some s2
          else do { it1 \<leftarrow> next_node n (packetHandlers (fst s2)); loop E packet it1 s2 } } = Some r"
        using step(2) E by (cases "map_of (packetHandlers (fst s)) n") auto
      then show ?thesis
      proof (rule keeps_bind [OF _ run_handler_keeps])
        fix e s1
        assume "(case (e, s1) of (wasHandled, s1) \<Rightarrow> do { s2 \<leftarrow> (if \<not> IsSuccess wasHandled then close_connection E s1 else Some s1);
          if GetValue wasHandled then Some s2
          else do { it1 \<leftarrow> next_node n (packetHandlers (fst s2)); loop E packet it1 s2 } }) = Some r"
        then obtain s2 where s2: "(if \<not> IsSuccess e then close_connection E s1 else Some s1) = Some s2"
          and rest: "(if GetValue e then Some s2
            else do { it1 \<leftarrow> next_node n (packetHandlers (fst s2)); loop E packet it1 s2 }) = Some r"
          by (auto elim: bind_SomeE)
        have "conn_keeps s1 s2" using s2 by (auto split: if_splits intro: close_keeps)
        moreover have "conn_keeps s2 r"
          using rest E by (auto split: if_splits elim!: bind_SomeE intro: step(1) [rule_format])
        ultimately show "conn_keeps s1 r" by (rule keeps_trans)
      qed
    qed
  qed
qed

lemma HandleNewBytes_keeps:
  assumes "HandleNewBytes E page n s = Some s1"
  shows "conn_keeps s s1"
proof -
  obtain c w where s: "s = (c, w)" by (cases s)
  then obtain w1 a w2 packet w3 where r: "WriteBytes_at (readerBuffer c) page n w = Some w1"
    "run_pipeline E (pipeline c) (readerBuffer c) w1 = Some (a, w2)"
    "packet_read E (bytePacketPipe c) a w2 = Some (packet, w3)"
    and rest: "(if IsSuccess packet
             then do { (wasHandled, s4) \<leftarrow> run_handler E (mainPacketHandler c) (GetValue packet) (c, w3);
                       if \<not> IsSuccess wasHandled then close_connection E s4
                       else if \<not> GetValue wasHandled
                       then handlers_loop E (GetValue packet) (first_node (packetHandlers (fst s4))) s4
                       else Some s4 }
             else if GetTypeOrdinal packet \<noteq> IncompleteFrame_T then close_connection E (c, w3)
             else Some (c, w3)) = Some s1"
    using assms by (auto simp: HandleNewBytes_def split: bind_splits)
  have "world_moves w w3"
    using moves_WriteBytes_at [OF r(1)] run_pipeline_moves [OF r(2)] packet_read_law [OF r(3)] by simp
  moreover have "conn_keeps (c, w3) s1"
    using rest
    by (auto split: if_splits elim!: keeps_bind [OF _ run_handler_keeps]
        intro: close_keeps handlers_loop_keeps [rule_format, OF _ refl])
  ultimately show ?thesis unfolding s by (rule keeps_after)
qed

lemma WriteDirect_keeps: "WriteDirect a s = Some s1 \<Longrightarrow> conn_keeps s s1"
  by (cases s) (auto simp: WriteDirect_def intro: keeps_world moves_WriteBytes_from)

lemma write_pipeline_keeps: "write_pipeline E ps a s = Some (b, s1) \<Longrightarrow> conn_keeps s s1"
proof (induction ps arbitrary: a s)
  case Nil
  then show ?case by simp
next
  case (Cons p ps)
  obtain c w where s: "s = (c, w)" by (cases s)
  obtain e w1 where r: "pipe_write E p a w = Some (e, w1)"
    and rest: "(if \<not> IsSuccess e then do { s2 \<leftarrow> close_connection E (c, w1); Some (None, s2) }
        else if GetValue e = 0 then Some (None, (c, w1))
        else write_pipeline E ps (GetWriterBuffer (byte_pipe E p)) (c, w1)) = Some (b, s1)"
    using Cons.prems s by (cases "pipe_write E p a w") (auto cong: if_cong)
  have "conn_keeps (c, w1) s1"
    using rest by (auto split: if_splits elim!: bind_SomeE intro: Cons.IH close_keeps)
  then show ?case unfolding s by (rule keeps_after [OF pipe_write_law [OF r]])
qed

lemma Write_keeps:
  assumes "Connection_Write E pk s = Some s1"
  shows "conn_keeps s s1"
proof -
  obtain c w where s: "s = (c, w)" by (cases s)
  let ?a = "connectionWriteBuffer w"
  obtain w1 w2 e w3 where r: "update_buffer ?a (\<lambda>b. Some (Impl_ResetReaderIndex b)) w = Some w1"
    "update_buffer ?a (\<lambda>b. Some (Impl_ResetWriterIndex b)) w1 = Some w2"
    "packet_write E (bytePacketPipe c) ?a pk w2 = Some (e, w3)"
    and rest: "(if \<not> IsSuccess e then close_connection E (c, w3)
             else if GetValue e
             then do { (buffer, s4) \<leftarrow> write_pipeline E (rev (pipeline c)) ?a (c, w3);
                       (case buffer of None \<Rightarrow> Some s4 | Some b \<Rightarrow> WriteDirect b s4) }
             else Some (c, w3)) = Some s1"
    using assms s by (auto simp: Connection_Write_def split: bind_splits)
  have "world_moves w w1" "world_moves w1 w2"
    by (rule moves_update_buffer [OF r(1)], auto intro: moves_intros, rule moves_update_buffer [OF r(2)], auto intro: moves_intros)
  then have "world_moves w w3" using packet_write_law [OF r(3)] by simp
  moreover have "conn_keeps (c, w3) s1"
    using rest
    by (auto split: if_splits option.splits elim!: keeps_bind [OF _ write_pipeline_keeps]
        intro: close_keeps WriteDirect_keeps)
  ultimately show ?thesis unfolding s by (rule keeps_after)
qed

lemma Flush_keeps: "Connection_Flush E s = Some s1 \<Longrightarrow> conn_keeps s s1"
  by (cases s) (auto simp: Connection_Flush_def split: bind_splits intro: keeps_world closer_write_law)

end

section \<open>The state machine of a connection\<close>

inductive conn_step :: "('x, 'p) classes \<Rightarrow> 'x conn_state \<Rightarrow> 'x conn_state \<Rightarrow> bool" for E where
  step_HandleNewBytes: "HandleNewBytes E page n s = Some s1 \<Longrightarrow> conn_step E s s1"
| step_Write: "Connection_Write E pk s = Some s1 \<Longrightarrow> conn_step E s s1"
| step_WriteAndFlush: "WriteAndFlush E pk s = Some s1 \<Longrightarrow> conn_step E s s1"
| step_WriteDirect: "WriteDirect a s = Some s1 \<Longrightarrow> conn_step E s s1"
| step_Flush: "Connection_Flush E s = Some s1 \<Longrightarrow> conn_step E s s1"
| step_SetBytePacketPipe: "SetBytePacketPipe E p s = Some s1 \<Longrightarrow> conn_step E s s1"
| step_AppendByteBytePipe: "conn_step E (c, w) (AppendByteBytePipe p c, w)"
| step_PrependByteBytePipe: "conn_step E (c, w) (PrependByteBytePipe p c, w)"
| step_AppendByteBytePipe_after: "AppendByteBytePipe_after E p k c = Some c1 \<Longrightarrow> conn_step E (c, w) (c1, w)"
| step_PrependByteBytePipe_before: "PrependByteBytePipe_before E p k c = Some c1 \<Longrightarrow> conn_step E (c, w) (c1, w)"
| step_RemoveByteBytePipe: "conn_step E (c, w) (RemoveByteBytePipe E k c, w)"
| step_ReplaceMainPacketHandler: "ReplaceMainPacketHandler E h s = Some s1 \<Longrightarrow> conn_step E s s1"
| step_AppendPacketHandler: "conn_step E (c, w) (AppendPacketHandler h c, w)"
| step_PrependPacketHandler: "conn_step E (c, w) (PrependPacketHandler h c, w)"
| step_AppendPacketHandler_after: "AppendPacketHandler_after E h k c = Some c1 \<Longrightarrow> conn_step E (c, w) (c1, w)"
| step_PrependPacketHandler_before: "PrependPacketHandler_before E h k c = Some c1 \<Longrightarrow> conn_step E (c, w) (c1, w)"
| step_RemovePacketHandler: "conn_step E (c, w) (RemovePacketHandler E k c, w)"
| step_SetOnClose: "onclose_ok (SetOnClose f c) \<Longrightarrow> conn_step E (c, w) (SetOnClose f c, w)"

text \<open>A closing callback is set only if it, too, keeps to the methods of the buffers.\<close>

inductive_simps conn_step_from: "conn_step E (c, w) s1"

context library_classes
begin

lemma conn_step_keeps: "conn_step E s s1 \<Longrightarrow> conn_keeps s s1"
proof (induction rule: conn_step.induct)
  case (step_WriteAndFlush pk s s1)
  then show ?case by (auto simp: WriteAndFlush_def elim!: bind_SomeE intro: keeps_trans Write_keeps Flush_keeps)
next
  case (step_SetBytePacketPipe p s s1)
  then show ?case
    by (cases s) (auto simp: SetBytePacketPipe_def split: bind_splits intro: keeps_after [OF delete_law] keeps_fields)
next
  case (step_ReplaceMainPacketHandler h s s1)
  then show ?case
    by (cases s) (auto simp: ReplaceMainPacketHandler_def split: bind_splits intro: keeps_after [OF delete_law] keeps_fields)
next
  case (step_AppendPacketHandler_after h k c c1 w)
  then show ?case
    by (auto simp: AppendPacketHandler_after_def split: bind_splits intro: keeps_handlers dest: append_after_mset)
next
  case (step_PrependPacketHandler_before h k c c1 w)
  then show ?case
    by (auto simp: PrependPacketHandler_before_def split: bind_splits intro: keeps_handlers dest: prepend_before_mset)
next
  case (step_SetOnClose f c w)
  then show ?case by (simp add: conn_keeps_def SetOnClose_def nodes_ok_def)
qed (auto simp: AppendByteBytePipe_def PrependByteBytePipe_def AppendByteBytePipe_after_def PrependByteBytePipe_before_def
    RemoveByteBytePipe_def RemovePacketHandler_def AppendPacketHandler_def PrependPacketHandler_def
    split: bind_splits
    intro: keeps_fields keeps_handlers HandleNewBytes_keeps Write_keeps WriteDirect_keeps Flush_keeps)

lemma conn_steps_keep: "rtranclp (conn_step E) s s1 \<Longrightarrow> conn_keeps s s1"
  by (induction rule: rtranclp_induct) (auto intro: keeps_trans conn_step_keeps)

lemma delete_handlers_moves: "delete_handlers E hs w = Some w1 \<Longrightarrow> world_moves w w1"
proof (induction hs arbitrary: w)
  case (Cons h hs)
  then obtain w2 where "delete_object E (snd h) w = Some w2" "delete_handlers E hs w2 = Some w1"
    by (cases h) (auto split: bind_splits)
  then show ?case using Cons.IH delete_law by (metis rtranclp_trans)
qed simp

text \<open>The destructor: both buffers are gone afterwards.\<close>

lemma Connection_delete_moves:
  assumes "Connection_delete E (c, w) = Some w'" and "onclose_ok c" and "world_owned w"
    and "readerBuffer c \<noteq> 0" and "writerBuffer c \<noteq> 0"
  shows "world_owned w' \<and> gone (readerBuffer c) w' \<and> gone (writerBuffer c) w'"
proof -
  obtain f w1 w2 w3 w4 w5 w6 where d: "onClose c = Some f" "f w = Some w1"
    "delete_object E (bytePacketPipe c) w1 = Some w2" "delete_buffer (readerBuffer c) w2 = Some w3"
    "delete_buffer (writerBuffer c) w3 = Some w4" "delete_object E (mainPacketHandler c) w4 = Some w5"
    "delete_handlers E (packetHandlers c) w5 = Some w6" "delete_object E (readWriteCloser c) w6 = Some w'"
    using assms(1) by (auto simp: Connection_delete_def split: bind_splits)
  have "world_moves w w1" using assms(2) d(1,2) by (simp add: onclose_ok_def)
  then have "world_moves w w2" using delete_law [OF d(3)] by simp
  then have w2: "world_owned w2" using assms(3) by (rule owned_world_moves)
  have w3: "world_owned w3" using moves_delete_buffer [OF d(4)] w2 by (rule owned_world_moves)
  have w4: "world_owned w4" using moves_delete_buffer [OF d(5)] w3 by (rule owned_world_moves)
  have rest: "world_moves w4 w'" using delete_law [OF d(6)] delete_handlers_moves [OF d(7)] delete_law [OF d(8)] by simp
  have "gone (readerBuffer c) w4"
    using gone_moves [OF moves_delete_buffer [OF d(5)]] delete_buffer_gone [OF d(4) w2 assms(4)] by blast
  moreover have "gone (writerBuffer c) w4" using d(5) w3 assms(5) by (rule delete_buffer_gone)
  ultimately show ?thesis using rest w4 owned_world_moves gone_moves by blast
qed

end

section \<open>A new connection\<close>

lemma Connection_new_ok:
  assumes "world_owned w" and "0 < next_object w" and "Connection_new p h rl wl rw el w = (c, w1)"
  shows "world_owned w1 \<and> nodes_ok c \<and> onclose_ok c \<and> 0 < readerBuffer c \<and> 0 < writerBuffer c \<and> readerBuffer c \<noteq> writerBuffer c"
proof -
  obtain r w2 b w3 where n: "new_buffer rl w = (r, w2)" "new_buffer wl w2 = (b, w3)"
    by (metis surj_pair)
  then have "r = next_object w" "b = next_object w + 1" by (auto simp: new_buffer_def split: prod.splits)
  moreover have "world_owned w3"
    using owned_world_moves [OF moves_new_buffer [OF n(2)]] owned_world_moves [OF moves_new_buffer [OF n(1)]] assms(1) by blast
  ultimately show ?thesis
    using assms(2,3) n by (auto simp: Connection_new_def nodes_ok_def onclose_ok_def)
qed

section \<open>The network under the event loop\<close>

definition network_ok :: "'x network \<Rightarrow> bool" where
  "network_ok n \<longleftrightarrow> world_owned (snd n) \<and>
     (\<forall>a c. fst n a = Some c \<longrightarrow> nodes_ok c \<and> onclose_ok c \<and> readerBuffer c \<noteq> 0 \<and> writerBuffer c \<noteq> 0)"

lemma network_world: "network_ok (cs, w) \<Longrightarrow> world_moves w w1 \<Longrightarrow> network_ok (cs, w1)"
  using owned_world_moves [of w w1] by (auto simp: network_ok_def)

lemma network_connection:
  assumes "network_ok (cs, w)" and "cs a = Some c" and "conn_keeps (c, w) (c1, w1)"
  shows "network_ok (cs(a \<mapsto> c1), w1)"
  using assms owned_world_moves [of w w1] by (auto simp: network_ok_def conn_keeps_def)

locale library_loop = library_classes E
  for E :: "('x, 'p) classes" +
  fixes closer_read :: "'x closer_read"
  assumes closer_read_law: "closer_read a n w = Some (e, bs, w1) \<Longrightarrow> world_moves w w1"
begin

lemma delete_connection_ok:
  assumes "delete_connection E a n = Some n1" and "network_ok n"
  shows "network_ok n1"
proof -
  obtain cs w where n: "n = (cs, w)" by (cases n)
  obtain c w1 where d: "cs a = Some c" "Connection_delete E (c, w) = Some w1" "n1 = (cs(a := None), w1)"
    using assms(1) by (auto simp: n delete_connection_def elim!: bind_SomeE)
  then have "world_owned w1" using assms(2) Connection_delete_moves by (auto simp: n network_ok_def)
  then show ?thesis using assms(2) by (auto simp: n d(3) network_ok_def)
qed

lemma read_loop_ok:
  "read_loop E' rd sz a d n = Some r \<Longrightarrow> E' = E \<longrightarrow> rd = closer_read \<longrightarrow> network_ok n \<longrightarrow> network_ok (snd r)"
proof (induction rule: read_loop.raw_induct [rotated, consumes 1, case_names step])
  case (step loop E' rd sz a d n r)
  show ?case
  proof (intro impI)
    assume e: "E' = E" "rd = closer_read" and ok: "network_ok n"
    obtain cs w where n: "n = (cs, w)" by (cases n)
    obtain c e bs w1 where c: "cs a = Some c" "closer_read (GetReadWriteCloser c) sz w = Some (e, bs, w1)"
      and rest: "(if GetTypeOrdinal e = Success_T
        then do { (c2, w2) \<leftarrow> HandleNewBytes E bs (nat (GetValue e mod int size_max)) (c, w1);
                  loop E closer_read sz a d (cs(a \<mapsto> c2), w2) }
        else if GetTypeOrdinal e = Errno_T \<and> errno w1 = EAGAIN then Some (d, (cs, w1))
        else do { n2 \<leftarrow> delete_connection E a (cs, w1); Some (Some True, n2) }) = Some r"
      using step(2) by (auto simp: e n elim!: bind_SomeE cong: if_cong)
    have w1: "network_ok (cs, w1)" using ok closer_read_law [OF c(2)] by (simp add: n network_world)
    show "network_ok (snd r)"
      using rest w1 network_connection [OF w1 c(1) HandleNewBytes_keeps]
      by (auto split: if_splits elim!: bind_SomeE dest!: step(1) delete_connection_ok)
  qed
qed

lemma handle_events_ok: "handle_events E closer_read sz events d n = Some (d1, n1) \<Longrightarrow> network_ok n \<Longrightarrow> network_ok n1"
proof (induction events arbitrary: d n)
  case (Cons event events)
  obtain rdhup a where ev: "event = (rdhup, a)" by (cases event)
  show ?case
  proof (cases rdhup)
    case True
    then show ?thesis using Cons ev by (auto elim!: bind_SomeE dest: delete_connection_ok)
  next
    case False
    then obtain d2 n2 where r: "read_loop E closer_read sz a d n = Some (d2, n2)"
      and rest: "do { flag \<leftarrow> d2; if flag then Some (d2, n2) else handle_events E closer_read sz events d2 n2 } = Some (d1, n1)"
      using Cons.prems ev by (auto elim!: bind_SomeE)
    have "network_ok n2" using read_loop_ok [OF r] Cons.prems(2) by simp
    then show ?thesis using rest by (auto split: if_splits elim!: bind_SomeE intro: Cons.IH)
  qed
qed simp

lemma loop_round_ok:
  assumes "loop_round E closer_read run clock epoll_wait l tasks n = Some (tasks1, n1)" and "network_ok n"
    and "\<And>f n rs n1. run f n = Some (rs, n1) \<Longrightarrow> network_ok n \<Longrightarrow> network_ok n1"
    and "\<And>fd k t n es n1. epoll_wait fd k t n = (es, n1) \<Longrightarrow> network_ok n \<Longrightarrow> network_ok n1"
  shows "network_ok n1"
proof -
  obtain n2 es n3 d where r: "ProceedTasks run clock tasks n = Some (tasks1, n2)"
    "epoll_wait (epollFileDescriptor l) (maxEvents l) (epollTimeout l) n2 = (es, n3)"
    "handle_events E closer_read (bufferSize l) es None n3 = Some (d, n1)"
    using assms(1) by (auto simp: loop_round_def elim!: bind_SomeE split: prod.splits)
  have "network_ok n2" by (rule ProceedTasks_invariant [where P = network_ok, OF r(1) assms(2)]) (rule assms(3))
  then have "network_ok n3" by (rule assms(4) [OF r(2)])
  then show ?thesis by (rule handle_events_ok [OF r(3)])
qed

lemma loop_rounds_ok:
  assumes "\<And>f n rs n1. run f n = Some (rs, n1) \<Longrightarrow> network_ok n \<Longrightarrow> network_ok n1"
    and "\<And>fd k t n es n1. epoll_wait fd k t n = (es, n1) \<Longrightarrow> network_ok n \<Longrightarrow> network_ok n1"
  shows "loop_rounds k E closer_read run clock epoll_wait l tasks n = Some (tasks1, n1) \<Longrightarrow> network_ok n \<Longrightarrow> network_ok n1"
proof (induction k arbitrary: tasks n)
  case (Suc k)
  obtain tasks2 n2 where r: "loop_round E closer_read run clock epoll_wait l tasks n = Some (tasks2, n2)"
    "loop_rounds k E closer_read run clock epoll_wait l tasks2 n2 = Some (tasks1, n1)"
    using Suc.prems(1) by (auto elim!: bind_SomeE)
  have "network_ok n2" by (rule loop_round_ok [OF r(1) Suc.prems(2)]) (erule (1) assms)+
  then show ?case by (rule Suc.IH [OF r(2)])
qed simp

text \<open>\<open>Accept\<close> makes a closer and lets the application make the connection.\<close>

lemma Epoll_Accept_ok:
  assumes "Epoll_Accept E new_closer initializer add fd l n = Some (l1, n1)" and "network_ok n"
    and "\<And>fd w a w1. new_closer fd w = (a, w1) \<Longrightarrow> world_moves w w1"
    and "\<And>ep fd a w r w1. add ep fd a w = (r, w1) \<Longrightarrow> world_moves w w1"
    and "\<And>p n a n1. initializer p n = Some (a, n1) \<Longrightarrow> network_ok n \<Longrightarrow> network_ok n1"
  shows "network_ok n1"
proof -
  obtain cs w where n: "n = (cs, w)" by (cases n)
  obtain closer w1 where c: "new_closer fd w = (closer, w1)" by (cases "new_closer fd w")
  obtain connection cs2 w2 where i: "initializer closer (cs, w1) = Some (connection, (cs2, w2))"
    using assms(1) by (auto simp: n c Epoll_Accept_def Let_def NewConnection_def elim!: bind_SomeE)
  obtain r w3 where a: "add (epollFileDescriptor l) fd connection w2 = (r, w3)"
    by (cases "add (epollFileDescriptor l) fd connection w2")
  have "network_ok (cs, w1)" using assms(2,3) c n network_world by blast
  then have "network_ok (cs2, w2)" using assms(5) i by blast
  then have "network_ok (cs2, w3)" using assms(4) a network_world by blast
  then show ?thesis
    using assms(1) by (auto simp: n c i a Epoll_Accept_def Let_def NewConnection_def split: if_splits
        elim!: bind_SomeE dest: delete_connection_ok)
qed

end

end
