(* ===== verification/Ship_ByteCounter.thy ===== *)
theory Ship_ByteCounter
  imports Ship_Impl_Edges
begin

text \<open>
  \<open>ByteCounter\<close> (\<open>protocol/ByteCounter.cpp\<close>): the \<open>ByteBuffer\<close> that stores nothing and adds up sizes, and
  \<open>Serializable::Size\<close> (\<open>protocol/Protocol.hpp\<close>), which writes an object to it to learn how many bytes it
  takes.  The lemmas say that every override counts what the base-class method would write byte by byte, and that
  the sum is what a \<open>ByteBufferImpl\<close> then receives.
\<close>

section \<open>State and operations\<close>

record byte_counter =
  writerIndex :: nat

definition new_counter :: byte_counter where
  "new_counter = \<lparr>writerIndex = 0\<rparr>"

definition count_more :: "nat \<Rightarrow> byte_counter \<Rightarrow> byte_counter" where
  "count_more n c = c\<lparr>writerIndex := sz_add (writerIndex c) n\<rparr>"

definition Counter_WriteByte :: "u8 \<Rightarrow> byte_counter \<Rightarrow> byte_counter" where
  "Counter_WriteByte input c = count_more BYTE_SIZE c"

definition Counter_WriteBoolean :: "bool \<Rightarrow> byte_counter \<Rightarrow> byte_counter" where
  "Counter_WriteBoolean input c = count_more BOOLEAN_SIZE c"

definition Counter_WriteShort :: "u16 \<Rightarrow> byte_counter \<Rightarrow> byte_counter" where
  "Counter_WriteShort input c = count_more SHORT_SIZE c"

definition Counter_WriteMedium :: "u32 \<Rightarrow> byte_counter \<Rightarrow> byte_counter" where
  "Counter_WriteMedium input c = count_more MEDIUM_SIZE c"

definition Counter_WriteInt :: "u32 \<Rightarrow> byte_counter \<Rightarrow> byte_counter" where
  "Counter_WriteInt input c = count_more INT_SIZE c"

definition Counter_WriteVarInt :: "u32 \<Rightarrow> byte_counter \<Rightarrow> byte_counter" where
  "Counter_WriteVarInt input c = count_more (unat (VarIntBytes input)) c"

definition Counter_WriteLong :: "u64 \<Rightarrow> byte_counter \<Rightarrow> byte_counter" where
  "Counter_WriteLong input c = count_more LONG_SIZE c"

definition Counter_WriteVarLong :: "u64 \<Rightarrow> byte_counter \<Rightarrow> byte_counter" where
  "Counter_WriteVarLong input c = count_more (unat (VarLongBytes input)) c"

definition Counter_WriteUUID :: "UUID \<Rightarrow> byte_counter \<Rightarrow> byte_counter" where
  "Counter_WriteUUID input c = count_more UUID_SIZE c"

definition Counter_WriteUUIDIntArray :: "UUID \<Rightarrow> byte_counter \<Rightarrow> byte_counter" where
  "Counter_WriteUUIDIntArray input c = count_more UUID_SIZE c"

text \<open>Floating-point values by their bit patterns; only their size is used.\<close>

definition Counter_WriteDouble :: "u64 \<Rightarrow> byte_counter \<Rightarrow> byte_counter" where
  "Counter_WriteDouble bits c = count_more DOUBLE_SIZE c"

definition Counter_WriteFloat :: "u32 \<Rightarrow> byte_counter \<Rightarrow> byte_counter" where
  "Counter_WriteFloat bits c = count_more FLOAT_SIZE c"

definition Counter_WriteString :: "u8 list \<Rightarrow> byte_counter \<Rightarrow> byte_counter" where
  "Counter_WriteString input c =
     count_more (length input) (count_more (unat (VarIntBytes (of_nat (length input)))) c)"

definition Counter_WriteAngle :: "u32 \<Rightarrow> byte_counter \<Rightarrow> byte_counter" where
  "Counter_WriteAngle bits c = count_more ANGLE_SIZE c"

definition Counter_WriteBytes :: "u8 list \<Rightarrow> nat \<Rightarrow> byte_counter \<Rightarrow> byte_counter" where
  "Counter_WriteBytes input sz c = count_more sz c"

text \<open>\<open>WriteBytes(ByteBuffer*, size_t)\<close> does not touch the buffer it is given.\<close>

definition Counter_WriteBytes_buffer :: "nat \<Rightarrow> byte_counter \<Rightarrow> byte_counter" where
  "Counter_WriteBytes_buffer sz c = count_more sz c"

text \<open>\<open>WriteBytesAndDelete\<close> frees the array and adds nothing.\<close>

definition Counter_WriteBytesAndDelete :: "nat \<Rightarrow> nat \<Rightarrow> memory \<times> byte_counter \<Rightarrow> (memory \<times> byte_counter) option" where
  "Counter_WriteBytesAndDelete input sz s =
     (case s of (m, c) \<Rightarrow> do { m1 \<leftarrow> delete_page input m; Some (m1, c) })"

text \<open>Reading: a counter gives the byte 0 for ever, and the null pointer (\<open>None\<close>) for an array.\<close>

definition Counter_ReadByteUnsafe :: "byte_counter \<Rightarrow> u8 \<times> byte_counter" where
  "Counter_ReadByteUnsafe c = (0, c)"

definition Counter_ReadBytes :: "nat \<Rightarrow> byte_counter \<Rightarrow> u8 list option errorable \<times> byte_counter" where
  "Counter_ReadBytes sz c = (SuccessErrorable None, c)"

definition Counter_ResetWriterIndex :: "byte_counter \<Rightarrow> byte_counter" where
  "Counter_ResetWriterIndex c = c\<lparr>writerIndex := 0\<rparr>"

definition Counter_GetReaderIndex :: "byte_counter \<Rightarrow> nat" where
  "Counter_GetReaderIndex c = 0"

definition Counter_GetWriterIndex :: "byte_counter \<Rightarrow> nat" where
  "Counter_GetWriterIndex c = writerIndex c"

definition Counter_GetReadableBytes :: "byte_counter \<Rightarrow> nat" where
  "Counter_GetReadableBytes c = size_max - 1"

definition Counter_GetSingleCapacity :: "byte_counter \<Rightarrow> nat" where
  "Counter_GetSingleCapacity c = size_max - 1"

definition Counter_SkipReadBytes :: "nat \<Rightarrow> byte_counter \<Rightarrow> nat errorable \<times> byte_counter" where
  "Counter_SkipReadBytes count c = (SuccessErrorable 0, c)"

definition Counter_SkipWriteBytes :: "nat \<Rightarrow> byte_counter \<Rightarrow> nat \<times> byte_counter" where
  "Counter_SkipWriteBytes count c = (0, c)"

text \<open>Without pages there is nothing to release, rewind, refresh, append or drop, and no array to offer
  (\<open>None\<close>, the null pointer).\<close>

definition Counter_Release :: "byte_counter \<Rightarrow> byte_counter" where
  "Counter_Release c = c"

definition Counter_ResetReaderIndex :: "byte_counter \<Rightarrow> byte_counter" where
  "Counter_ResetReaderIndex c = c"

definition Counter_GetDirectBuffers :: "byte_counter \<Rightarrow> nat list" where
  "Counter_GetDirectBuffers c = []"

definition Counter_CanReadDirect :: "nat \<Rightarrow> byte_counter \<Rightarrow> bool" where
  "Counter_CanReadDirect read_size c = False"

definition Counter_GetDirectReadAddress :: "byte_counter \<Rightarrow> (nat \<times> nat) option" where
  "Counter_GetDirectReadAddress c = None"

definition Counter_CanWriteDirect :: "nat \<Rightarrow> byte_counter \<Rightarrow> bool" where
  "Counter_CanWriteDirect write_size c = False"

definition Counter_GetDirectWriteAddress :: "byte_counter \<Rightarrow> (nat \<times> nat) option" where
  "Counter_GetDirectWriteAddress c = None"

definition Counter_TryRefreshReaderBuffer :: "byte_counter \<Rightarrow> byte_counter" where
  "Counter_TryRefreshReaderBuffer c = c"

definition Counter_TryRefreshWriterBuffer :: "byte_counter \<Rightarrow> byte_counter" where
  "Counter_TryRefreshWriterBuffer c = c"

definition Counter_AppendBuffer :: "byte_counter \<Rightarrow> byte_counter" where
  "Counter_AppendBuffer c = c"

definition Counter_PopBuffer :: "byte_counter \<Rightarrow> byte_counter" where
  "Counter_PopBuffer c = c"

section \<open>Size\<close>

text \<open>\<open>write\<close> is the object's own \<open>Write\<close>; its errorable is not looked at, and the sum is returned as \<open>uint32_t\<close>.\<close>

definition Size :: "('v \<Rightarrow> byte_counter \<Rightarrow> (bool errorable \<times> byte_counter) option) \<Rightarrow> 'v \<Rightarrow> u32 option" where
  "Size write version =
     do { (e, counter) \<leftarrow> write version new_counter;
          Some (of_nat (Counter_GetWriterIndex counter)) }"

section \<open>Counting is writing without storing\<close>

fun counter_write_field :: "field \<Rightarrow> byte_counter \<Rightarrow> byte_counter" where
  "counter_write_field (FBoolean x) = Counter_WriteBoolean x"
| "counter_write_field (FByte x) = Counter_WriteByte x"
| "counter_write_field (FShort x) = Counter_WriteShort x"
| "counter_write_field (FMedium x) = Counter_WriteMedium x"
| "counter_write_field (FInt x) = Counter_WriteInt x"
| "counter_write_field (FVarInt x) = Counter_WriteVarInt x"
| "counter_write_field (FLong x) = Counter_WriteLong x"
| "counter_write_field (FVarLong x) = Counter_WriteVarLong x"
| "counter_write_field (FUUID x) = Counter_WriteUUID x"
| "counter_write_field (FDouble x) = Counter_WriteDouble x"
| "counter_write_field (FFloat x) = Counter_WriteFloat x"

lemma sz_add_sz_add: "sz_add (sz_add a b) c = sz_add a (b + c)"
  by (simp add: sz_add_def mod_add_left_eq add.assoc)

lemma count_more_add [simp]: "count_more k (count_more n c) = count_more (n + k) c"
  by (simp add: count_more_def sz_add_sz_add)

lemma put_list_counter:
  "bs \<noteq> [] \<Longrightarrow> put_list (\<lambda>b c. Some (Counter_WriteByte b c)) bs c = Some (count_more (length bs) c)"
proof (induction bs arbitrary: c)
  case Nil
  then show ?case by simp
next
  case (Cons b bs)
  then show ?case by (cases bs) (simp_all add: Counter_WriteByte_def BYTE_SIZE_def)
qed

lemma unat_VarIntBytes: "unat (VarIntBytes x) = length (leb128 (unat x))"
  unfolding VarIntBytes_eq using length_leb128_bound(1) [of x] by (intro u32_exact) simp

lemma unat_VarLongBytes: "unat (VarLongBytes x) = length (leb128 (unat x))"
  unfolding VarLongBytes_eq using length_leb128_bound(2) [of x] by (intro u32_exact) simp

lemma field_bytes_nonempty: "field_bytes f \<noteq> []"
  by (cases f) (simp_all add: uuid_bytes_def)

lemma counter_write_field_count: "counter_write_field f c = count_more (length (field_bytes f)) c"
  by (cases f) (simp_all add: Counter_WriteBoolean_def Counter_WriteByte_def Counter_WriteShort_def
      Counter_WriteMedium_def Counter_WriteInt_def Counter_WriteVarInt_def Counter_WriteLong_def
      Counter_WriteVarLong_def Counter_WriteUUID_def Counter_WriteDouble_def Counter_WriteFloat_def
      size_defs unat_VarIntBytes unat_VarLongBytes uuid_bytes_def length_be_bytes del: be_bytes_numeral)

text \<open>Every override of \<open>ByteCounter\<close> counts exactly what the method of \<open>ByteBuffer\<close> it replaces would write:
  running that method over the counter's own \<open>WriteByte\<close> gives the same counter, wrap-around included.\<close>

lemma counter_overrides_agree:
  "Some (counter_write_field f c) = write_field (\<lambda>b c. Some (Counter_WriteByte b c)) f c"
  by (simp add: write_field_put counter_write_field_count put_list_counter field_bytes_nonempty)

fun counter_write_fields :: "field list \<Rightarrow> byte_counter \<Rightarrow> byte_counter" where
  "counter_write_fields [] c = c"
| "counter_write_fields (f # fs) c = counter_write_fields fs (counter_write_field f c)"

lemma counter_write_fields_index:
  "writerIndex c + length (concat (map field_bytes fs)) < size_max \<Longrightarrow>
   writerIndex (counter_write_fields fs c) = writerIndex c + length (concat (map field_bytes fs))"
  by (induction fs arbitrary: c) (simp_all add: counter_write_field_count count_more_def)

text \<open>C18.  \<open>Size\<close> of an object that writes fields is the number of bytes the same object adds to a \<open>ByteBufferImpl\<close>,
  as long as it is below \<open>2\<^sup>3\<^sup>2\<close>.\<close>

theorem size_is_bytes_written:
  assumes "bb_ok s" and "length (concat (map field_bytes fs)) < 2 ^ 32"
    and "length (bb_contents s) + length (concat (map field_bytes fs)) < alloc_max"
  shows "\<exists>n s1. Size (\<lambda>_ c. Some (SuccessErrorable True, counter_write_fields fs c)) version = Some n \<and>
    write_fields Impl_WriteByte fs s = Some s1 \<and> bb_ok s1 \<and>
    length (bb_contents s1) = length (bb_contents s) + unat n"
proof -
  let ?n = "length (concat (map field_bytes fs))"
  have "writerIndex (counter_write_fields fs new_counter) = ?n"
    using counter_write_fields_index [of new_counter fs] assms(2)
    by (simp only: new_counter_def byte_counter.simps size_max_def) simp
  moreover have "unat (of_nat ?n :: u32) = ?n" using assms(2) by (rule u32_exact)
  moreover obtain s1 where "write_fields Impl_WriteByte fs s = Some s1" "bb_ok s1"
    "bb_contents s1 = bb_contents s @ concat (map field_bytes fs)"
    using impl.write_fields_law [OF assms(1,3)] by (rule holdsE)
  ultimately show ?thesis
    by (simp add: Size_def Counter_GetWriterIndex_def del: length_concat)
qed

theorem size_is_bytes_written_witness:
  "\<exists>n s1. Size (\<lambda>_ c. Some (SuccessErrorable True, counter_write_fields [FVarInt 300, FBoolean True] c)) () = Some n \<and>
    write_fields Impl_WriteByte [FVarInt 300, FBoolean True] (ByteBufferImpl_new 2 mem0) = Some s1 \<and>
    length (bb_contents s1) = unat n"
proof -
  have "length (concat (map field_bytes [FVarInt 300, FBoolean True])) = 3" by code_simp
  then show ?thesis
    using size_is_bytes_written [OF mem0_new_ok(1), of "[FVarInt 300, FBoolean True]" "()"] mem0_new_ok(2)
    by (auto simp only: alloc_max_def list.size) fastforce
qed

text \<open>Arrays handed to \<open>WriteBytesAndDelete\<close> are not counted: the counter frees the array and stays where it was,
  while a \<open>ByteBufferImpl\<close> off a page start takes in all its bytes.  \<open>Size\<close> is too small for an object that writes one.\<close>

lemma counter_misses_deleted_arrays:
  assumes "bb_ok (m, b)" and "pages m a = Some xs" and "a \<notin> set (buffers b)"
    and "readableBytes b + length xs < alloc_max" and "0 < localWriterIndex b"
  shows "\<exists>m1 m2 b2. Counter_WriteBytesAndDelete a (length xs) (m, c) = Some (m1, c) \<and>
    Impl_WriteBytesAndDelete a (length xs) (m, b) = Some (m2, b2) \<and>
    length (bb_contents (m2, b2)) = length (bb_contents (m, b)) + length xs"
proof -
  have d: "delete_page a m \<noteq> None" using assms(2) by (simp add: delete_page_def)
  then obtain m1 where "delete_page a m = Some m1" by auto
  moreover obtain m2 b2 where "Impl_WriteBytesAndDelete a (length xs) (m, b) = Some (m2, b2)"
    "bb_contents (m2, b2) = bb_contents (m, b) @ xs"
    using WriteBytesAndDelete_copies [OF assms(1-4)] assms(5) by auto
  ultimately show ?thesis by (simp add: Counter_WriteBytesAndDelete_def)
qed

lemma counter_misses_deleted_arrays_witness:
  "\<exists>m1 m2 b2. Counter_WriteBytesAndDelete 1 2 (fst (two_pages 1), new_counter) = Some (m1, new_counter) \<and>
     Impl_WriteBytesAndDelete 1 2 (two_pages 1) = Some (m2, b2) \<and>
     length (bb_contents (m2, b2)) = length (bb_contents (two_pages 1)) + 2"
  using counter_misses_deleted_arrays [of "fst (two_pages 1)" "snd (two_pages 1)" 1 "[1, 2]" new_counter]
    two_pages_ok [of 1]
  by (simp add: two_pages_def small_alloc numeral_2_eq_2)

end
