(* ===== verification/Ship_Stack.thy ===== *)
theory Ship_Stack
  imports Ship_Lifecycle Ship_ByteCounter
begin

text \<open>
  The classes of the library put together: a connection whose packet pipe is a \<open>FramedBytePacketPipe\<close>, whose closer is a
  \<open>UnixReadWriteCloser\<close> and whose handler has callbacks set with \<open>SetPacketCallback\<close>.  Packets are lists of
  fields of a fixed shape, the least an application has to bring along; \<open>Serializable::Size\<close> gives the
  length of their frames.  They meet the contract \<open>library_classes\<close>.
\<close>

section \<open>Readers are sequences of \<open>ReadByteUnsafe\<close>\<close>

locale stepwise =
  fixes R :: "'s \<Rightarrow> 's \<Rightarrow> bool" and rb :: "'s \<Rightarrow> (u8 \<times> 's) option" and avail :: "'s \<Rightarrow> nat"
  assumes refl_law: "R s s" and trans_law: "R s s1 \<Longrightarrow> R s1 s2 \<Longrightarrow> R s s2"
    and rb_law: "rb s = Some (x, s1) \<Longrightarrow> R s s1"
begin

lemma after_rb: "rb s = Some (x, s1) \<Longrightarrow> R s1 s2 \<Longrightarrow> R s s2"
  using rb_law trans_law by blast

lemma ReadVarInt_loop_steps: "ReadVarInt_loop rb avail i acc s = Some (e, s1) \<Longrightarrow> R s s1"
proof (induction "5 - i" arbitrary: i acc s rule: less_induct)
  case less
  from less.prems show ?case
    by (subst (asm) ReadVarInt_loop.simps)
      (auto simp: Let_def refl_law split: if_splits elim!: bind_SomeE dest!: rb_law less.hyps [rotated] intro: trans_law)
qed

lemma ReadVarLong_loop_steps: "ReadVarLong_loop rb avail i acc s = Some (e, s1) \<Longrightarrow> R s s1"
proof (induction "10 - i" arbitrary: i acc s rule: less_induct)
  case less
  from less.prems show ?case
    by (subst (asm) ReadVarLong_loop.simps)
      (auto simp: Let_def refl_law split: if_splits elim!: bind_SomeE dest!: rb_law less.hyps [rotated] intro: trans_law)
qed

lemma ReadVarInt_steps: "ReadVarInt rb avail s = Some (e, s1) \<Longrightarrow> R s s1"
  by (simp add: ReadVarInt_def ReadVarInt_loop_steps)

lemma fixed_size_steps:
  "ReadBoolean rb avail s = Some (e1, s1) \<Longrightarrow> R s s1"
  "ReadByte rb avail s = Some (e2, s1) \<Longrightarrow> R s s1"
  "ReadShort rb avail s = Some (e3, s1) \<Longrightarrow> R s s1"
  "ReadMedium rb avail s = Some (e4, s1) \<Longrightarrow> R s s1"
  "ReadInt rb avail s = Some (e5, s1) \<Longrightarrow> R s s1"
  "ReadLong rb avail s = Some (e6, s1) \<Longrightarrow> R s s1"
  by (auto simp: ReadBoolean_def ReadByte_def ReadShort_def ReadMedium_def ReadInt_def ReadLong_def refl_law
      split: if_splits elim!: bind_SomeE after_rb intro: refl_law)

lemma proceed_steps:
  "ProceedErrorable e x k s1 = Some (r, s2) \<Longrightarrow> R s s1 \<Longrightarrow> (\<And>v. k v = Some (r, s2) \<Longrightarrow> R s1 s2) \<Longrightarrow> R s s2"
  by (auto simp: ProceedErrorable_def split: if_splits intro: trans_law)

lemma wide_steps:
  "ReadDouble rb avail s = Some (e1, s1) \<Longrightarrow> R s s1"
  "ReadFloat rb avail s = Some (e2, s1) \<Longrightarrow> R s s1"
  "ReadUUID rb avail s = Some (e3, s1) \<Longrightarrow> R s s1"
  by (auto simp: ReadDouble_def ReadFloat_def ReadUUID_def Let_def elim!: bind_SomeE
      elim!: proceed_steps intro: fixed_size_steps refl_law)

lemma decoded_steps:
  assumes "Option.bind r (decoded mk) = Some (f, s2)" and "\<And>e s1. r = Some (e, s1) \<Longrightarrow> R s s1"
  shows "R s s2"
  using assms by (auto simp: decoded_def split: if_splits elim!: bind_SomeE)

lemma read_field_steps: "read_field rb avail f s = Some (g, s1) \<Longrightarrow> R s s1"
  by (cases f) (auto simp: ReadVarLong_def elim!: decoded_steps
      intro: fixed_size_steps wide_steps ReadVarInt_steps ReadVarLong_loop_steps)

lemma read_fields_steps: "read_fields rb avail fs s = Some (gs, s1) \<Longrightarrow> R s s1"
proof (induction fs arbitrary: s gs)
  case Nil
  then show ?case by (simp add: refl_law)
next
  case (Cons f fs)
  then obtain g s2 gs2 where "read_field rb avail f s = Some (g, s2)" "read_fields rb avail fs s2 = Some (gs2, s1)"
    by (auto elim!: bind_SomeE)
  then show ?case using read_field_steps Cons.IH trans_law by blast
qed

lemma FramedPacket_Read_steps:
  assumes "FramedPacket_Read rb avail rp p s = Some (e, p1, s1)" and "\<And>n s e s1. rp n s = Some (e, s1) \<Longrightarrow> R s s1"
  shows "R s s1"
  using assms(1)
  by (auto simp: FramedPacket_Read_def Let_def refl_law split: if_splits option.splits elim!: bind_SomeE
      dest!: ReadVarInt_steps assms(2) intro: trans_law)

end

interpretation at_moves: stepwise world_moves "ReadByteUnsafe_at a" "GetReadableBytes_at a" for a
  by unfold_locales (auto intro: moves_ReadByteUnsafe_at)

section \<open>The closer only skips\<close>

lemma moves_write_chunk: "write_chunk sw sc n written u s = Some (r, written1, u1, s1) \<Longrightarrow> page_moves s s1"
  by (auto simp: write_chunk_def Let_def split: prod.splits if_splits elim!: bind_SomeE intro: moves_SkipReadBytes)

lemma moves_write_pages: "write_pages sw sc cap written u s = Some r \<Longrightarrow> page_moves s (snd (snd (snd r)))"
proof (induction rule: write_pages.raw_induct [rotated, consumes 1, case_names step])
  case (step loop sw sc cap written u s r)
  from step(2) show ?case
    by (fastforce split: if_splits option.splits elim!: bind_SomeE dest: moves_write_chunk step(1) intro: moves_trans)
qed

lemma moves_write_rest: "write_rest sw sc written u s = Some r \<Longrightarrow> page_moves s (snd (snd (snd r)))"
proof (induction rule: write_rest.raw_induct [rotated, consumes 1, case_names step])
  case (step loop sw sc written u s r)
  from step(2) show ?case
    by (fastforce split: if_splits option.splits elim!: bind_SomeE dest: moves_write_chunk step(1) intro: moves_trans)
qed

lemma moves_Unix_Write: "Unix_Write sw sc u s = Some (e, u1, s1) \<Longrightarrow> page_moves s s1"
  by (fastforce simp: Unix_Write_def split: if_splits option.splits elim!: bind_SomeE
      dest: moves_write_pages moves_write_rest intro: moves_trans)

section \<open>The objects of a connection\<close>

record 'k side =
  packetPipe :: framed_byte_packet_pipe
  unixCloser :: unix_closer
  kernel :: 'k

abbreviation sample_side :: "u8 list side" where
  "sample_side \<equiv> \<lparr>packetPipe = FramedBytePacketPipe_new 100, unixCloser = UnixReadWriteCloser_new 5, kernel = []\<rparr>"

text \<open>\<open>ReadPacket\<close> announces the frame; the packet itself is read by the callback.\<close>

definition announce :: "nat \<Rightarrow> u32 \<Rightarrow> 'x world \<Rightarrow> (packet_holder errorable \<times> 'x world) option" where
  "announce a n w = Some (SuccessErrorable (PacketHolder_new 0 None a n), w)"

definition side_packet_read :: "nat \<Rightarrow> 'k side world \<Rightarrow> (packet_holder errorable \<times> 'k side world) option" where
  "side_packet_read a w =
     map_option (\<lambda>(e, p, w1). (e, w1\<lparr>outside := (outside w1)\<lparr>packetPipe := p\<rparr>\<rparr>))
       (read_packet_at a (announce a) (packetPipe (outside w)) w)"

definition side_packet_write :: "nat \<Rightarrow> field list \<Rightarrow> 'x world \<Rightarrow> (bool errorable \<times> 'x world) option" where
  "side_packet_write a fs w =
     do { n \<leftarrow> Size (\<lambda>_ counter. Some (SuccessErrorable True, counter_write_fields fs counter)) ();
          w1 \<leftarrow> update_buffer a (\<lambda>s. do { s1 \<leftarrow> WriteVarInt Impl_WriteByte n s; write_fields Impl_WriteByte fs s1 }) w;
          Some (SuccessErrorable True, w1) }"

definition side_closer_write ::
  "'k sys_write \<Rightarrow> 'k sys_close \<Rightarrow> nat \<Rightarrow> 'k side world \<Rightarrow> (int errorable \<times> 'k side world) option" where
  "side_closer_write sw sc a w =
     do { b \<leftarrow> byte_buffers w a;
          (e, (u, k), (m, b1)) \<leftarrow> Unix_Write sw sc (unixCloser (outside w), kernel (outside w)) (mem w, b);
          Some (e, w\<lparr>mem := m, byte_buffers := (byte_buffers w)(a \<mapsto> b1),
                     outside := (outside w)\<lparr>unixCloser := u, kernel := k\<rparr>\<rparr>) }"

definition side_closer_close :: "'k sys_close \<Rightarrow> 'k side world \<Rightarrow> 'k side world option" where
  "side_closer_close sc w =
     (case Unix_Close sc (unixCloser (outside w), kernel (outside w)) of (u, k) \<Rightarrow>
        Some (w\<lparr>outside := (outside w)\<lparr>unixCloser := u, kernel := k\<rparr>\<rparr>))"

definition side_closer_read :: "'k sys_read \<Rightarrow> 'k side closer_read" where
  "side_closer_read sr a n w =
     (case Unix_Read sr n (unixCloser (outside w), kernel (outside w)) of (e, bytes, u, k) \<Rightarrow>
        Some (e, bytes, w\<lparr>outside := (outside w)\<lparr>unixCloser := u, kernel := k\<rparr>\<rparr>))"

text \<open>\<open>Instantiate\<close> reads the fields of a packet from the buffer of its holder.\<close>

definition read_shape ::
  "field list \<Rightarrow> packet_holder \<Rightarrow> 'x conn_state \<Rightarrow> (field list errorable \<times> 'x conn_state) option" where
  "read_shape shape holder s =
     (case s of (c, w) \<Rightarrow>
        map_option (\<lambda>(fs, w1). (SuccessErrorable fs, (c, w1)))
          (read_fields (ReadByteUnsafe_at (Holder_GetCurrentBuffer holder))
             (GetReadableBytes_at (Holder_GetCurrentBuffer holder)) shape w))"

text \<open>One handler class with one packet class.  The address 12 is that of the closer, as in \<open>sample_connection\<close>.\<close>

definition side_classes ::
  "'k sys_write \<Rightarrow> 'k sys_close \<Rightarrow> 'k side conn_state callbacks \<Rightarrow> ('k side, field list) classes" where
  "side_classes sw sc table =
     \<lparr>pipe_ordinal = (\<lambda>_. 0), byte_pipe = (\<lambda>_. ByteBytePipe_of 0 0), pipe_read = (\<lambda>_ _. ByteBytePipe_Read),
      pipe_write = (\<lambda>_ _. ByteBytePipe_Write), packet_read = (\<lambda>_. side_packet_read), packet_write = (\<lambda>_. side_packet_write),
      handler_ordinal = (\<lambda>_. 0), callback_table = table, closer_write = (\<lambda>_. side_closer_write sw sc),
      closer_close = (\<lambda>_. side_closer_close sc),
      delete_object = (\<lambda>p w. if p = 12 then side_closer_close sc w else Some w)\<rparr>"

definition shape_table ::
  "field list \<Rightarrow> (nat \<Rightarrow> field list \<Rightarrow> 'x conn_state \<Rightarrow> (bool errorable \<times> 'x conn_state) option) \<Rightarrow> 'x conn_state callbacks" where
  "shape_table shape callback =
     [[Some (packet_callback (\<lambda>a s. GetReadableBytes_at a (snd s)) (read_shape shape) callback)]]"

lemma moves_side_packet_read: "side_packet_read a w = Some (e, w1) \<Longrightarrow> world_moves w w1"
proof -
  assume "side_packet_read a w = Some (e, w1)"
  then obtain p w2 where r: "read_packet_at a (announce a) (packetPipe (outside w)) w = Some (e, p, w2)"
    and w1: "w1 = w2\<lparr>outside := (outside w2)\<lparr>packetPipe := p\<rparr>\<rparr>"
    by (auto simp: side_packet_read_def)
  have "world_moves w w2"
    by (rule at_moves.FramedPacket_Read_steps [OF r]) (simp add: announce_def)
  then show ?thesis using moves_rest(1) [of w2 "(outside w2)\<lparr>packetPipe := p\<rparr>"] by (simp add: w1)
qed

lemma moves_put_list: "put_list Impl_WriteByte bs s = Some s1 \<Longrightarrow> page_moves s s1"
  by (induction bs arbitrary: s) (auto elim!: bind_SomeE dest!: moves_WriteByte intro: moves_trans)

lemma moves_side_packet_write: "side_packet_write a fs w = Some (e, w1) \<Longrightarrow> world_moves w w1"
  by (auto simp: side_packet_write_def WriteVarInt_put write_fields_put elim!: bind_SomeE moves_update_buffer
      dest!: moves_put_list intro: moves_trans)

lemma moves_side_closer_write: "side_closer_write sw sc a w = Some (e, w1) \<Longrightarrow> world_moves w w1"
proof -
  assume "side_closer_write sw sc a w = Some (e, w1)"
  then obtain b u k m b1 where b: "byte_buffers w a = Some b"
    and r: "Unix_Write sw sc (unixCloser (outside w), kernel (outside w)) (mem w, b) = Some (e, (u, k), (m, b1))"
    and w1: "w1 = w\<lparr>mem := m, byte_buffers := (byte_buffers w)(a \<mapsto> b1),
                     outside := (outside w)\<lparr>unixCloser := u, kernel := k\<rparr>\<rparr>"
    by (auto simp: side_closer_write_def elim!: bind_SomeE)
  let ?w2 = "w\<lparr>mem := m, byte_buffers := (byte_buffers w)(a \<mapsto> b1)\<rparr>"
  have "world_moves w ?w2" using b moves_Unix_Write [OF r] by (blast intro: world_move_moves call_buffer)
  then show ?thesis using moves_rest(1) [of ?w2 "(outside w)\<lparr>unixCloser := u, kernel := k\<rparr>"] by (simp add: w1)
qed

lemma moves_side_closer_close: "side_closer_close sc w = Some w1 \<Longrightarrow> world_moves w w1"
  by (auto simp: side_closer_close_def intro: moves_rest split: prod.splits)

lemma read_shape_keeps: "read_shape shape holder s = Some (fs, s1) \<Longrightarrow> conn_keeps s s1"
  by (auto simp: read_shape_def intro!: keeps_world dest: at_moves.read_fields_steps split: prod.splits)

lemma Handle_single:
  "Handle [[Some callback]] k h packet s =
    (if k = 0 \<and> Holder_GetOrdinal packet = 0 then callback h packet s else Some (SuccessErrorable False, s))"
proof -
  have "Suc 0 \<le> unat x \<longleftrightarrow> x \<noteq> 0" for x :: u32 by (simp add: Suc_le_eq unat_gt_0)
  then show ?thesis by (simp add: Handle_def Let_def)
qed

lemma shape_table_keeps:
  assumes "Handle (shape_table shape callback) k h packet s = Some (e, s1)"
    and "\<And>h fs s e s1. callback h fs s = Some (e, s1) \<Longrightarrow> conn_keeps s s1"
  shows "conn_keeps s s1"
  using assms(1)
  by (auto simp: Handle_single shape_table_def packet_callback_def Let_def split: if_splits option.splits elim!: bind_SomeE
      dest!: read_shape_keeps assms(2) intro: keeps_trans)

lemma side_classes_laws:
  assumes "\<And>k h packet s e s1. Handle table k h packet s = Some (e, s1) \<Longrightarrow> conn_keeps s s1"
  shows "library_classes (side_classes sw sc table)"
  by unfold_locales (use assms in \<open>auto simp: side_classes_def ByteBytePipe_Read_def ByteBytePipe_Write_def
      intro: moves_side_packet_read moves_side_packet_write moves_side_closer_write moves_side_closer_close split: if_splits\<close>)

text \<open>A server that answers every packet with the same packet.\<close>

interpretation silent: library_classes "side_classes sw sc []" for sw sc
  by (rule side_classes_laws) (simp add: Handle_def)

definition echo ::
  "'k sys_write \<Rightarrow> 'k sys_close \<Rightarrow> nat \<Rightarrow> field list \<Rightarrow> 'k side conn_state \<Rightarrow> (bool errorable \<times> 'k side conn_state) option" where
  "echo sw sc handler fs s = map_option (Pair (SuccessErrorable True)) (WriteAndFlush (side_classes sw sc []) fs s)"

lemma echo_keeps: "echo sw sc h fs s = Some (e, s1) \<Longrightarrow> conn_keeps s s1"
  by (auto simp: echo_def intro: silent.conn_step_keeps step_WriteAndFlush)

abbreviation echo_classes :: "'k sys_write \<Rightarrow> 'k sys_close \<Rightarrow> field list \<Rightarrow> ('k side, field list) classes" where
  "echo_classes sw sc shape \<equiv> side_classes sw sc (shape_table shape (echo sw sc))"

interpretation server: library_loop "echo_classes sw sc shape" "side_closer_read sr" for sw sc shape sr
  by (intro library_loop.intro side_classes_laws library_loop_axioms.intro)
    (erule shape_table_keeps, erule echo_keeps, auto simp: side_closer_read_def split: prod.splits intro: moves_rest)

end
