(* ===== verification/Ship_Network_Safety.thy ===== *)
theory Ship_Network_Safety
  imports Ship_Stack
begin

text \<open>
  The safety of the network part as a whole: what holds of every connection in every state it reaches, and of all connections
  after any number of rounds of the event loop.  The witnesses run on the classes of \<open>Ship_Stack\<close>.
\<close>

section \<open>A connection that is made and deleted\<close>

definition empty_world :: "'x \<Rightarrow> 'x world" where
  "empty_world x = \<lparr>mem = mem0, next_object = 1, byte_buffers = Map.empty, connectionWriteBuffer = 0, errno = 0, outside = x\<rparr>"

lemma empty_world_owned: "world_owned (empty_world x)" "next_object (empty_world x) = 1"
  by (simp_all add: empty_world_def world_owned_def mem0_def mem_ok_def)

lemma page_owner:
  assumes "world_owned w" and "x \<in> dom (pages (mem w))"
  shows "\<exists>!a. x \<in> owned_pages (byte_buffers w a)"
proof -
  obtain a where a: "x \<in> owned_pages (byte_buffers w a)" using assms unfolding world_owned_def by blast
  moreover have "c = a" if "x \<in> owned_pages (byte_buffers w c)" for c
    using assms(1) a that unfolding world_owned_def by blast
  ultimately show ?thesis by (rule ex1I)
qed

text \<open>The destructor returns when the objects around it can be deleted.\<close>

lemma new_deletes:
  assumes "Connection_new p h rl wl 12 el (empty_world x) = (c, w)" and "p \<noteq> 12" and "h \<noteq> 12"
  shows "\<exists>w2. Connection_delete (side_classes sw sc table) (SetOnClose (Some Some) c, w) = Some w2"
    and "h' \<noteq> 12 \<Longrightarrow> \<exists>w2. Connection_delete (side_classes sw sc table) (SetOnClose (Some Some) (AppendPacketHandler h' c), w) = Some w2"
  using assms
  by (auto simp: Connection_new_def new_buffer_def ByteBufferImpl_new_def new_page_def empty_world_def Connection_delete_def
      SetOnClose_def AppendPacketHandler_def delete_buffer_def Impl_Release_def delete_page_def side_classes_def side_closer_close_def
      split: prod.splits)

text \<open>C3.  In every state a connection reaches from its constructor by public methods the pages are divided among
  the live buffers, each page having exactly one owner, and the handlers' list nodes are distinct; and when it is
  deleted its two buffers are gone, with no page left behind that nobody owns.  The classes of the application may do anything that
  goes through the methods of buffers and connections.\<close>

theorem connection_lifecycle:
  assumes "library_classes E" and "world_owned w" and "0 < next_object w"
    and "Connection_new p h rl wl rw el w = (c0, w0)" and "rtranclp (conn_step E) (c0, w0) (c, w1)"
  shows "world_owned w1 \<and> distinct (map fst (packetHandlers c)) \<and>
    (\<forall>w2. Connection_delete E (c, w1) = Some w2 \<longrightarrow>
      world_owned w2 \<and> byte_buffers w2 (readerBuffer c) = None \<and> byte_buffers w2 (writerBuffer c) = None)"
proof -
  note new = Connection_new_ok [OF assms(2-4)]
  have k: "conn_keeps (c0, w0) (c, w1)" using assms(1,5) by (rule library_classes.conn_steps_keep)
  then have own: "world_owned w1" and c: "nodes_ok c" "onclose_ok c" "readerBuffer c \<noteq> 0" "writerBuffer c \<noteq> 0"
    using new owned_world_moves [of w0 w1] by (auto simp: conn_keeps_def)
  show ?thesis
    using own c(1) library_classes.Connection_delete_moves [OF assms(1) _ c(2) own c(3,4)] by (auto simp: nodes_ok_def gone_def)
qed

text \<open>A connection of the echo server gets another handler and a closing callback, and is deleted.\<close>

theorem connection_lifecycle_witness:
  "\<exists>c0 w c w2. Connection_new 10 11 4 4 12 13 (empty_world sample_side) = (c0, w) \<and>
     c = SetOnClose (Some Some) (AppendPacketHandler 14 c0) \<and> distinct (map fst (packetHandlers c)) \<and>
     Connection_delete (echo_classes take_all (\<lambda>_ k. k) [FByte 0]) (c, w) = Some w2 \<and>
     world_owned w2 \<and> byte_buffers w2 (readerBuffer c) = None"
proof -
  let ?E = "echo_classes take_all (\<lambda>_ k. k) [FByte 0]"
  obtain c0 w where new: "Connection_new 10 11 4 4 12 13 (empty_world sample_side) = (c0, w)" by (metis surj_pair)
  let ?c1 = "AppendPacketHandler 14 c0" and ?c = "SetOnClose (Some Some) (AppendPacketHandler 14 c0)"
  have "onclose_ok ?c" by (simp add: onclose_ok_def SetOnClose_def)
  then have run: "rtranclp (conn_step ?E) (c0, w) (?c, w)"
    by (meson rtranclp.intros step_AppendPacketHandler step_SetOnClose)
  obtain w2 where w2: "Connection_delete ?E (?c, w) = Some w2"
    using new_deletes(2) [OF new] by fastforce
  have "0 < next_object (empty_world sample_side)" by (simp add: empty_world_owned)
  from connection_lifecycle [OF server.library_classes_axioms empty_world_owned(1) this new run] new w2
  show ?thesis by blast
qed

section \<open>Any number of rounds\<close>

text \<open>After any number of rounds of the event loop, whatever arrives on the sockets and however connections fail or
  disconnect, the pages in memory are divided among the live buffers: each page belongs to exactly one of them.  Classes,
  tasks and kernel are assumed to touch buffers through their methods only.\<close>

lemma event_loop_keeps_ownership:
  assumes "library_loop E rd" and "network_ok n"
    and "\<forall>f n rs n1. network_ok n \<and> run f n = Some (rs, n1) \<longrightarrow> network_ok n1"
    and "\<forall>fd k t n es n1. network_ok n \<and> epoll_wait fd k t n = (es, n1) \<longrightarrow> network_ok n1"
    and "loop_rounds k E rd run clock epoll_wait l tasks n = Some (tasks1, n1)"
  shows "network_ok n1 \<and>
    (\<forall>x \<in> dom (pages (mem (snd n1))). \<exists>!a. x \<in> owned_pages (byte_buffers (snd n1) a))"
proof -
  have "network_ok n1"
    by (rule library_loop.loop_rounds_ok [OF assms(1) _ _ assms(5,2)]) (use assms(3,4) in blast)+
  then show ?thesis using page_owner [of "snd n1"] by (simp add: network_ok_def)
qed

text \<open>One connection, which the kernel reports as closed by its peer.\<close>

lemma event_loop_keeps_ownership_witness:
  "\<exists>c0 w n1. Connection_new 10 11 4 4 12 13 (empty_world sample_side) = (c0, w) \<and>
     loop_rounds 1 (echo_classes take_all (\<lambda>_ k. k) [FByte 0]) (side_closer_read (\<lambda>_ _ k. (-1, EAGAIN, [], k)))
       (\<lambda>_ n. Some ([], n)) (\<lambda>_. 0) (\<lambda>_ _ _ n. ([(True, 3)], n)) (EpollEventLoop_new 4 16 (-1) 64)
       (EventLoop_new :: unit event_loop) ([3 \<mapsto> SetOnClose (Some Some) c0], w) = Some (EventLoop_new, n1) \<and>
     fst n1 = Map.empty \<and> network_ok n1"
proof -
  let ?E = "echo_classes take_all (\<lambda>_ k. k) [FByte 0]" and ?rd = "side_closer_read (\<lambda>_ _ k. (-1, EAGAIN, [], k))"
  let ?wait = "\<lambda>_ _ _ n. ([(True, 3)], n)" and ?run = "\<lambda>(_ :: unit) n. Some ([], n)"
  obtain c0 w where new: "Connection_new 10 11 4 4 12 13 (empty_world sample_side) = (c0, w)" by (metis surj_pair)
  let ?n = "([3 \<mapsto> SetOnClose (Some Some) c0], w) :: u8 list side network"
  have ok: "network_ok ?n"
    using Connection_new_ok [OF empty_world_owned(1) _ new] empty_world_owned(2) [of sample_side]
    by (auto simp: network_ok_def SetOnClose_def nodes_ok_def onclose_ok_def)
  obtain w2 where w2: "Connection_delete ?E (SetOnClose (Some Some) c0, w) = Some w2"
    using new_deletes [OF new] by fastforce
  have "delete_connection ?E 3 ?n = Some (Map.empty, w2)" using w2 by (simp add: delete_connection_def)
  moreover have "ProceedTasks ?run (\<lambda>_. 0) EventLoop_new ?n = Some (EventLoop_new, ?n)"
    by (simp add: ProceedTasks_def run_immediate.simps EventLoop_new_def)
  ultimately have run: "loop_rounds 1 ?E ?rd ?run (\<lambda>_. 0) ?wait (EpollEventLoop_new 4 16 (-1) 64) EventLoop_new ?n
      = Some (EventLoop_new, (Map.empty, w2))"
    by (simp add: loop_round_def)
  show ?thesis
    using event_loop_keeps_ownership [OF server.library_loop_axioms ok _ _ run] new run by auto
qed

end
