(* ===== verification/Ship_Sockets.thy ===== *)
theory Ship_Sockets
  imports Ship_Epoll
begin

text \<open>
  Opening sockets: \<open>SocketAddress\<close>, \<open>EpollListener\<close> (\<open>network/listener\<close>) and \<open>UnixConnector\<close> (\<open>network/connector\<close>).  The
  system calls are the record \<open>socket_calls\<close> of functions on the state \<open>'s\<close> (the kernel and all that hangs on it).
\<close>

section \<open>Addresses and system calls\<close>

record socket_address =
  hostname :: string
  port :: u16

definition GetHostname :: "socket_address \<Rightarrow> string" where
  "GetHostname a = hostname a"

definition GetPort :: "socket_address \<Rightarrow> u16" where
  "GetPort a = port a"

text \<open>\<open>ioctl\<close> has its third argument only when it is passed; the address of a socket is the port in network order and the result of
  \<open>inet_addr\<close>.\<close>

record 's socket_calls =
  sys_socket :: "'s \<Rightarrow> int \<times> 's"
  sys_ioctl_nonblocking :: "int \<Rightarrow> int option \<Rightarrow> 's \<Rightarrow> int \<times> 's"
  inet_addr :: "string \<Rightarrow> u32"
  sys_bind :: "int \<Rightarrow> u16 \<times> u32 \<Rightarrow> 's \<Rightarrow> int \<times> 's"
  sys_connect :: "int \<Rightarrow> u16 \<times> u32 \<Rightarrow> 's \<Rightarrow> int \<times> 's"
  sys_listen :: "int \<Rightarrow> 's \<Rightarrow> int \<times> 's"
  sys_epoll_create :: "'s \<Rightarrow> int \<times> 's"
  sys_epoll_add :: "int \<Rightarrow> int \<Rightarrow> 's \<Rightarrow> int \<times> 's"
  sys_accept :: "int \<Rightarrow> 's \<Rightarrow> int \<times> 's"
  sys_close_fd :: "int \<Rightarrow> 's \<Rightarrow> 's"
  errno_of :: "'s \<Rightarrow> int"

definition htons :: "u16 \<Rightarrow> u16" where
  "htons p = push_bit 8 p OR drop_bit 8 p"

definition errno_error :: "'s socket_calls \<Rightarrow> int \<Rightarrow> 's \<Rightarrow> int errorable \<times> 's" where
  "errno_error K v s = (ErrnoErrorable v (of_int (errno_of K s)), s)"

section \<open>EpollListener\<close>

text \<open>The event loop the listener points to is what the arguments \<open>accept\<close> and \<open>delete_loop\<close> below work on.\<close>

record epoll_listener =
  listenerMaxEvents :: int
  listenerTimeout :: int
  listenerEpoll :: int
  listenerSocket :: int

definition EpollListener_new :: "int \<Rightarrow> int \<Rightarrow> epoll_listener" where
  "EpollListener_new max_events timeout =
     \<lparr>listenerMaxEvents = max_events, listenerTimeout = timeout, listenerEpoll = 0, listenerSocket = 0\<rparr>"

text \<open>The last step of the destructor deletes the event loop.\<close>

definition EpollListener_delete :: "'s socket_calls \<Rightarrow> ('s \<Rightarrow> 's option) \<Rightarrow> epoll_listener \<Rightarrow> 's \<Rightarrow> 's option" where
  "EpollListener_delete K delete_loop l s =
     delete_loop (sys_close_fd K (listenerSocket l) (sys_close_fd K (listenerEpoll l) s))"

definition Listener_Bind ::
  "'s socket_calls \<Rightarrow> socket_address \<Rightarrow> epoll_listener \<Rightarrow> 's \<Rightarrow> int errorable \<times> epoll_listener \<times> 's" where
  "Listener_Bind K address l s =
     (let (fd, s1) = sys_socket K s; l1 = l\<lparr>listenerSocket := fd\<rparr>;
          fail = (\<lambda>v l s. case errno_error K v s of (e, s) \<Rightarrow> (e, l, s)) in
      if fd = -1 then fail fd l1 s1
      else let (r, s2) = sys_ioctl_nonblocking K fd (Some 1) s1 in
      if r = -1 then fail fd l1 s2
      else let bindAddress = (htons (GetPort address), inet_addr K (GetHostname address));
               (r, s3) = sys_bind K fd bindAddress s2 in
      if r = -1 then fail fd l1 s3
      else let (r, s4) = sys_listen K fd s3 in
      if r = -1 then fail fd l1 s4
      else let (ep, s5) = sys_epoll_create K s4; l2 = l1\<lparr>listenerEpoll := ep\<rparr> in
      if ep = -1 then fail ep l2 s5
      else let (r, s6) = sys_epoll_add K ep fd s5 in
      if r = -1 then fail ep l2 s6
      else (SuccessErrorable ep, l2, s6))"

definition Listener_Accept :: "'s socket_calls \<Rightarrow> int \<Rightarrow> 's \<Rightarrow> int errorable \<times> 's" where
  "Listener_Accept K fd s =
     (let (received, s1) = sys_accept K fd s in
      if received = -1 then errno_error K received s1 else (SuccessErrorable received, s1))"

text \<open>The loop over the waiting connections; \<open>accept\<close> is \<open>EpollEventLoop::Accept\<close>, and \<open>event_fd\<close> the descriptor of the event.\<close>

partial_function (option) accept_loop ::
  "'s socket_calls \<Rightarrow> (int \<Rightarrow> 's \<Rightarrow> 's option) \<Rightarrow> epoll_listener \<Rightarrow> int \<Rightarrow> 's \<Rightarrow> 's option" where
  "accept_loop K accept l event_fd s =
     (let (received, s1) = Listener_Accept K (listenerSocket l) s in
      if GetTypeOrdinal received = Errno_T \<and> errno_of K s1 = EAGAIN then Some s1
      else if \<not> IsSuccess received
      then Some (sys_close_fd K (listenerEpoll l) (sys_close_fd K event_fd s1))
      else do { s2 \<leftarrow> accept (GetValue received) s1; accept_loop K accept l event_fd s2 })"

fun listen_events ::
  "'s socket_calls \<Rightarrow> (int \<Rightarrow> 's \<Rightarrow> 's option) \<Rightarrow> epoll_listener \<Rightarrow> int list \<Rightarrow> 's \<Rightarrow> 's option" where
  "listen_events K accept l [] s = Some s"
| "listen_events K accept l (event_fd # events) s =
     do { s1 \<leftarrow> accept_loop K accept l event_fd s; listen_events K accept l events s1 }"

text \<open>One round of \<open>StartListening\<close>, which never returns.\<close>

definition listen_round ::
  "'s socket_calls \<Rightarrow> (int \<Rightarrow> 's \<Rightarrow> 's option) \<Rightarrow> (int \<Rightarrow> int \<Rightarrow> int \<Rightarrow> 's \<Rightarrow> int list \<times> 's) \<Rightarrow> epoll_listener \<Rightarrow> 's \<Rightarrow> 's option" where
  "listen_round K accept epoll_wait l s =
     (let (events, s1) = epoll_wait (listenerEpoll l) (listenerMaxEvents l) (listenerTimeout l) s
      in listen_events K accept l events s1)"

text \<open>The state after a number of rounds.\<close>

fun listen_rounds ::
  "nat \<Rightarrow> 's socket_calls \<Rightarrow> (int \<Rightarrow> 's \<Rightarrow> 's option) \<Rightarrow> (int \<Rightarrow> int \<Rightarrow> int \<Rightarrow> 's \<Rightarrow> int list \<times> 's) \<Rightarrow> epoll_listener \<Rightarrow> 's \<Rightarrow> 's option" where
  "listen_rounds 0 K accept epoll_wait l s = Some s"
| "listen_rounds (Suc n) K accept epoll_wait l s =
     do { s1 \<leftarrow> listen_round K accept epoll_wait l s; listen_rounds n K accept epoll_wait l s1 }"

section \<open>UnixConnector\<close>

text \<open>The call of \<open>ioctl\<close> leaves out the argument that turns the option on.\<close>

definition Connect ::
  "'s socket_calls \<Rightarrow> (int \<Rightarrow> 's \<Rightarrow> 's option) \<Rightarrow> string \<Rightarrow> u16 \<Rightarrow> 's \<Rightarrow> (int errorable \<times> 's) option" where
  "Connect K accept bind_address p s =
     (let (fd, s1) = sys_socket K s in
      if fd = -1 then Some (errno_error K fd s1)
      else let (r, s2) = sys_ioctl_nonblocking K fd None s1 in
      if r = -1 then Some (errno_error K fd s2)
      else let (r, s3) = sys_connect K fd (htons p, inet_addr K bind_address) s2 in
      if r = -1 then Some (errno_error K fd s3)
      else do { s4 \<leftarrow> accept fd s3; Some (SuccessErrorable fd, s4) })"

section \<open>What they do\<close>

text \<open>Every connection that is waiting is accepted, in order, until the kernel has no more.\<close>

lemma accept_loop_drains:
  assumes "\<And>fd s. accept fd s = Some (act fd s)" and "\<And>fd s. backlog (act fd s) = backlog s"
    and "\<And>s. sys_accept K (listenerSocket l) s = (case backlog s of [] \<Rightarrow> (-1, s) | fd # fds \<Rightarrow> (fd, pop s))"
    and "\<And>s. backlog (pop s) = tl (backlog s)" and "-1 \<notin> set (backlog s)" and "\<And>s. errno_of K s = EAGAIN"
  shows "accept_loop K accept l e s = Some (fold (\<lambda>fd s. act fd (pop s)) (backlog s) s)"
  using assms(5)
proof (induction "backlog s" arbitrary: s)
  case Nil
  then have "sys_accept K (listenerSocket l) s = (-1, s)" by (simp add: assms(3))
  then show ?case using Nil
    by (subst accept_loop.simps) (simp add: Listener_Accept_def errno_error_def assms(6))
next
  case (Cons fd fds)
  note w = Cons.hyps(2) [symmetric]
  have acc: "sys_accept K (listenerSocket l) s = (fd, pop s)" "fd \<noteq> -1" using w Cons.prems by (auto simp: assms(3))
  have nx: "fds = backlog (act fd (pop s))" by (simp add: assms(2,4) w)
  then have "-1 \<notin> set (backlog (act fd (pop s)))" using Cons.prems w by auto
  from Cons.hyps(1) [OF nx this] show ?case
    using acc w nx by (subst accept_loop.simps) (simp add: Listener_Accept_def assms(1))
qed

text \<open>\<open>Bind\<close> succeeds exactly when all six calls do; after a failure the descriptors it has opened stay open.\<close>

lemma bind_succeeds_iff:
  "IsSuccess (fst (Listener_Bind K address l s)) \<longleftrightarrow>
    (case sys_socket K s of (fd, s1) \<Rightarrow> fd \<noteq> -1 \<and>
      (case sys_ioctl_nonblocking K fd (Some 1) s1 of (r2, s2) \<Rightarrow> r2 \<noteq> -1 \<and>
        (case sys_bind K fd (htons (GetPort address), inet_addr K (GetHostname address)) s2 of (r3, s3) \<Rightarrow> r3 \<noteq> -1 \<and>
          (case sys_listen K fd s3 of (r4, s4) \<Rightarrow> r4 \<noteq> -1 \<and>
            (case sys_epoll_create K s4 of (ep, s5) \<Rightarrow> ep \<noteq> -1 \<and> fst (sys_epoll_add K ep fd s5) \<noteq> -1)))))"
  by (auto simp: Listener_Bind_def errno_error_def Let_def split: prod.splits)

end
