(* ===== verification/Ship_Listener.thy ===== *)
theory Ship_Listener
  imports Ship_Sockets
begin

text \<open>
  What opening sockets does to the descriptors of the process.  \<open>fds\<close> are the open descriptors in a state, and
  \<open>descriptor_laws\<close> is what the manual pages say of the system calls: \<open>socket\<close>, \<open>epoll_create1\<close> and \<open>accept4\<close>
  return a descriptor that was not open, or fail and open none; \<open>close\<close> takes one away; the others change none.
\<close>

section \<open>Descriptors\<close>

definition opens :: "('s \<Rightarrow> int set) \<Rightarrow> ('s \<Rightarrow> int \<times> 's) \<Rightarrow> bool" where
  "opens fds f \<longleftrightarrow> (\<forall>s fd s1. f s = (fd, s1) \<longrightarrow>
     (if fd = -1 then fds s1 = fds s else fd \<notin> fds s \<and> fds s1 = insert fd (fds s)))"

definition leaves :: "('s \<Rightarrow> int set) \<Rightarrow> ('s \<Rightarrow> int \<times> 's) \<Rightarrow> bool" where
  "leaves fds f \<longleftrightarrow> (\<forall>s. fds (snd (f s)) = fds s)"

definition descriptor_laws :: "'s socket_calls \<Rightarrow> ('s \<Rightarrow> int set) \<Rightarrow> bool" where
  "descriptor_laws K fds \<longleftrightarrow>
     opens fds (sys_socket K) \<and> opens fds (sys_epoll_create K) \<and> (\<forall>fd. opens fds (sys_accept K fd)) \<and>
     (\<forall>fd a. leaves fds (sys_ioctl_nonblocking K fd a)) \<and> (\<forall>fd a. leaves fds (sys_bind K fd a)) \<and>
     (\<forall>fd a. leaves fds (sys_connect K fd a)) \<and> (\<forall>fd. leaves fds (sys_listen K fd)) \<and>
     (\<forall>fd e. leaves fds (sys_epoll_add K e fd)) \<and>
     (\<forall>fd s. fds (sys_close_fd K fd s) = fds s - {fd})"

lemma opensD:
  assumes "opens fds f" and "f s = (fd, s1)"
  shows "fd = -1 \<Longrightarrow> fds s1 = fds s" and "fd \<noteq> -1 \<Longrightarrow> fd \<notin> fds s \<and> fds s1 = insert fd (fds s)"
  using assms by (auto simp: opens_def split: if_splits)

lemma leavesD: "leaves fds f \<Longrightarrow> f s = (r, s1) \<Longrightarrow> fds s1 = fds s"
  by (metis leaves_def snd_conv)

lemma descriptor_lawsD:
  assumes "descriptor_laws K fds"
  shows "opens fds (sys_socket K)" "opens fds (sys_epoll_create K)" "opens fds (sys_accept K fd)"
    "leaves fds (sys_ioctl_nonblocking K fd a)" "leaves fds (sys_bind K fd b)" "leaves fds (sys_connect K fd b)"
    "leaves fds (sys_listen K fd)" "leaves fds (sys_epoll_add K e fd)" "fds (sys_close_fd K fd s) = fds s - {fd}"
  using assms by (simp_all add: descriptor_laws_def del: split_paired_All)

section \<open>A listener\<close>

text \<open>What \<open>Bind\<close> leaves in the listener and open in the process, on every branch.\<close>

lemma Bind_descriptors:
  assumes laws: "descriptor_laws K fds" and run: "Listener_Bind K address l s = (e, l1, s1)"
  shows "(IsSuccess e \<longrightarrow> listenerSocket l1 \<noteq> -1 \<and> listenerEpoll l1 \<noteq> -1 \<and> listenerEpoll l1 \<notin> fds s) \<and>
    (listenerEpoll l1 = listenerEpoll l \<and> listenerSocket l1 = -1 \<and> \<not> IsSuccess e \<and> fds s1 = fds s \<or>
     listenerSocket l1 \<noteq> -1 \<and> listenerSocket l1 \<notin> fds s \<and>
      (listenerEpoll l1 \<in> {-1, listenerEpoll l} \<and> \<not> IsSuccess e \<and> fds s1 = insert (listenerSocket l1) (fds s) \<or>
       listenerEpoll l1 \<notin> fds s \<and> listenerEpoll l1 \<noteq> listenerSocket l1 \<and> listenerEpoll l1 \<noteq> -1 \<and>
         fds s1 = insert (listenerEpoll l1) (insert (listenerSocket l1) (fds s))))"
proof -
  note L = descriptor_lawsD [OF laws]
  obtain fd t1 where t1: "sys_socket K s = (fd, t1)" by force
  obtain r2 t2 where t2: "sys_ioctl_nonblocking K fd (Some 1) t1 = (r2, t2)" by force
  obtain r3 t3 where t3: "sys_bind K fd (htons (GetPort address), inet_addr K (GetHostname address)) t2 = (r3, t3)" by force
  obtain r4 t4 where t4: "sys_listen K fd t3 = (r4, t4)" by force
  obtain ep t5 where t5: "sys_epoll_create K t4 = (ep, t5)" by force
  obtain r6 t6 where t6: "sys_epoll_add K ep fd t5 = (r6, t6)" by force
  have same: "fds t2 = fds t1" "fds t3 = fds t1" "fds t4 = fds t1" "fds t6 = fds t5"
    using leavesD [OF L(4) t2] leavesD [OF L(5) t3] leavesD [OF L(7) t4] leavesD [OF L(8) t6] by simp_all
  note sock = opensD [OF L(1) t1] and poll = opensD [OF L(2) t5]
  consider "fd = -1" | "fd \<noteq> -1" "r2 = -1 \<or> r3 = -1 \<or> r4 = -1" | "fd \<noteq> -1" "r2 \<noteq> -1" "r3 \<noteq> -1" "r4 \<noteq> -1" by blast
  then show ?thesis
  proof cases
    case 1
    then have "e = ErrnoErrorable fd (of_int (errno_of K t1)) \<and> l1 = l\<lparr>listenerSocket := fd\<rparr> \<and> s1 = t1"
      using run by (auto simp: Listener_Bind_def t1 errno_error_def)
    then show ?thesis using 1 sock(1) by simp
  next
    case 2
    then have "\<not> IsSuccess e \<and> l1 = l\<lparr>listenerSocket := fd\<rparr> \<and> fds s1 = fds t1"
      using run same by (elim disjE) (auto simp: Listener_Bind_def Let_def t1 t2 t3 t4 errno_error_def split: if_splits)
    then show ?thesis using sock(2) [OF 2(1)] 2(1) by simp
  next
    case 3
    then have "l1 = l\<lparr>listenerSocket := fd, listenerEpoll := ep\<rparr> \<and> fds s1 = fds t5 \<and> (IsSuccess e \<longrightarrow> ep \<noteq> -1)"
      using run same by (auto simp: Listener_Bind_def Let_def t1 t2 t3 t4 t5 t6 errno_error_def split: if_splits)
    moreover have "ep = -1 \<Longrightarrow> \<not> IsSuccess e" using calculation by blast
    ultimately show ?thesis using sock(2) [OF 3(1)] poll same(3) 3(1) by (cases "ep = -1") auto
  qed
qed

lemma delete_descriptors:
  assumes "descriptor_laws K fds"
  shows "\<exists>s2. EpollListener_delete K delete_loop l s = delete_loop s2 \<and> fds s2 = fds s - {listenerEpoll l, listenerSocket l}"
proof -
  let ?s2 = "sys_close_fd K (listenerSocket l) (sys_close_fd K (listenerEpoll l) s)"
  have "fds ?s2 = fds s - {listenerEpoll l, listenerSocket l}" by (auto simp: descriptor_lawsD(9) [OF assms])
  then show ?thesis by (intro exI [of _ ?s2]) (simp add: EpollListener_delete_def)
qed

text \<open>C11.  A listener that was bound gives back exactly the descriptors it opened when it is deleted.  One whose \<open>Bind\<close>
  failed before it had an epoll descriptor, say because the port is in use, closes descriptor 0 as well, which is not its
  own: the fields are 0 until they are assigned.  So does one that was never bound.\<close>

theorem listener_descriptors:
  assumes "descriptor_laws K fds" and "-1 \<notin> fds s"
    and "Listener_Bind K address (EpollListener_new max_events timeout) s = (e, l1, s1)"
  shows "(\<exists>s2. EpollListener_delete K delete_loop l1 s1 = delete_loop s2 \<and>
      fds s2 = fds s - (if listenerEpoll l1 = 0 then {0} else {}) \<and> (IsSuccess e \<longrightarrow> fds s2 = fds s)) \<and>
    (\<exists>s2. EpollListener_delete K delete_loop (EpollListener_new max_events timeout) s = delete_loop s2 \<and> fds s2 = fds s - {0})"
proof
  let ?new = "EpollListener_new max_events timeout"
  have fields: "listenerEpoll ?new = 0" "listenerSocket ?new = 0" by (simp_all add: EpollListener_new_def)
  obtain s2 where s2: "EpollListener_delete K delete_loop l1 s1 = delete_loop s2"
    "fds s2 = fds s1 - {listenerEpoll l1, listenerSocket l1}"
    using delete_descriptors [OF assms(1)] by blast
  have "fds s2 = fds s - (if listenerEpoll l1 = 0 then {0} else {}) \<and> (IsSuccess e \<longrightarrow> fds s2 = fds s)"
    using Bind_descriptors [OF assms(1,3)] unfolding s2(2) fields
  proof (elim conjE disjE)
  qed (use assms(2) in auto)
  then show "\<exists>s2. EpollListener_delete K delete_loop l1 s1 = delete_loop s2 \<and>
      fds s2 = fds s - (if listenerEpoll l1 = 0 then {0} else {}) \<and> (IsSuccess e \<longrightarrow> fds s2 = fds s)"
    using s2(1) by blast
  show "\<exists>s2. EpollListener_delete K delete_loop ?new s = delete_loop s2 \<and> fds s2 = fds s - {0}"
    using delete_descriptors [OF assms(1), of delete_loop ?new s] by (simp add: fields)
qed

text \<open>
  A kernel for the witnesses: the number of the next descriptor and the descriptors below it that are open; \<open>bound\<close> is the result
  of \<open>bind\<close> and \<open>connect\<close>, \<open>accepted\<close> that of \<open>accept4\<close>.
\<close>

type_synonym kernel_fds = "nat \<times> int set"

definition open_fds :: "kernel_fds \<Rightarrow> int set" where
  "open_fds k = snd k \<inter> {..<int (fst k)}"

fun fresh_fd :: "kernel_fds \<Rightarrow> int \<times> kernel_fds" where
  "fresh_fd (n, S) = (int n, Suc n, insert (int n) S)"

definition sample_calls :: "int \<Rightarrow> (kernel_fds \<Rightarrow> int \<times> kernel_fds) \<Rightarrow> kernel_fds socket_calls" where
  "sample_calls bound accepted =
     \<lparr>sys_socket = fresh_fd, sys_ioctl_nonblocking = \<lambda>_ _ k. (0, k), inet_addr = \<lambda>_. 0x0100007F,
      sys_bind = \<lambda>_ _ k. (bound, k), sys_connect = \<lambda>_ _ k. (bound, k), sys_listen = \<lambda>_ k. (0, k),
      sys_epoll_create = fresh_fd, sys_epoll_add = \<lambda>_ _ k. (0, k), sys_accept = \<lambda>_. accepted,
      sys_close_fd = \<lambda>fd k. (fst k, snd k - {fd}), errno_of = \<lambda>_. 98\<rparr>"

lemma sample_calls_laws:
  assumes "opens open_fds accepted"
  shows "descriptor_laws (sample_calls bound accepted) open_fds"
proof -
  have "opens open_fds fresh_fd" by (auto simp: opens_def open_fds_def)
  then show ?thesis using assms
    by (auto simp: descriptor_laws_def sample_calls_def leaves_def open_fds_def)
qed

lemma no_accept: "opens open_fds (\<lambda>k. (-1, k))"
  by (simp add: opens_def)

text \<open>The port is in use (error 98): the failed listener takes standard input with it.\<close>

theorem listener_descriptors_witness:
  "\<exists>e l1 s1 s2. Listener_Bind (sample_calls (-1) (\<lambda>k. (-1, k))) \<lparr>hostname = ''127.0.0.1'', port = 25565\<rparr>
      (EpollListener_new 16 (-1)) (3, {0, 2}) = (e, l1, s1) \<and> open_fds s1 = {0, 2, 3} \<and>
    EpollListener_delete (sample_calls (-1) (\<lambda>k. (-1, k))) Some l1 s1 = Some s2 \<and> open_fds s2 = {2}"
proof -
  let ?K = "sample_calls (-1) (\<lambda>k. (-1, k))" and ?a = "\<lparr>hostname = ''127.0.0.1'', port = 25565\<rparr>"
  let ?l1 = "EpollListener_new 16 (-1)\<lparr>listenerSocket := 3\<rparr>"
  have fds: "-1 \<notin> open_fds (3, {0, 2})" "open_fds (3, {0, 2}) = {0, 2}" by (auto simp: open_fds_def)
  have bind: "Listener_Bind ?K ?a (EpollListener_new 16 (-1)) (3, {0, 2}) = (ErrnoErrorable 3 98, ?l1, (4, {0, 2, 3}))"
    by (auto simp: Listener_Bind_def sample_calls_def Let_def errno_error_def)
  have open1: "open_fds (4, {0, 2, 3}) = {0, 2, 3}" by (auto simp: open_fds_def)
  have ep: "listenerEpoll ?l1 = 0" by (simp add: EpollListener_new_def)
  obtain s2 where "EpollListener_delete ?K Some ?l1 (4, {0, 2, 3}) = Some s2" "open_fds s2 = {0, 2} - {0}"
    using listener_descriptors [OF sample_calls_laws [OF no_accept] fds(1) bind, of Some] unfolding ep fds(2) by auto
  then show ?thesis using bind open1 by (cases s2) auto
qed

section \<open>Connecting\<close>

text \<open>C29.  \<open>Connect\<close> on every branch.  It succeeds exactly when the three system calls do and the event loop takes the
  socket; whatever fails after \<open>socket\<close>, the error carries the descriptor, which stays open and which nothing else
  refers to.  The event loop is reached on no failing branch.\<close>

theorem connect_outcome:
  assumes "descriptor_laws K fds" and "Connect K accept host p s = Some (e, s')"
  shows "if IsSuccess e
    then \<exists>s3. GetValue e \<notin> fds s \<and> GetValue e \<noteq> -1 \<and> fds s3 = insert (GetValue e) (fds s) \<and> accept (GetValue e) s3 = Some s'
    else GetTypeOrdinal e = Errno_T \<and> GetErrorCode e = of_int (errno_of K s') \<and>
      (if GetValue e = -1 then fds s' = fds s else GetValue e \<notin> fds s \<and> fds s' = insert (GetValue e) (fds s))"
proof -
  note L = descriptor_lawsD [OF assms(1)]
  obtain fd t1 where t1: "sys_socket K s = (fd, t1)" by force
  obtain r2 t2 where t2: "sys_ioctl_nonblocking K fd None t1 = (r2, t2)" by force
  obtain r3 t3 where t3: "sys_connect K fd (htons p, inet_addr K host) t2 = (r3, t3)" by force
  note same = leavesD [OF L(4) t2] leavesD [OF L(6) t3]
  note sock = opensD [OF L(1) t1]
  have run: "(if fd = -1 then Some (errno_error K fd t1) else if r2 = -1 then Some (errno_error K fd t2)
      else if r3 = -1 then Some (errno_error K fd t3)
      else do { s4 \<leftarrow> accept fd t3; Some (SuccessErrorable fd, s4) }) = Some (e, s')"
    using assms(2) by (simp add: Connect_def Let_def t1 t2 t3 cong: if_cong)
  show ?thesis
  proof (cases "fd \<noteq> -1 \<and> r2 \<noteq> -1 \<and> r3 \<noteq> -1")
    case True
    then have "e = SuccessErrorable fd" "accept fd t3 = Some s'" using run by (auto split: bind_splits)
    then show ?thesis using True sock(2) same by auto
  next
    case False
    then obtain t where t: "t \<in> {t1, t2, t3}" "e = ErrnoErrorable fd (of_int (errno_of K t))" "s' = t"
      using run by (auto simp: errno_error_def split: if_splits)
    then have "fds s' = fds t1" using same by auto
    then show ?thesis using t(2,3) sock by (auto simp: ErrnoErrorable_def IsSuccess_def GetValue_def)
  qed
qed

text \<open>A refused connection.\<close>

theorem connect_outcome_witness:
  "\<exists>e s'. Connect (sample_calls (-1) (\<lambda>k. (-1, k))) (\<lambda>_ _. None) ''127.0.0.1'' 25565 (3, {0}) = Some (e, s') \<and>
    \<not> IsSuccess e \<and> GetErrorCode e = 98 \<and> open_fds s' = {0, 3}"
proof -
  let ?K = "sample_calls (-1) (\<lambda>k. (-1, k))"
  have c: "Connect ?K (\<lambda>_ _. None) ''127.0.0.1'' 25565 (3, {0}) = Some (ErrnoErrorable 3 98, (4, {0, 3}))"
    by (auto simp: Connect_def sample_calls_def Let_def errno_error_def)
  have "errno_of ?K s' = 98" for s' by (simp add: sample_calls_def)
  moreover have "open_fds (3, {0}) = {0}" by (auto simp: open_fds_def)
  ultimately show ?thesis using connect_outcome [OF sample_calls_laws [OF no_accept] c] c by auto
qed

section \<open>A failed accept\<close>

lemma accept_loop_fails:
  assumes "sys_accept K (listenerSocket l) s = (-1, s1)" and "errno_of K s1 \<noteq> EAGAIN"
  shows "accept_loop K accept l event_fd s = Some (sys_close_fd K (listenerEpoll l) (sys_close_fd K event_fd s1))"
  using assms by (subst accept_loop.simps) (simp add: Listener_Accept_def errno_error_def)

lemma deaf_rounds:
  assumes "\<And>k m t. fd \<notin> fds k \<Longrightarrow> \<exists>k1. epoll_wait fd m t k = ([], k1) \<and> fds k1 = fds k \<and> seen k1 = seen k"
    and "listenerEpoll l = fd"
  shows "fd \<notin> fds s \<Longrightarrow> \<exists>s3. listen_rounds n K accept epoll_wait l s = Some s3 \<and> fds s3 = fds s \<and> seen s3 = seen s"
proof (induction n arbitrary: s)
  case (Suc n)
  then obtain k1 where k1: "epoll_wait fd (listenerMaxEvents l) (listenerTimeout l) s = ([], k1)" "fds k1 = fds s" "seen k1 = seen s"
    using assms(1) by blast
  then have "listen_round K accept epoll_wait l s = Some k1" by (simp add: listen_round_def assms(2))
  then show ?case using Suc.IH [of k1] Suc.prems k1(2,3) by simp
qed simp

text \<open>C10.  One failing \<open>accept4\<close> ends the service for good.  On an error other than \<open>EAGAIN\<close>, such as a connection that was reset
  while it waited or a process out of descriptors, the listener closes its listening socket and its epoll descriptor and keeps
  waiting on the latter; with \<open>epoll_wait\<close> failing on a closed descriptor, no later round does anything
  (\<open>seen\<close> is whatever one observes of the process).\<close>

theorem failed_accept_stops_listener:
  assumes "descriptor_laws K fds"
    and "sys_accept K (listenerSocket l) s = (-1, s1)" and "errno_of K s1 \<noteq> EAGAIN"
    and "\<forall>fd k m t. fd \<notin> fds k \<longrightarrow> (\<exists>k1. epoll_wait fd m t k = ([], k1) \<and> fds k1 = fds k \<and> seen k1 = seen k)"
  shows "\<exists>s2. accept_loop K accept l (listenerSocket l) s = Some s2 \<and>
    fds s2 = fds s - {listenerSocket l, listenerEpoll l} \<and>
    (\<forall>n. \<exists>s3. listen_rounds n K accept epoll_wait l s2 = Some s3 \<and> fds s3 = fds s2 \<and> seen s3 = seen s2)"
proof -
  let ?s2 = "sys_close_fd K (listenerEpoll l) (sys_close_fd K (listenerSocket l) s1)"
  note L = descriptor_lawsD [OF assms(1)]
  have s2: "fds ?s2 = fds s - {listenerSocket l, listenerEpoll l}"
    using opensD(1) [OF L(3) assms(2)] by (auto simp: L(9))
  then have deaf: "listenerEpoll l \<notin> fds ?s2" by simp
  have wait: "\<exists>k1. epoll_wait (listenerEpoll l) m t k = ([], k1) \<and> fds k1 = fds k \<and> seen k1 = seen k"
    if "listenerEpoll l \<notin> fds k" for k m t
    using assms(4) that by blast
  show ?thesis
    using accept_loop_fails [OF assms(2,3), of accept "listenerSocket l"] s2
      deaf_rounds [where fds = fds and seen = seen and epoll_wait = epoll_wait and l = l and K = K and accept = accept,
        OF wait refl deaf] by blast
qed

theorem failed_accept_stops_listener_witness:
  "\<exists>s2 s3. accept_loop (sample_calls 0 (\<lambda>k. (-1, k))) (\<lambda>_ _. None)
      (EpollListener_new 16 (-1)\<lparr>listenerSocket := 3, listenerEpoll := 4\<rparr>) 3 (5, {0, 3, 4}) = Some s2 \<and> open_fds s2 = {0} \<and>
    listen_rounds 100 (sample_calls 0 (\<lambda>k. (-1, k))) (\<lambda>_ _. None) (\<lambda>fd _ _ k. (if fd \<in> open_fds k then [fd] else [], k))
      (EpollListener_new 16 (-1)\<lparr>listenerSocket := 3, listenerEpoll := 4\<rparr>) s2 = Some s3 \<and> open_fds s3 = {0}"
proof -
  let ?K = "sample_calls 0 (\<lambda>k. (-1, k))" and ?l = "EpollListener_new 16 (-1)\<lparr>listenerSocket := 3, listenerEpoll := 4\<rparr>"
  let ?wait = "\<lambda>fd (_ :: int) (_ :: int) k. (if fd \<in> open_fds k then [fd] else [], k)"
  have l: "listenerSocket ?l = 3" "listenerEpoll ?l = 4" by simp_all
  have start: "open_fds (5, {0, 3, 4}) = {0, 3, 4}" "{0, 3, 4} - {3, 4} = {0 :: int}" by (auto simp: open_fds_def)
  have fails: "sys_accept ?K (listenerSocket ?l) (5, {0, 3, 4}) = (-1, (5, {0, 3, 4}))" "errno_of ?K (5, {0, 3, 4}) \<noteq> EAGAIN"
    by (simp_all add: sample_calls_def EAGAIN_def)
  obtain s2 where s2: "accept_loop ?K (\<lambda>_ _. None) ?l 3 (5, {0, 3, 4}) = Some s2" "open_fds s2 = {0}"
    and rounds: "\<forall>n. \<exists>s3. listen_rounds n ?K (\<lambda>_ _. None) ?wait ?l s2 = Some s3 \<and> open_fds s3 = open_fds s2 \<and> () = ()"
    using failed_accept_stops_listener [OF sample_calls_laws [OF no_accept] fails, of ?wait "\<lambda>_. ()" "\<lambda>_ _. None"]
    unfolding l start by (auto simp del: split_paired_Ex)
  obtain s3 where "listen_rounds 100 ?K (\<lambda>_ _. None) ?wait ?l s2 = Some s3" "open_fds s3 = {0}"
    using rounds s2(2) by metis
  then show ?thesis using s2 by blast
qed

end
