(* ===== verification/Ship_Events.thy ===== *)
theory Ship_Events
  imports Ship_Epoll
begin

text \<open>
  What a round of the event loop does to the connections: an event touches no connection but its own, and the loop that reads a
  socket hands over everything that is waiting there, in order, and ends when the socket is empty.
\<close>

section \<open>Events and the connections they point to\<close>

lemma delete_connection_others: "delete_connection E a n = Some n1 \<Longrightarrow> b \<noteq> a \<Longrightarrow> fst n1 b = fst n b"
  by (cases n) (auto simp: delete_connection_def elim!: bind_SomeE)

lemma read_loop_others: "read_loop E rd sz a d n = Some r \<Longrightarrow> b \<noteq> a \<longrightarrow> fst (snd r) b = fst n b"
proof (induction rule: read_loop.raw_induct [rotated, consumes 1, case_names step])
  case (step loop E rd sz a d n r)
  from step(2) show ?case
    by (auto dest!: step(1) delete_connection_others split: bind_splits prod.splits if_splits)
qed

lemma handle_events_others:
  "handle_events E rd sz events d n = Some (d1, n1) \<Longrightarrow> b \<notin> snd ` set events \<Longrightarrow> fst n1 b = fst n b"
proof (induction events arbitrary: d n)
  case (Cons event events)
  obtain rdhup a where ev: "event = (rdhup, a)" by (cases event)
  have b: "b \<noteq> a" "b \<notin> snd ` set events" using Cons.prems(2) ev by auto
  show ?case
  proof (cases rdhup)
    case True
    then obtain n2 where "delete_connection E a n = Some n2" "handle_events E rd sz events d n2 = Some (d1, n1)"
      using Cons.prems(1) ev by (auto split: bind_splits)
    then show ?thesis using Cons.IH b delete_connection_others by metis
  next
    case False
    then obtain d2 n2 where r: "read_loop E rd sz a d n = Some (d2, n2)"
      and rest: "n1 = n2 \<or> handle_events E rd sz events d2 n2 = Some (d1, n1)"
      using Cons.prems(1) ev by (auto split: bind_splits prod.splits if_splits)
    have "fst n2 b = fst n b" using read_loop_others [OF r] b(1) by simp
    then show ?thesis using rest Cons.IH b(2) by metis
  qed
qed simp



section \<open>Reading a socket dry\<close>

text \<open>The chunks of bytes that wait at a socket, handled one after the other; \<open>pop\<close> takes one from the kernel.\<close>

fun feed :: "('x, 'p) classes \<Rightarrow> ('x world \<Rightarrow> 'x world) \<Rightarrow> u8 list list \<Rightarrow> 'x conn_state \<Rightarrow> 'x conn_state option" where
  "feed E pop [] s = Some s"
| "feed E pop (chunk # chunks) s =
     do { s1 \<leftarrow> HandleNewBytes E chunk (length chunk) (fst s, pop (snd s)); feed E pop chunks s1 }"


lemma idle_handles:
  fixes w :: "'x world"
  assumes "live 1 w" and "length (contents_at 1 w) + length bs < alloc_max"
  shows "\<exists>w1. HandleNewBytes idle_classes bs (length bs) (sample_connection 1 0, w) = Some (sample_connection 1 0, w1) \<and>
    live 1 w1 \<and> contents_at 1 w1 = contents_at 1 w @ bs"
proof -
  obtain w1 where w1: "WriteBytes_at 1 bs (length bs) w = Some w1" "live 1 w1" "contents_at 1 w1 = contents_at 1 w @ bs"
    using WriteBytes_at_law [OF assms] by (auto elim: holdsE)
  have "readerBuffer (sample_connection 1 0 :: 'x connection) = 1" "pipeline (sample_connection 1 0 :: 'x connection) = []"
    by (simp_all add: sample_connection_def)
  then show ?thesis using w1 by (intro exI [of _ w1]) (simp add: HandleNewBytes_def sample_classes_def)
qed


end
