(* ===== verification/Ship_Server.thy ===== *)
theory Ship_Server
  imports Ship_Network_Safety Ship_Listener Ship_Events
begin

text \<open>
  A process that listens, connects and serves: the listener, the connector, the tasks and the event loop on one network.
  \<open>process\<close> collects what they are given from outside, \<open>server_step\<close> is one round or one call of one of them, in any
  order.  The listener runs on a thread of its own in the program; the granularity here is that of its rounds.
\<close>

section \<open>A process\<close>

type_synonym 'x host = "epoll_event_loop \<times> 'x network"

record ('x, 'p, 't) process =
  app :: "('x, 'p) classes"
  reader :: "'x closer_read"
  calls :: "'x host socket_calls"
  make_closer :: "int \<Rightarrow> 'x world \<Rightarrow> nat \<times> 'x world"
  make_connection :: "nat \<Rightarrow> 'x network \<Rightarrow> (nat \<times> 'x network) option"
  register_event :: "int \<Rightarrow> int \<Rightarrow> nat \<Rightarrow> 'x world \<Rightarrow> int \<times> 'x world"
  run_task :: "'t \<Rightarrow> 'x network \<Rightarrow> ('t request list \<times> 'x network) option"
  time_now :: "'x network \<Rightarrow> u64"
  wait_events :: "int \<Rightarrow> int \<Rightarrow> int \<Rightarrow> 'x network \<Rightarrow> (bool \<times> nat) list \<times> 'x network"
  wait_connections :: "int \<Rightarrow> int \<Rightarrow> int \<Rightarrow> 'x host \<Rightarrow> int list \<times> 'x host"

text \<open>\<open>eventLoop->Accept\<close>, as the listener and the connector call it.\<close>

definition process_accept :: "('x, 'p, 't) process \<Rightarrow> int \<Rightarrow> 'x host \<Rightarrow> 'x host option" where
  "process_accept P fd s =
     (case s of (l, n) \<Rightarrow> Epoll_Accept (app P) (make_closer P) (make_connection P) (register_event P) fd l n)"

type_synonym ('x, 't) server = "epoll_listener \<times> 't event_loop \<times> 'x host"

inductive server_step :: "('x, 'p, 't) process \<Rightarrow> ('x, 't) server \<Rightarrow> ('x, 't) server \<Rightarrow> bool" for P where
  step_serve: "loop_round (app P) (reader P) (run_task P) (time_now P) (wait_events P) l tasks n = Some (tasks1, n1) \<Longrightarrow>
    server_step P (lst, tasks, (l, n)) (lst, tasks1, (l, n1))"
| step_bind: "Listener_Bind (calls P) address lst s = (e, lst1, s1) \<Longrightarrow> server_step P (lst, tasks, s) (lst1, tasks, s1)"
| step_listen: "listen_round (calls P) (process_accept P) (wait_connections P) lst s = Some s1 \<Longrightarrow>
    server_step P (lst, tasks, s) (lst, tasks, s1)"
| step_connect: "Connect (calls P) (process_accept P) host p s = Some (e, s1) \<Longrightarrow>
    server_step P (lst, tasks, s) (lst, tasks, s1)"
| step_execute: "server_step P (lst, tasks, s) (lst, Execute f tasks, s)"
| step_delay: "server_step P (lst, tasks, (l, n)) (lst, Delay (time_now P n) f millis tasks, (l, n))"

section \<open>What a process relies on\<close>

text \<open>Of a system call on the host: the network stays well formed.\<close>

definition keeps_host :: "('x host \<Rightarrow> 'r \<times> 'x host) \<Rightarrow> bool" where
  "keeps_host f \<longleftrightarrow> (\<forall>s r s1. f s = (r, s1) \<longrightarrow> network_ok (snd s) \<longrightarrow> network_ok (snd s1))"

lemma keeps_hostD: "keeps_host f \<Longrightarrow> f s = (r, s1) \<Longrightarrow> network_ok (snd s) \<Longrightarrow> network_ok (snd s1)"
  unfolding keeps_host_def by blast

definition keeps_calls :: "'x host socket_calls \<Rightarrow> bool" where
  "keeps_calls K \<longleftrightarrow>
     keeps_host (sys_socket K) \<and> (\<forall>fd a. keeps_host (sys_ioctl_nonblocking K fd a)) \<and> (\<forall>fd a. keeps_host (sys_bind K fd a)) \<and>
     (\<forall>fd a. keeps_host (sys_connect K fd a)) \<and> (\<forall>fd. keeps_host (sys_listen K fd)) \<and> keeps_host (sys_epoll_create K) \<and>
     (\<forall>e fd. keeps_host (sys_epoll_add K e fd)) \<and> (\<forall>fd. keeps_host (sys_accept K fd)) \<and>
     (\<forall>fd s. network_ok (snd s) \<longrightarrow> network_ok (snd (sys_close_fd K fd s)))"

lemma keeps_callsD:
  assumes "keeps_calls K"
  shows "keeps_host (sys_socket K)" "keeps_host (sys_ioctl_nonblocking K fd a)" "keeps_host (sys_bind K fd b)"
    "keeps_host (sys_connect K fd b)" "keeps_host (sys_listen K fd)" "keeps_host (sys_epoll_create K)"
    "keeps_host (sys_epoll_add K e fd)" "keeps_host (sys_accept K fd)"
    "network_ok (snd s) \<Longrightarrow> network_ok (snd (sys_close_fd K fd s))"
  using assms by (simp_all add: keeps_calls_def del: split_paired_All)

locale server_process =
  fixes P :: "('x, 'p, 't) process"
  assumes loop_law: "library_loop (app P) (reader P)" and calls_law: "keeps_calls (calls P)"
    and closer_law: "make_closer P fd w = (a, w1) \<Longrightarrow> world_moves w w1"
    and register_law: "register_event P ep fd a w = (r, w1) \<Longrightarrow> world_moves w w1"
    and connection_law: "make_connection P p n = Some (a, n1) \<Longrightarrow> network_ok n \<Longrightarrow> network_ok n1"
    and task_law: "run_task P f n = Some (rs, n1) \<Longrightarrow> network_ok n \<Longrightarrow> network_ok n1"
    and events_law: "wait_events P ep k t n = (es, n1) \<Longrightarrow> network_ok n \<Longrightarrow> network_ok n1"
    and connections_law: "keeps_host (wait_connections P ep k t)"
begin

lemma accept_ok: "process_accept P fd s = Some s1 \<Longrightarrow> network_ok (snd s) \<Longrightarrow> network_ok (snd s1)"
  by (cases s; cases s1)
    (auto simp: process_accept_def
      elim: library_loop.Epoll_Accept_ok [OF loop_law _ _ closer_law register_law connection_law])

lemma accept_loop_ok:
  "accept_loop K accept lst ev s = Some s1 \<Longrightarrow> K = calls P \<longrightarrow> accept = process_accept P \<longrightarrow>
    network_ok (snd s) \<longrightarrow> network_ok (snd s1)"
proof (induction rule: accept_loop.raw_induct [rotated, consumes 1, case_names step])
  case (step loop K accept lst ev s s1)
  show ?case
  proof (intro impI)
    assume e: "K = calls P" "accept = process_accept P" and ok: "network_ok (snd s)"
    obtain received s2 where r: "Listener_Accept (calls P) (listenerSocket lst) s = (received, s2)" by (metis surj_pair)
    have ok2: "network_ok (snd s2)"
      using r keeps_hostD [OF keeps_callsD(8) [OF calls_law] _ ok]
      by (auto simp: Listener_Accept_def errno_error_def Let_def split: prod.splits if_splits)
    have "s1 = s2 \<or> s1 = sys_close_fd (calls P) (listenerEpoll lst) (sys_close_fd (calls P) ev s2) \<or>
        (\<exists>s3. process_accept P (GetValue received) s2 = Some s3 \<and> loop (calls P) (process_accept P) lst ev s3 = Some s1)"
      using step(2) by (auto simp: e r split: if_splits bind_splits)
    then show "network_ok (snd s1)"
    proof (elim disjE exE conjE)
      fix s3
      assume "process_accept P (GetValue received) s2 = Some s3" and l: "loop (calls P) (process_accept P) lst ev s3 = Some s1"
      then have "network_ok (snd s3)" using accept_ok ok2 by blast
      then show ?thesis using step(1) [OF l] by blast
    qed (simp_all add: ok2 keeps_callsD(9) [OF calls_law])
  qed
qed

lemma listen_events_ok:
  "listen_events (calls P) (process_accept P) lst events s = Some s1 \<Longrightarrow> network_ok (snd s) \<Longrightarrow> network_ok (snd s1)"
  by (induction events arbitrary: s) (auto elim!: bind_SomeE dest!: accept_loop_ok)

lemma Bind_ok:
  assumes "Listener_Bind (calls P) address lst s = (e, lst1, s1)" and "network_ok (snd s)"
  shows "network_ok (snd s1)"
  using assms(1)
  by (auto simp: Listener_Bind_def Let_def errno_error_def split: prod.splits if_splits
      dest!: keeps_hostD [OF keeps_callsD(1) [OF calls_law] _ assms(2)] keeps_hostD [OF keeps_callsD(2) [OF calls_law]]
        keeps_hostD [OF keeps_callsD(3) [OF calls_law]] keeps_hostD [OF keeps_callsD(5) [OF calls_law]]
        keeps_hostD [OF keeps_callsD(6) [OF calls_law]] keeps_hostD [OF keeps_callsD(7) [OF calls_law]])

lemma Connect_ok:
  assumes "Connect (calls P) (process_accept P) host p s = Some (e, s1)" and "network_ok (snd s)"
  shows "network_ok (snd s1)"
  using assms(1)
  by (auto simp: Connect_def Let_def errno_error_def split: prod.splits if_splits elim!: bind_SomeE dest!: accept_ok
      dest!: keeps_hostD [OF keeps_callsD(1) [OF calls_law] _ assms(2)] keeps_hostD [OF keeps_callsD(2) [OF calls_law]]
        keeps_hostD [OF keeps_callsD(4) [OF calls_law]])

lemma server_step_ok:
  "server_step P S S1 \<Longrightarrow> network_ok (snd (snd (snd S))) \<Longrightarrow> network_ok (snd (snd (snd S1)))"
proof (induction rule: server_step.induct)
  case (step_serve l tasks n tasks1 n1 lst)
  then show ?case
    using library_loop.loop_round_ok [OF loop_law step_serve.hyps _ task_law events_law] by simp
next
  case (step_listen lst s s1 tasks)
  obtain es s2 where w: "wait_connections P (listenerEpoll lst) (listenerMaxEvents lst) (listenerTimeout lst) s = (es, s2)" by (metis surj_pair)
  then have "network_ok (snd s2)" using keeps_hostD [OF connections_law w] step_listen.prems by simp
  then show ?case using step_listen.hyps w listen_events_ok by (auto simp: listen_round_def)
qed (auto intro: Bind_ok Connect_ok)

lemma server_steps_ok:
  "rtranclp (server_step P) S S1 \<Longrightarrow> network_ok (snd (snd (snd S))) \<Longrightarrow> network_ok (snd (snd (snd S1)))"
  by (induction rule: rtranclp_induct) (auto dest: server_step_ok simp del: split_paired_All)

end

text \<open>A process of echo connections, whose kernel grants everything and reports nothing.\<close>

definition echo_calls :: "'x host socket_calls" where
  "echo_calls = \<lparr>sys_socket = Pair 3, sys_ioctl_nonblocking = \<lambda>_ _. Pair 0, inet_addr = \<lambda>_. 0, sys_bind = \<lambda>_ _. Pair 0,
     sys_connect = \<lambda>_ _. Pair 0, sys_listen = \<lambda>_. Pair 0, sys_epoll_create = Pair 4, sys_epoll_add = \<lambda>_ _. Pair 0,
     sys_accept = \<lambda>_. Pair (-1), sys_close_fd = \<lambda>_ s. s, errno_of = \<lambda>_. EAGAIN\<rparr>"

definition echo_connection :: "nat \<Rightarrow> u8 list side network \<Rightarrow> (nat \<times> u8 list side network) option" where
  "echo_connection p n =
     (if next_object (snd n) = 0 then None
      else Some (case Connection_new 10 11 4 4 p 13 (snd n) of (c, w1) \<Rightarrow>
        (next_object (snd n), ((fst n)(next_object (snd n) \<mapsto> SetOnClose (Some Some) c), w1))))"

definition echo_process :: "(u8 list side, field list, unit) process" where
  "echo_process = \<lparr>app = echo_classes take_all (\<lambda>_ k. k) [FByte 0], reader = side_closer_read (\<lambda>_ _ k. (-1, EAGAIN, [], k)),
     calls = echo_calls, make_closer = \<lambda>fd w. (12, w\<lparr>outside := (outside w)\<lparr>unixCloser := UnixReadWriteCloser_new fd\<rparr>\<rparr>),
     make_connection = echo_connection, register_event = \<lambda>_ _ _. Pair 0, run_task = \<lambda>_ n. Some ([], n), time_now = \<lambda>_. 0,
     wait_events = \<lambda>_ _ _. Pair [], wait_connections = \<lambda>_ _ _. Pair []\<rparr>"

lemma echo_connection_ok:
  assumes "echo_connection p n = Some (a, n1)" and "network_ok n"
  shows "network_ok n1"
proof -
  obtain c w1 where new: "Connection_new 10 11 4 4 p 13 (snd n) = (c, w1)" by (metis surj_pair)
  have "0 < next_object (snd n)" using assms(1) by (auto simp: echo_connection_def split: if_splits)
  moreover have "nodes_ok (SetOnClose f c) = nodes_ok c" "onclose_ok (SetOnClose (Some Some) c)" for f
    by (simp_all add: SetOnClose_def nodes_ok_def onclose_ok_def)
  moreover have "readerBuffer (SetOnClose f c) = readerBuffer c" "writerBuffer (SetOnClose f c) = writerBuffer c" for f
    by (simp_all add: SetOnClose_def)
  ultimately show ?thesis
    using Connection_new_ok [OF _ _ new] assms by (auto simp: echo_connection_def new network_ok_def split: if_splits)
qed

interpretation echo: server_process echo_process
proof (rule server_process.intro)
  show "library_loop (app echo_process) (reader echo_process)"
    by (simp add: echo_process_def server.library_loop_axioms)
  show "keeps_calls (calls echo_process)"
    by (simp add: echo_process_def echo_calls_def keeps_calls_def keeps_host_def)
qed (auto simp: echo_process_def keeps_host_def intro: moves_rest echo_connection_ok)

section \<open>Everything together\<close>



end
