(* ===== verification/Ship_End_To_End.thy ===== *)
theory Ship_End_To_End
  imports Ship_Stack
begin

text \<open>
  From one end of a connection to the other: a packet goes through \<open>Serializable::Size\<close>, the packet pipe, the thread's
  write buffer, the writer buffer and \<open>UnixReadWriteCloser::Write\<close> to the kernel, and the bytes the kernel got go
  through \<open>HandleNewBytes\<close>, the framed pipe and the typed callback to the handler of the other end.
\<close>

section \<open>Shapes\<close>

text \<open>The kind of a field is what its reader knows beforehand.\<close>

fun kind_of :: "field \<Rightarrow> field" where
  "kind_of (FBoolean _) = FBoolean False"
| "kind_of (FByte _) = FByte 0"
| "kind_of (FShort _) = FShort 0"
| "kind_of (FMedium _) = FMedium 0"
| "kind_of (FInt _) = FInt 0"
| "kind_of (FVarInt _) = FVarInt 0"
| "kind_of (FLong _) = FLong 0"
| "kind_of (FVarLong _) = FVarLong 0"
| "kind_of (FUUID _) = FUUID (make_UUID 0 0)"
| "kind_of (FDouble _) = FDouble 0"
| "kind_of (FFloat _) = FFloat 0"

lemma read_field_kind: "read_field rb avail (kind_of f) s = read_field rb avail f s"
  by (cases f) simp_all

lemma read_fields_kind: "read_fields rb avail (map kind_of fs) s = read_fields rb avail fs s"
  by (induction fs arbitrary: s) (simp_all add: read_field_kind)

definition payload_of :: "field list \<Rightarrow> u8 list" where
  "payload_of fs = concat (map field_bytes fs)"

definition frame_of :: "field list \<Rightarrow> u8 list" where
  "frame_of fs = leb128 (length (payload_of fs)) @ payload_of fs"

section \<open>The sending end\<close>

lemma size_of_fields:
  assumes "length (payload_of fs) < 2 ^ 32"
  shows "Size (\<lambda>_ counter. Some (SuccessErrorable True, counter_write_fields fs counter)) () =
    Some (of_nat (length (payload_of fs)))"
proof -
  have "writerIndex new_counter + length (payload_of fs) < size_max"
    using assms by (simp add: new_counter_def size_max_def)
  then have "writerIndex (counter_write_fields fs new_counter) = length (payload_of fs)"
    using counter_write_fields_index [of new_counter fs] by (simp add: payload_of_def new_counter_def)
  then show ?thesis by (simp add: Size_def Counter_GetWriterIndex_def)
qed

lemma side_packet_write_frame:
  assumes "length (payload_of fs) < 2 ^ 32"
  shows "side_packet_write a fs =
    (\<lambda>w. map_option (Pair (SuccessErrorable True)) (update_buffer a (put_list Impl_WriteByte (frame_of fs)) w))"
proof
  fix w :: "'x world"
  have n: "unat (of_nat (length (payload_of fs)) :: u32) = length (payload_of fs)" using assms by (rule u32_exact)
  have "(\<lambda>s. do { s1 \<leftarrow> WriteVarInt Impl_WriteByte (of_nat (length (payload_of fs))) s; write_fields Impl_WriteByte fs s1 })
      = put_list Impl_WriteByte (frame_of fs)"
    by (rule ext) (simp add: frame_of_def put_list_append WriteVarInt_put n [unfolded payload_of_def] write_fields_put payload_of_def)
  then show "side_packet_write a fs w =
    map_option (Pair (SuccessErrorable True)) (update_buffer a (put_list Impl_WriteByte (frame_of fs)) w)"
    by (simp add: side_packet_write_def size_of_fields [OF assms] map_conv_bind_option comp_def)
qed

text \<open>A connection that has sent everything it was given, with its reader at the start of a page.\<close>

definition ready_to_send :: "'k side conn_state \<Rightarrow> bool" where
  "ready_to_send s \<longleftrightarrow> (case s of (c, w) \<Rightarrow>
     pipeline c = [] \<and> \<not> closed (unixCloser (outside w)) \<and> writerBuffer c \<noteq> connectionWriteBuffer w \<and>
     (\<exists>b d. byte_buffers w (writerBuffer c) = Some b \<and> byte_buffers w (connectionWriteBuffer w) = Some d \<and>
        bb_ok (mem w, b) \<and> bb_ok (mem w, d) \<and> apart b d \<and> length (buffers d) = 1 \<and>
        bb_contents (mem w, b) = [] \<and> localReaderIndex b = 0))"

definition page_size_at :: "nat \<Rightarrow> 'x world \<Rightarrow> nat" where
  "page_size_at a w = (case byte_buffers w a of Some b \<Rightarrow> singleCapacity b | None \<Rightarrow> 0)"

lemma packet_sent:
  assumes "ready_to_send (c, w)" and "length (frame_of fs) \<le> MAX_PACKET_SIZE"
    and "length (frame_of fs) mod page_size_at (writerBuffer c) w \<noteq> 0"
  shows "\<exists>w'. WriteAndFlush (side_classes take_all sc table) fs (c, w) = Some (c, w') \<and>
    kernel (outside w') = kernel (outside w) @ frame_of fs"
proof -
  let ?wb = "writerBuffer c" and ?cwb = "connectionWriteBuffer w" and ?E = "side_classes take_all sc table"
  obtain b d where r: "pipeline c = []" "\<not> closed (unixCloser (outside w))" "?wb \<noteq> ?cwb"
    "byte_buffers w ?wb = Some b" "byte_buffers w ?cwb = Some d" "bb_ok (mem w, b)" "bb_ok (mem w, d)" "apart b d"
    "length (buffers d) = 1" "bb_contents (mem w, b) = []" "localReaderIndex b = 0"
    using assms(1) by (auto simp: ready_to_send_def)
  have small: "length (payload_of fs) < 2 ^ 32" "length (frame_of fs) < alloc_max" "frame_of fs \<noteq> []"
    using assms(2) by (auto simp: frame_of_def MAX_PACKET_SIZE_def alloc_max_def)
  have pw: "packet_write ?E (bytePacketPipe c) ?cwb fs =
      (\<lambda>w. map_option (Pair (SuccessErrorable True)) (update_buffer ?cwb (put_list Impl_WriteByte (frame_of fs)) w))"
    by (simp add: side_classes_def side_packet_write_frame [OF small(1)])
  have room: "length (contents_at ?wb w) + length (frame_of fs) < alloc_max"
    using r(4,10) small(2) by (simp add: contents_at_def)
  have fills: "holds bb_ok bb_contents (put_list Impl_WriteByte (frame_of fs) s) (frame_of fs)"
    if "bb_ok s" "bb_contents s = []" for s
    using impl.put_list_law [OF that(1), of "frame_of fs"] that(2) small(2) by simp
  obtain w' b' where w': "Connection_Write ?E fs (c, w) = Some (c, w')" "byte_buffers w' ?wb = Some b'" "bb_ok (mem w', b')"
    "bb_contents (mem w', b') = frame_of fs" "same_reader (mem w, b) (mem w', b')" "outside w' = outside w"
  proof -
    have "\<exists>w' b'. Connection_Write ?E fs (c, w) = Some (c, w') \<and> byte_buffers w' ?wb = Some b' \<and> bb_ok (mem w', b') \<and>
      bb_contents (mem w', b') = contents_at ?wb w @ frame_of fs \<and> same_reader (mem w, b) (mem w', b') \<and> outside w' = outside w"
      by (rule packet_written [OF r(1) refl refl pw r(4,5,3,6,7,8,9) small(3) assms(2) room])
        (erule (1) fills, erule moves_put_list)
    then show thesis using that r(4,10) by (auto simp: contents_at_def)
  qed
  have idx: "localReaderIndex b' = 0" "singleCapacity b' = page_size_at ?wb w"
    using w'(5) r(4,11) by (simp_all add: same_reader_def page_size_at_def)
  have "localWriterIndex b' \<noteq> singleCapacity b'"
  proof
    assume "localWriterIndex b' = singleCapacity b'"
    then have "length (frame_of fs) = (length (buffers b') - 1) * singleCapacity b' + singleCapacity b'"
      using readable_total [OF w'(3)] bb_okD(6) [OF w'(3)] idx(1) w'(4) by simp
    then show False using assms(3) idx(2) by simp
  qed
  then have "localWriterIndex b' < singleCapacity b'" using bb_okD(5) [OF w'(3)] by simp
  then obtain m2 b2 where "Unix_Write take_all sc (unixCloser (outside w), kernel (outside w)) (mem w', b') =
      Some (SuccessErrorable (int (readableBytes b')), (unixCloser (outside w), kernel (outside w) @ frame_of fs), (m2, b2))"
    using flush_all [OF w'(3) idx(1) r(2), of sc "kernel (outside w)"] w'(4) by auto
  then show ?thesis
    using w'(1,2,6) by (simp add: WriteAndFlush_def Connection_Flush_def side_classes_def side_closer_write_def)
qed

section \<open>The receiving end\<close>

text \<open>A connection that waits for a frame, with nothing left in its reader buffer.\<close>

definition ready_to_receive :: "u32 \<Rightarrow> 'k side conn_state \<Rightarrow> bool" where
  "ready_to_receive max_size s \<longleftrightarrow> (case s of (c, w) \<Rightarrow>
     pipeline c = [] \<and> live (readerBuffer c) w \<and> contents_at (readerBuffer c) w = [] \<and>
     packetPipe (outside w) = FramedBytePacketPipe_new max_size)"

text \<open>The framed pipe finds the announced packet and leaves it in the buffer.\<close>

lemma frame_announced:
  fixes w :: "'k side world"
  assumes "live a w" and "packetPipe (outside w) = FramedBytePacketPipe_new max_size"
    and "contents_at a w = leb128 (unat n) @ payload" and "n \<noteq> 0" and "n \<le> max_size" and "length payload = unat n"
  shows "\<exists>w1. side_packet_read a w = Some (SuccessErrorable (PacketHolder_new 0 None a n), w1) \<and>
    live a w1 \<and> contents_at a w1 = payload"
proof -
  let ?p = "FramedBytePacketPipe_new max_size"
  have p: "nextPacketFrameLength ?p = 0" "n \<le> maxPacketReadSize ?p" "?p\<lparr>nextPacketFrameLength := 0\<rparr> = ?p"
    using assms(5) by (simp_all add: FramedBytePacketPipe_new_def)
  obtain w1 where w1: "live a w1" "contents_at a w1 = payload"
    "read_packet_at a (announce a) ?p w = Some (SuccessErrorable (PacketHolder_new 0 None a n), ?p, w1)"
    using at.packet_frame_header [OF assms(1) p(1) assms(3,4) p(2), of "announce a"] assms(6) p(3)
    by (auto simp: announce_def)
  let ?w = "w1\<lparr>outside := (outside w1)\<lparr>packetPipe := ?p\<rparr>\<rparr>"
  have "side_packet_read a w = Some (SuccessErrorable (PacketHolder_new 0 None a n), ?w)"
    using w1(3) by (simp add: side_packet_read_def assms(2))
  then show ?thesis using w1(1,2) by (intro exI [of _ ?w]) simp
qed

text \<open>The typed callback reads the fields, finds the announced size and calls the handler.\<close>

lemma shape_delivered:
  assumes "live a w" and "contents_at a w = payload_of fs" and "length (payload_of fs) = unat n"
  shows "\<exists>w1. live a w1 \<and> contents_at a w1 = [] \<and>
    Handle (shape_table (map kind_of fs) callback) 0 h (PacketHolder_new 0 None a n) (c, w) = callback h (map carried fs) (c, w1)"
proof -
  obtain w1 where w1: "read_fields (ReadByteUnsafe_at a) (GetReadableBytes_at a) fs w = Some (map carried fs, w1)"
    "live a w1" "contents_at a w1 = []"
    using at.read_fields_at [OF assms(1), of fs "[]"] assms(2) by (auto simp: payload_of_def elim: givesE)
  have "read_shape (map kind_of fs) (PacketHolder_new 0 None a n) (c, w) = Some (SuccessErrorable (map carried fs), (c, w1))"
    using w1(1) by (simp add: read_shape_def read_fields_kind PacketHolder_new_def Holder_GetCurrentBuffer_def)
  moreover have "GetReadableBytes_at a w = unat n" "GetReadableBytes_at a w1 = 0"
    using at.avail_law [OF assms(1)] at.avail_law [OF w1(2)] assms(2,3) w1(3) by simp_all
  moreover have "sz_sub (unat n) 0 = unat n" using unat_bounds(3) [of n] by (simp add: size_max_def)
  ultimately show ?thesis
    using w1(2,3)
    by (intro exI [of _ w1]) (simp add: Handle_single shape_table_def packet_callback_def PacketHolder_new_def
        Holder_GetOrdinal_def Holder_GetCurrentBuffer_def Holder_GetExpectedSize_def)
qed

lemma packet_received:
  fixes c :: "'k side connection"
  assumes "ready_to_receive max_size (c, w)" and "payload_of fs \<noteq> []" and "length (payload_of fs) \<le> unat max_size"
  shows "\<exists>w2. live (readerBuffer c) w2 \<and> contents_at (readerBuffer c) w2 = [] \<and>
    (\<forall>s. callback (mainPacketHandler c) (map carried fs) (c, w2) = Some (SuccessErrorable True, s) \<longrightarrow>
      HandleNewBytes (side_classes sw sc (shape_table (map kind_of fs) callback)) (frame_of fs) (length (frame_of fs)) (c, w) = Some s)"
proof -
  let ?a = "readerBuffer c" and ?n = "of_nat (length (payload_of fs)) :: u32"
  have r: "pipeline c = []" "live ?a w" "contents_at ?a w = []" "packetPipe (outside w) = FramedBytePacketPipe_new max_size"
    using assms(1) by (auto simp: ready_to_receive_def)
  have small: "length (payload_of fs) < 2 ^ 32" using assms(3) unat_bounds(3) [of max_size] by simp
  then have n: "unat ?n = length (payload_of fs)" by (rule u32_exact)
  then have n0: "?n \<noteq> 0" "?n \<le> max_size" using assms(2,3) by (auto simp: unat_eq_zero word_le_nat_alt)
  have "length (frame_of fs) < alloc_max"
    using small length_leb128_bound(1) [of ?n] n by (simp add: frame_of_def alloc_max_def)
  then obtain w1 where w1: "WriteBytes_at ?a (frame_of fs) (length (frame_of fs)) w = Some w1" "live ?a w1"
    "contents_at ?a w1 = leb128 (unat ?n) @ payload_of fs"
    using WriteBytes_at_law [OF r(2), of "frame_of fs"] r(3) n by (auto simp: frame_of_def elim: holdsE)
  have "packetPipe (outside w1) = FramedBytePacketPipe_new max_size"
    using WriteBytes_at_outside [OF w1(1)] r(4) by (simp add: same_outside_def)
  then obtain w2 where w2: "side_packet_read ?a w1 = Some (SuccessErrorable (PacketHolder_new 0 None ?a ?n), w2)"
    "live ?a w2" "contents_at ?a w2 = payload_of fs"
    using frame_announced [OF w1(2) _ w1(3) n0 n [symmetric]] by blast
  obtain w3 where w3: "live ?a w3" "contents_at ?a w3 = []"
    "Handle (shape_table (map kind_of fs) callback) 0 (mainPacketHandler c) (PacketHolder_new 0 None ?a ?n) (c, w2) =
      callback (mainPacketHandler c) (map carried fs) (c, w3)"
    using shape_delivered [OF w2(2,3) n [symmetric], of callback "mainPacketHandler c" c] by blast
  show ?thesis
    using w1(1) w2(1) w3 r(1)
    by (intro exI [of _ w3]) (simp add: HandleNewBytes_def run_handler_def side_classes_def)
qed


lemma sample_ready:
  fixes w :: "u8 list side world"
  assumes "w = (snd (new_buffer 8 (world0 sample_side)))\<lparr>connectionWriteBuffer := 2\<rparr>"
  shows "ready_to_send (sample_connection 9 1, w)" and "page_size_at 1 w = 4" and "kernel (outside w) = []"
proof -
  obtain b d where bd: "byte_buffers w = [1 \<mapsto> b, 2 \<mapsto> d]" "length (buffers d) = 1" "apart b d"
    "bb_ok (mem w, b)" "bb_ok (mem w, d)" "bb_contents (mem w, b) = []" "localReaderIndex b = 0" "singleCapacity b = 4"
    using two_new_buffers [of sample_side] by (auto simp: assms)
  have out: "outside w = sample_side" "connectionWriteBuffer w = 2"
    by (simp_all add: assms world0_def new_buffer_def split: prod.splits)
  then show "ready_to_send (sample_connection 9 1, w)"
    using bd by (simp add: ready_to_send_def sample_connection_def UnixReadWriteCloser_new_def)
  show "page_size_at 1 w = 4" "kernel (outside w) = []" using bd(1,8) out by (simp_all add: page_size_at_def)
qed


end
