(* ===== verification/Ship_Dispatch.thy ===== *)
theory Ship_Dispatch
  imports Ship_Lifecycle
begin

text \<open>
  The order in which \<open>HandleNewBytes\<close> offers a packet to the handlers of a connection.  The loop of the code walks a list
  of nodes that its handlers may change; \<open>offer\<close> walks a fixed list of handlers.
\<close>

fun offer :: "('x, 'p) classes \<Rightarrow> packet_holder \<Rightarrow> nat list \<Rightarrow> 'x conn_state \<Rightarrow> 'x conn_state option" where
  "offer E packet [] s = Some s"
| "offer E packet (h # hs) s =
     do { (wasHandled, s1) \<leftarrow> run_handler E h packet s;
          s2 \<leftarrow> (if \<not> IsSuccess wasHandled then close_connection E s1 else Some s1);
          if GetValue wasHandled then Some s2 else offer E packet hs s2 }"

lemma next_node_at:
  "distinct (map fst (xs @ (n, h) # ys)) \<Longrightarrow> next_node n (xs @ (n, h) # ys) = Some (first_node ys)"
  by (induction xs) (auto simp: first_node_def)

lemma close_connection_list: "close_connection E s = Some s1 \<Longrightarrow> packetHandlers (fst s1) = packetHandlers (fst s)"
  by (cases s) (auto simp: close_connection_def)

lemma handlers_loop_offer:
  assumes fixed: "\<And>h s e s1. run_handler E h packet s = Some (e, s1) \<Longrightarrow> packetHandlers (fst s1) = packetHandlers (fst s)"
  shows "packetHandlers (fst s) = xs @ ys \<Longrightarrow> distinct (map fst (xs @ ys)) \<Longrightarrow>
    handlers_loop E packet (first_node ys) s = offer E packet (map snd ys) s"
proof (induction ys arbitrary: xs s)
  case Nil
  then show ?case by (simp add: handlers_loop.simps first_node_def)
next
  case (Cons y ys)
  obtain n h where y: "y = (n, h)" by (cases y)
  have item: "map_of (packetHandlers (fst s)) n = Some h"
    using Cons.prems unfolding y by (intro map_of_is_SomeI) simp_all
  have step: "(case r of (wasHandled, s1) \<Rightarrow> do {
        s2 \<leftarrow> (if \<not> IsSuccess wasHandled then close_connection E s1 else Some s1);
        if GetValue wasHandled then Some s2
        else do { it1 \<leftarrow> next_node n (packetHandlers (fst s2)); handlers_loop E packet it1 s2 } }) =
      (case r of (wasHandled, s1) \<Rightarrow> do {
        s2 \<leftarrow> (if \<not> IsSuccess wasHandled then close_connection E s1 else Some s1);
        if GetValue wasHandled then Some s2 else offer E packet (map snd ys) s2 })"
    if r: "run_handler E h packet s = Some r" for r
  proof -
    obtain e s1 where e: "r = (e, s1)" by (cases r)
    have go: "do { it1 \<leftarrow> next_node n (packetHandlers (fst s2)); handlers_loop E packet it1 s2 } = offer E packet (map snd ys) s2"
      if "packetHandlers (fst s2) = packetHandlers (fst s)" for s2
    proof -
      have l: "packetHandlers (fst s2) = xs @ (n, h) # ys" using that Cons.prems(1) y by simp
      then show ?thesis
        using next_node_at [of xs n h ys] Cons.prems(2) Cons.IH [of s2 "xs @ [(n, h)]"] y by simp
    qed
    show ?thesis
    proof (cases "IsSuccess e")
      case True
      then show ?thesis using go [of s1] fixed [OF r [unfolded e]] by (simp add: e)
    next
      case False
      then show ?thesis using go fixed [OF r [unfolded e]] close_connection_list [of E s1]
        by (cases "close_connection E s1") (simp_all add: e)
    qed
  qed
  show ?case
    by (subst handlers_loop.simps)
      (cases "run_handler E h packet s", simp_all add: item step y first_node_def)
qed

text \<open>C22.  A packet the main handler does not take is offered to the other handlers in the order of the list until one of
  them takes it; a handler that reports an error closes the connection, and the packet goes on to the next one.
  (The handlers are assumed to leave the list as it is.)\<close>

theorem dispatch_in_order:
  assumes "\<forall>h s e s1. run_handler E h packet s = Some (e, s1) \<longrightarrow> packetHandlers (fst s1) = packetHandlers (fst s)"
    and "nodes_ok (fst s)"
  shows "handlers_loop E packet (first_node (packetHandlers (fst s))) s =
    offer E packet (map snd (packetHandlers (fst s))) s"
proof (rule handlers_loop_offer [where xs = "[]"])
  show "packetHandlers (fst s1) = packetHandlers (fst s)" if "run_handler E h packet s = Some (e, s1)" for h s e s1
    using assms(1) that by blast
qed (use assms(2) in \<open>simp_all add: nodes_ok_def\<close>)

text \<open>Three handlers: the first refuses with an error, the second takes the packet, the third is not asked.\<close>

definition witness_classes :: "(nat list, unit) classes" where
  "witness_classes = sample_classes (\<lambda>_ _ _. None) (\<lambda>_ _ _ _. None)
     \<lparr>callback_table := [[Some (\<lambda>h _ s. Some
        (if h = 21 then InvalidArgumentErrorable CanNotReadPacket_T False 0 else SuccessErrorable (h = 22),
         (fst s, (snd s)\<lparr>outside := outside (snd s) @ [h]\<rparr>)))]]\<rparr>"

theorem dispatch_in_order_witness:
  "handlers_loop witness_classes (PacketHolder_new 0 None 5 4) (Some 0)
     (AppendPacketHandler 23 (AppendPacketHandler 22 (AppendPacketHandler 21 (sample_connection 5 6))), world0 []) =
   Some (AppendPacketHandler 23 (AppendPacketHandler 22 (AppendPacketHandler 21 (sample_connection 5 6))),
         (world0 [])\<lparr>outside := [21, 22]\<rparr>)"
proof -
  let ?c = "AppendPacketHandler 23 (AppendPacketHandler 22 (AppendPacketHandler 21 (sample_connection 5 6 :: nat list connection)))"
  have hs: "packetHandlers ?c = [(0, 21), (1, 22), (2, 23)]"
    by (simp add: AppendPacketHandler_def sample_connection_def)
  have run: "run_handler witness_classes h (PacketHolder_new 0 None 5 4) s = Some
      (if h = 21 then InvalidArgumentErrorable CanNotReadPacket_T False 0 else SuccessErrorable (h = 22),
       (fst s, (snd s)\<lparr>outside := outside (snd s) @ [h]\<rparr>))" for h s
    by (simp add: run_handler_def witness_classes_def sample_classes_def Handle_def PacketHolder_new_def Holder_GetOrdinal_def)
  have close: "close_connection witness_classes s = Some s" for s
    by (cases s) (simp add: close_connection_def witness_classes_def sample_classes_def)
  have ok: "nodes_ok (fst (?c, world0 []))" by (auto simp: nodes_ok_def hs)
  have "offer witness_classes (PacketHolder_new 0 None 5 4) (map snd (packetHandlers (fst (?c, world0 [])))) (?c, world0 []) =
      Some (?c, (world0 [])\<lparr>outside := [21, 22]\<rparr>)"
    by (simp add: hs run close world0_simps)
  moreover have "first_node (packetHandlers (fst (?c, world0 []))) = Some 0" by (simp add: hs first_node_def)
  ultimately show ?thesis
    using dispatch_in_order [OF _ ok, of witness_classes "PacketHolder_new 0 None 5 4"] run by simp
qed

end
