(* ===== verification/Spec2Isabelle.thy ===== *)
theory Spec2Isabelle
  imports Ship_Angle Ship_Closer_Protocol Ship_Server Ship_End_To_End Ship_Dispatch
begin

text \<open>
  ShipNet, modelled and verified.

  ShipNet is a C++ network library: a paged byte buffer with typed readers and writers, registries that map packets to ids
  per protocol version, packet handlers, connections with a pipeline of pipes, and event loops over non-blocking
  sockets.  The definitions below are translated from the sources under \<open>src/ShipNet\<close>, one per function, and keep
  their names where HOL allows it.

  \<^bold>\<open>Conventions\<close> (\<open>Ship_Prelude\<close>).  Fixed-width integers are words.  \<open>size_t\<close> is \<open>nat\<close> below \<open>2 ^ 64\<close>, with \<open>sz_add\<close> and
  \<open>sz_sub\<close> for the operators that wrap.  An execution that is undefined in C++ (access out of bounds, a dangling or unwritten
  pointer, \<open>front()\<close> of an empty container), ends in an uncaught exception, or does not end, has the result \<open>None\<close>; a
  theorem that the code returns says \<open>Some\<close>.  Loops whose end is not evident are \<open>partial_function (option)\<close>, so that
  not ending is \<open>None\<close> as well.  There is no fuel.

  \<^bold>\<open>Ordinals and errors.\<close>  \<open>Ship_Ordinals\<close>: \<open>OrdinalRegistry\<close> with its mutex as a step relation on threads, whose invariant gives
  distinct ordinals under every interleaving, and \<open>OrdinalVector\<close>, with the contract \<open>ordinal_table\<close> the registries rely on.
  \<open>Ship_Errorables\<close>: \<open>Errorable\<close> as a record of class, value and code; that comparing \<open>TYPE_ORDINAL\<close>s is comparing classes follows from
  the ordinals.  \<open>Ship_UUID\<close>: \<open>UUID\<close>, with \<open>strtoull\<close> written out.

  \<^bold>\<open>Buffers.\<close>  \<open>Ship_ByteBuffer\<close>: the methods \<open>ByteBuffer\<close> implements once, over its virtual methods.  \<open>Ship_Codec\<close>: reference
  encodings (big-endian words, the variable-length format) and the proof that every writer writes its encoding.
  \<open>Ship_Buffer_Laws\<close>: the contracts \<open>byte_sink\<close>, \<open>byte_source\<close> and \<open>byte_buffer\<close> of the virtual methods and, proved from them
  once, what every reader and writer does.  \<open>Ship_Queue_Refinement\<close>: the specification of a buffer as a queue of bytes
  (\<open>spec_ops\<close>) and the refinement of it by any class that meets the contract.  \<open>Ship_ByteBufferImpl\<close>: the class with its
  pages in an explicit store; \<open>Ship_Impl_Invariant\<close>, \<open>Ship_Impl_Correct\<close>: the invariant, that every operation keeps it, and the
  interpretation \<open>impl\<close> of the contract; \<open>Ship_Impl_Props\<close>, \<open>Ship_Impl_Frame\<close>, \<open>Ship_Impl_Edges\<close>: properties of the whole
  class, two buffers in one memory, and the operations that break the contract (skipping, handing over arrays, copying,
  releasing).  \<open>Ship_Impl_Moves\<close>: what any method does to pages, as a step relation; \<open>Ship_Ownership\<close>: from it, who owns
  a page, for every sequence of calls and beyond the points where the counters go wrong.  \<open>Ship_Angle\<close>: \<open>WriteAngle\<close> and \<open>ReadAngle\<close>, over the
  binary32 arithmetic they use.  \<open>Ship_ByteCounter\<close>: \<open>ByteCounter\<close> and \<open>Serializable::Size\<close>.

  \<^bold>\<open>Versions, registries, packets.\<close>  \<open>Ship_Versions\<close>: \<open>ProtocolVersion.cpp\<close>.  \<open>Ship_Registries\<close>, \<open>Ship_VersionedRegistry\<close>: the files of
  \<open>protocol/registry\<close>; elements of arrays from \<open>new[]\<close> are \<open>None\<close> until they are written.  \<open>Ship_Packets\<close>: \<open>PacketHolder\<close>, the
  static callback table of \<open>PacketHandler\<close> and the lambdas of its macros.

  \<^bold>\<open>Network.\<close>  \<open>Ship_World\<close>: the store of buffers the network objects share, and the interpretation \<open>at\<close> of \<open>byte_source\<close> on
  the buffer at an address.  \<open>Ship_Pipes\<close>: \<open>ByteBytePipe\<close> and the framed pipes; what they do with a
  header and a payload is proved in the context of \<open>byte_source\<close>.  \<open>Ship_Connection\<close>: \<open>Connection.cpp\<close>; the virtual
  methods of the application's classes are the record \<open>classes\<close>, so that a connection runs the pipes, the callback table and the buffers
  of the other theories.  \<open>Ship_Closer\<close>: \<open>UnixReadWriteCloser\<close> over parametric system calls; \<open>Ship_Closer_Protocol\<close>: its refinement of a protocol on
  the descriptor.  \<open>Ship_EventLoop\<close>: the tasks of \<open>EventLoop\<close> and the clock of \<open>ShipUtils\<close>.  \<open>Ship_Epoll\<close>: \<open>EpollEventLoop\<close>, whose rounds run tasks, read sockets through the closer and feed the
  connections.  \<open>Ship_Events\<close>: what a round does to the connections and in which order.  \<open>Ship_Sockets\<close>: \<open>EpollListener\<close>, \<open>UnixConnector\<close>,
  \<open>SocketAddress\<close>; \<open>Ship_Listener\<close>: the descriptors they open and close, from the documented laws of the system calls.

  \<^bold>\<open>Composition.\<close>  \<open>Ship_World_Ownership\<close> lifts the ownership of pages to all buffers of the store.  \<open>Ship_Lifecycle\<close>: a connection as a
  state machine (\<open>conn_step\<close>, one rule per public method), with what is relied upon of the classes outside the library as the
  locales \<open>library_classes\<close> and \<open>library_loop\<close>.  \<open>Ship_Stack\<close> interprets them on classes built from the library's own
  pipe, closer and callback table.  \<open>Ship_Network_Safety\<close>: what holds of every reachable connection and after
  any number of rounds of the event loop.  \<open>Ship_Server\<close>: a whole process, in which listener, connector, tasks and event loop
  take steps in any order, with the locale \<open>server_process\<close> and its interpretation on an echo server.  \<open>Ship_Dispatch\<close>: the iterators over the handlers against a walk
  over a fixed list.  \<open>Ship_End_To_End\<close>: one packet, from \<open>WriteAndFlush\<close> at one end to the handler at the other.

  \<^bold>\<open>What the properties say.\<close>  The buffer is a queue, for every sequence of reads and writes (\<open>buffer_refines_queue\<close>), also
  between two buffers (\<open>write_buffer_transfers\<close>); sizes announced are sizes written (\<open>varint_size_exact\<close>,
  \<open>size_is_bytes_written\<close>).  Registries and callbacks return what was registered.  A frame is delivered however its payload is cut
  (\<open>fragments_are_reassembled\<close>), a packet that is written reaches the socket (\<open>packet_reaches_writer_buffer\<close>,
  \<open>flush_from_page_start\<close>) and one that arrives reaches its handler (\<open>one_packet_per_read\<close>); together, what is written at one end is handled at the other
  (\<open>packet_delivered\<close>).  Every page has exactly one owner, in a buffer (\<open>buffer_lifetime\<close>), in a connection
  (\<open>connection_lifecycle\<close>) and in the whole process (\<open>server_keeps_ownership\<close>); a descriptor is closed once
  (\<open>closer_protocol\<close>).  What waits at a socket is handled in order (\<open>read_loop_feeds_chunks\<close>).  Where the code deviates from what it means
  to do, the property states exactly when and how: among others the skip inside a page and the flush that
  repeats old bytes, strings and UUIDs that do not survive a round trip, frame headers in two pieces, the
  insertion loops of \<open>Connection\<close>, the delayed tasks at the turn of the 32-bit clock, and the loop that never leaves a connection
  that was closed, or whose peer closed the stream (\<open>end_of_stream_hangs_loop\<close>), and the listener that one failed accept
  puts out of service (\<open>failed_accept_stops_listener\<close>).

  \<^bold>\<open>Not modelled.\<close>  The \<open>Print\<close> methods of the errorables (output; they take the stream by value, so that
  nothing can call them).  The \<open>Kqueue\<close> classes: they are for macOS and FreeBSD, and do not compile there.  \<open>KqueueEventLoop.cpp\<close> includes
  \<open>ErrnoException.hpp\<close>, which is not in the repository, throws the class of it, and assigns the \<open>Errorable\<close> of \<open>Read\<close> to a
  \<open>ssize_t\<close>; \<open>KqueueListener.cpp\<close> returns the undeclared \<open>epollFileDescriptor\<close> and passes pointers to pointers to
  \<open>accept\<close>; what they would do is not in the source.  The friend operators \<open><<\<close> and \<open>>>\<close> of \<open>ByteBuffer\<close>, declared and never defined.
  Floats are bit patterns, with a value only in \<open>Ship_Angle\<close>.  Allocation
  is taken to succeed.  A pipe that changes the pipeline while it is being iterated over, and a task that calls
  \<open>ProceedTasks\<close>, are outside the model.  Kernel, application classes and the initializer of the event loop are arguments
  of the definitions; where a theorem relies on what they do, it says so in its hypotheses.
\<close>

section \<open>Versions and registries together\<close>

text \<open>C32.  A protocol id inside the range of the versions that belongs to none of them gives a version that is not
  \<open>UNKNOWN\<close>, although nobody registered it, and no \<open>VersionedRegistry\<close> over these versions can be asked about
  it: the lookup reads beyond the table of ordinals.\<close>

theorem hole_lookup_undefined:
  assumes "versions_ok vs" and "n \<notin> protocolID ` set vs" and "protocolID (hd vs) \<le> n" and "n \<le> protocolID (last vs)"
    and "ProtocolVersions_new vs = Some pv" and "VersionedRegistry_new pv vm = Some vr"
  shows "\<exists>v. FromProtocolID pv n = Some (AddrOf v) \<and> v \<notin> set vs \<and> VersionToOrdinal vr (AddrOf v) = None \<and>
    Versioned_GetOrdinalByID regs vr (AddrOf v) pid = None"
proof -
  obtain v where v: "FromProtocolID pv n = Some (AddrOf v)" "version_ordinal v = 0xFFFFFFFF"
    using version_holes_are_not_unknown [OF assms(1-4)] assms(5) by auto
  have max: "version_ordinal (last vs) < 0xFFFFFFFF" using assms(1) by (simp add: versions_ok_def)
  have "maximumVersion pv = last vs"
    using ProtocolVersions_new_ok [OF assms(1)] assms(5) by (auto simp: built_def)
  then have none: "VersionToOrdinal vr (AddrOf v) = None"
    using VersionToOrdinal_new [OF assms(6), of "AddrOf v"] max v(2) by (auto simp: effective_ordinal_def)
  have "v \<notin> set vs" using versions_ok_bounds(4) [OF assms(1), of v] max v(2) by auto
  then show ?thesis using v(1) none by (simp add: Versioned_GetOrdinalByID_def registry_for_def)
qed

theorem hole_lookup_undefined_witness:
  "\<exists>vr v. VersionedRegistry_new sample_pv sample_versions = Some vr \<and> FromProtocolID sample_pv 100 = Some (AddrOf v) \<and>
     VersionToOrdinal vr (AddrOf v) = None"
proof -
  obtain vr where vr: "VersionedRegistry_new sample_pv sample_versions = Some vr" using sample_registry by blast
  have hole: "(100 :: u32) \<notin> protocolID ` set sample_versions" "protocolID (hd sample_versions) \<le> 100"
    "100 \<le> protocolID (last sample_versions)"
    by (simp_all add: sample_versions_def ProtocolVersion_new_def)
  have "ProtocolVersions_new sample_versions = Some sample_pv"
    using ProtocolVersions_new_ok [OF sample_versions_ok] by (auto simp: sample_pv_def)
  from hole_lookup_undefined [OF sample_versions_ok hole this vr, of Map.empty 0] show ?thesis using vr by blast
qed

end
